(* ===== verification/Prelude.thy ===== *)
theory Prelude
  imports Main "HOL-Library.Char_ord" "HOL-Library.Word" "HOL-Library.Sublist"
begin

text \<open>
  Shared vocabulary of the development. A Go \<open>string\<close> (and a \<open>[]byte\<close>) is a sequence of
  bytes, so it is modelled as Isabelle's \<open>string\<close>, a list of 8-bit characters; \<open>len\<close> is
  \<open>length\<close>, \<open>s[i:j]\<close> is \<open>take\<close>/\<open>drop\<close>. This theory has the byte-string functions of
  Go's standard library that several components use, the result type of fallible code,
  decimal rendering, and the generic lemmas about them.
\<close>

named_theorems bytes_simps \<open>characteristic equations of the byte-string helpers\<close>

named_theorems frame_simps \<open>fields an operation leaves unchanged\<close>

unbundle bit_operations_syntax

section \<open>Fallible results\<close>

text \<open>A Go function that returns \<open>(a, error)\<close> is a function into \<open>'e + 'a\<close>.\<close>

type_synonym ('e, 'a) result = "'e + 'a"

fun bind_result :: "('e, 'a) result \<Rightarrow> ('a \<Rightarrow> ('e, 'b) result) \<Rightarrow> ('e, 'b) result" where
  "bind_result (Inl e) f = Inl e"
| "bind_result (Inr a) f = f a"

lemma bind_result_eq_Inr [simp]:
  "bind_result r f = Inr b \<longleftrightarrow> (\<exists>a. r = Inr a \<and> f a = Inr b)"
  by (cases r) auto

lemma bind_result_cong [fundef_cong]:
  "r = r' \<Longrightarrow> (\<And>a. r' = Inr a \<Longrightarrow> f a = g a) \<Longrightarrow> bind_result r f = bind_result r' g"
  by (cases r') auto

section \<open>Bytes and characters\<close>

abbreviation code :: "char \<Rightarrow> nat" where
  "code c \<equiv> of_char c"

abbreviation byte :: "nat \<Rightarrow> char" where
  "byte n \<equiv> char_of n"

abbreviation newline :: char where
  "newline \<equiv> CHR 0x0A"

definition is_digit :: "char \<Rightarrow> bool" where
  "is_digit c \<longleftrightarrow> CHR ''0'' \<le> c \<and> c \<le> CHR ''9''"

definition digit_val :: "char \<Rightarrow> nat" where
  "digit_val c = code c - 48"

definition digit_char :: "nat \<Rightarrow> char" where
  "digit_char n = byte (48 + n)"

lemma code_less: "code c < 256"
  by simp

lemma code_byte: "n < 256 \<Longrightarrow> code (byte n) = n"
  by simp

lemma byte_inj: "m < 256 \<Longrightarrow> n < 256 \<Longrightarrow> byte m = byte n \<longleftrightarrow> m = n"
  by (metis code_byte)

lemma is_digit_iff: "is_digit c \<longleftrightarrow> 48 \<le> code c \<and> code c \<le> 57"
  by (simp add: is_digit_def less_eq_char_def)

lemma is_digit_digit_char [simp]: "n < 10 \<Longrightarrow> is_digit (digit_char n)"
  by (simp add: is_digit_iff digit_char_def)

lemma digit_val_digit_char [simp]: "n < 10 \<Longrightarrow> digit_val (digit_char n) = n"
  by (simp add: digit_val_def digit_char_def)

lemma digit_char_digit_val [simp]: "is_digit c \<Longrightarrow> digit_char (digit_val c) = c"
  by (simp add: is_digit_iff digit_val_def digit_char_def)

lemma digit_val_less [simp]: "is_digit c \<Longrightarrow> digit_val c < 10"
  unfolding is_digit_iff digit_val_def by linarith

section \<open>Byte-string functions of Go's strings package\<close>

definition has_prefix :: "string \<Rightarrow> string \<Rightarrow> bool" where
  "has_prefix s p \<longleftrightarrow> take (length p) s = p"

definition has_suffix :: "string \<Rightarrow> string \<Rightarrow> bool" where
  "has_suffix s p \<longleftrightarrow> length p \<le> length s \<and> drop (length s - length p) s = p"

text \<open>\<open>IndexByte\<close> and \<open>LastIndexByte\<close>: the index of the first and last occurrence; Go's -1 is
  \<open>None\<close>.\<close>

fun index_byte :: "string \<Rightarrow> char \<Rightarrow> nat option" where
  "index_byte [] b = None"
| "index_byte (c # cs) b = (if c = b then Some 0 else map_option Suc (index_byte cs b))"

fun last_index :: "string \<Rightarrow> char \<Rightarrow> nat option" where
  "last_index [] b = None"
| "last_index (c # cs) b =
     (case last_index cs b of
        Some i \<Rightarrow> Some (Suc i)
      | None \<Rightarrow> if c = b then Some 0 else None)"

abbreviation count_byte :: "string \<Rightarrow> char \<Rightarrow> nat" where
  "count_byte s b \<equiv> count_list s b"

definition trim_left_cutset :: "string \<Rightarrow> string \<Rightarrow> string" where
  "trim_left_cutset s cset = dropWhile (\<lambda>c. c \<in> set cset) s"

definition trim_right_cutset :: "string \<Rightarrow> string \<Rightarrow> string" where
  "trim_right_cutset s cset = rev (dropWhile (\<lambda>c. c \<in> set cset) (rev s))"

definition trim_cutset :: "string \<Rightarrow> string \<Rightarrow> string" where
  "trim_cutset s cset = trim_right_cutset (trim_left_cutset s cset) cset"

definition trim_suffix :: "string \<Rightarrow> string \<Rightarrow> string" where
  "trim_suffix s p = (if has_suffix s p then take (length s - length p) s else s)"

definition trim_prefix :: "string \<Rightarrow> string \<Rightarrow> string" where
  "trim_prefix s p = (if has_prefix s p then drop (length p) s else s)"

lemma has_prefix_iff: "has_prefix s p \<longleftrightarrow> (\<exists>r. s = p @ r)"
  by (auto simp: has_prefix_def) (metis append_take_drop_id)

lemma has_prefix_append [simp]: "has_prefix (p @ r) p"
  by (simp add: has_prefix_def)

lemma has_prefix_Nil [simp]: "has_prefix s []"
  by (simp add: has_prefix_def)

lemma has_suffix_iff: "has_suffix s p \<longleftrightarrow> (\<exists>r. s = r @ p)"
  by (auto simp: has_suffix_def) (metis append_take_drop_id)

lemma has_suffix_append [simp]: "has_suffix (r @ p) p"
  by (auto simp: has_suffix_iff)

lemma index_byte_None: "index_byte s b = None \<longleftrightarrow> b \<notin> set s"
  by (induction s) auto

lemma index_byte_notin [simp]: "b \<notin> set s \<Longrightarrow> index_byte s b = None"
  by (simp add: index_byte_None)

lemma index_byte_append [bytes_simps]:
  "index_byte (s @ t) b =
     (if b \<in> set s then index_byte s b else map_option ((+) (length s)) (index_byte t b))"
proof (induction s)
  case Nil
  have "(+) (0::nat) = id" by auto
  then show ?case by (simp add: option.map_id)
qed (auto simp: option.map_comp comp_def)

lemma index_byte_first:
  "b \<notin> set s \<Longrightarrow> index_byte (s @ b # t) b = Some (length s)"
  by (induction s) auto

lemma index_byte_SomeD:
  "index_byte s b = Some i \<Longrightarrow>
     i < length s \<and> s ! i = b \<and> b \<notin> set (take i s) \<and> s = take i s @ b # drop (Suc i) s"
  by (induction s arbitrary: i) (auto split: if_splits)

lemma last_index_None: "last_index s b = None \<longleftrightarrow> b \<notin> set s"
  by (induction s) (auto split: option.splits)

lemma last_index_notin [simp]: "b \<notin> set s \<Longrightarrow> last_index s b = None"
  by (simp add: last_index_None)

lemma last_index_SomeD:
  "last_index s b = Some i \<Longrightarrow>
     i < length s \<and> b \<notin> set (drop (Suc i) s) \<and> s = take i s @ b # drop (Suc i) s"
proof (induction s arbitrary: i)
  case (Cons c cs)
  show ?case
  proof (cases "last_index cs b")
    case None
    then have "b \<notin> set cs" by (simp add: last_index_None)
    then show ?thesis using Cons.prems None by (auto split: if_splits)
  next
    case (Some j)
    then show ?thesis using Cons.prems Cons.IH[OF Some] by auto
  qed
qed simp

lemma last_index_append [bytes_simps]:
  "b \<notin> set t \<Longrightarrow> last_index (s @ b # t) b = Some (length s)"
  by (induction s) simp_all

lemma index_byte_split:
  "b \<in> set s \<Longrightarrow> \<exists>u v. s = u @ b # v \<and> b \<notin> set u \<and> index_byte s b = Some (length u)"
  by (metis index_byte_first split_list_first)

lemma last_index_split:
  "b \<in> set s \<Longrightarrow> \<exists>u v. s = u @ b # v \<and> b \<notin> set v \<and> last_index s b = Some (length u)"
  by (metis last_index_append split_list_last)

lemma count_list_split: "b \<notin> set u \<Longrightarrow> b \<notin> set v \<Longrightarrow> count_list (u @ b # v) b = 1"
  by (simp add: count_notin)

lemma set_trim_cutset: "set (trim_cutset s cset) \<subseteq> set s"
  by (auto simp: trim_cutset_def trim_right_cutset_def trim_left_cutset_def
      dest!: set_dropWhileD)

section \<open>Decimal rendering and reading\<close>

text \<open>
  The decimal digits of a number, most significant first, and the value of a digit string.
  The repository has three hand-written renderings (\<open>itoa\<close>, \<open>itoa64\<close>); their models are
  related to \<open>decimal\<close> where they stand.
\<close>

fun decimal :: "nat \<Rightarrow> string" where
  "decimal n = (if n < 10 then [digit_char n] else decimal (n div 10) @ [digit_char (n mod 10)])"

declare decimal.simps [simp del]

definition dec_value :: "string \<Rightarrow> nat" where
  "dec_value s = foldl (\<lambda>v c. v * 10 + digit_val c) 0 s"

definition zero_pad :: "nat \<Rightarrow> string \<Rightarrow> string" where
  "zero_pad w s = replicate (w - length s) (CHR ''0'') @ s"

lemma dec_value_snoc [simp]: "dec_value (s @ [c]) = dec_value s * 10 + digit_val c"
  by (simp add: dec_value_def)

lemma dec_value_decimal [simp]: "dec_value (decimal n) = n"
proof (induction n rule: decimal.induct)
  case (1 n)
  show ?case
  proof (cases "n < 10")
    case True
    then show ?thesis by (simp add: decimal.simps[of n] dec_value_def)
  next
    case False
    then show ?thesis using 1 by (subst decimal.simps) simp
  qed
qed

lemma decimal_digits: "c \<in> set (decimal n) \<Longrightarrow> is_digit c"
proof (induction n rule: decimal.induct)
  case (1 n)
  then show ?case by (cases "n < 10") (auto simp: decimal.simps[of n])
qed

lemma decimal_not_Nil [simp]: "decimal n \<noteq> []"
  by (subst decimal.simps) simp

lemma decimal_inj: "decimal m = decimal n \<longleftrightarrow> m = n"
  by (metis dec_value_decimal)

lemma length_decimal_le: "n < 10 ^ k \<Longrightarrow> 0 < k \<Longrightarrow> length (decimal n) \<le> k"
proof (induction n arbitrary: k rule: decimal.induct)
  case (1 n)
  show ?case
  proof (cases "n < 10")
    case True
    then show ?thesis using 1 by (simp add: decimal.simps[of n])
  next
    case False
    with 1 obtain j where k: "k = Suc j" and j: "0 < j"
      by (cases k; cases "k - 1") auto
    have "n div 10 < 10 ^ j" using "1.prems"(1) unfolding k by auto
    then have "length (decimal (n div 10)) \<le> j" using "1.IH"[OF False] j by simp
    then show ?thesis using False k by (subst decimal.simps) simp
  qed
qed

lemma dec_value_replicate0 [simp]: "dec_value (replicate k (CHR ''0'') @ s) = dec_value s"
  by (induction k) (simp_all add: dec_value_def digit_val_def)

lemma length_zero_pad: "length s \<le> w \<Longrightarrow> length (zero_pad w s) = w"
  by (simp add: zero_pad_def)

lemma dec_value_zero_pad [simp]: "dec_value (zero_pad w s) = dec_value s"
  by (simp add: zero_pad_def)

section \<open>Go's signed 64-bit int\<close>

text \<open>An arithmetic result as a Go \<open>int\<close> (64 bits, two's complement), and Go's division,
  which truncates toward zero.\<close>

definition wrap64 :: "int \<Rightarrow> int" where
  "wrap64 x = (x + 2 ^ 63) mod 2 ^ 64 - 2 ^ 63"

definition quot :: "int \<Rightarrow> int \<Rightarrow> int" where
  "quot a b = sgn a * sgn b * (\<bar>a\<bar> div \<bar>b\<bar>)"

lemma wrap64_id: "- (2 ^ 63) \<le> x \<Longrightarrow> x < 2 ^ 63 \<Longrightarrow> wrap64 x = x"
  by (simp add: wrap64_def)

lemma wrap64_range: "- (2 ^ 63) \<le> wrap64 x \<and> wrap64 x < 2 ^ 63"
  by (simp add: wrap64_def)

lemma quot_nonneg: "0 \<le> a \<Longrightarrow> 0 < b \<Longrightarrow> quot a b = a div b"
  by (cases "a = 0") (simp_all add: quot_def)

section \<open>Generic list lemmas\<close>

lemma take_le_prefix: "\<exists>r. s = take n s @ r"
  by (metis append_take_drop_id)

lemma set_take_subsetD: "x \<in> set (take n s) \<Longrightarrow> x \<in> set s"
  by (rule in_set_takeD)

lemma append_eq_split_first:
  "b \<notin> set u \<Longrightarrow> b \<notin> set u' \<Longrightarrow> u @ b # v = u' @ b # v' \<longleftrightarrow> u = u' \<and> v = v'"
proof (induction u arbitrary: u')
  case Nil
  then show ?case by (cases u') auto
next
  case (Cons c cs)
  then show ?case by (cases u') auto
qed

end
