(* ===== verification/GoStd.thy ===== *)
theory GoStd
  imports Prelude
begin

text \<open>
  The parts of Go's standard library that the components use and whose behaviour their
  properties depend on, as functions on byte strings: \<open>utf8.DecodeRune\<close>,
  \<open>utf8.DecodeLastRune\<close> and the rune iteration of \<open>range\<close>, \<open>strings.TrimSpace\<close>,
  the path functions \<open>filepath.Base\<close>, \<open>Dir\<close>, \<open>Clean\<close> and \<open>Join\<close> (Unix), and
  \<open>strconv.Atoi\<close>.
\<close>

section \<open>UTF-8\<close>

definition rune_error :: nat where
  "rune_error = 65533"

text \<open>The class of a lead byte above 0x7F: the length of the encoding and the range of the
  second byte; \<open>None\<close> for a byte that starts no encoding.\<close>

definition lead_info :: "nat \<Rightarrow> (nat \<times> nat \<times> nat) option" where
  "lead_info p =
     (if p < 0xC2 then None
      else if p \<le> 0xDF then Some (2, 0x80, 0xBF)
      else if p = 0xE0 then Some (3, 0xA0, 0xBF)
      else if p = 0xED then Some (3, 0x80, 0x9F)
      else if p \<le> 0xEF then Some (3, 0x80, 0xBF)
      else if p = 0xF0 then Some (4, 0x90, 0xBF)
      else if p \<le> 0xF3 then Some (4, 0x80, 0xBF)
      else if p = 0xF4 then Some (4, 0x80, 0x8F)
      else None)"

text \<open>\<open>utf8.DecodeRune\<close>: the first rune and its width; \<open>(rune_error, 1)\<close> for an invalid
  encoding, \<open>(rune_error, 0)\<close> for the empty string.\<close>

fun decode_rune :: "string \<Rightarrow> nat \<times> nat" where
  "decode_rune [] = (rune_error, 0)"
| "decode_rune (c0 # r) =
     (let p0 = code c0 in
      if p0 < 128 then (p0, 1)
      else (case lead_info p0 of
        None \<Rightarrow> (rune_error, 1)
      | Some (sz, lo, hi) \<Rightarrow>
          if Suc (length r) < sz then (rune_error, 1)
          else let b1 = code (r ! 0) in
            if b1 < lo \<or> hi < b1 then (rune_error, 1)
            else if sz \<le> 2 then ((p0 mod 32) * 64 + b1 mod 64, 2)
            else let b2 = code (r ! 1) in
              if b2 < 128 \<or> 191 < b2 then (rune_error, 1)
              else if sz \<le> 3 then ((p0 mod 16) * 4096 + (b1 mod 64) * 64 + b2 mod 64, 3)
              else let b3 = code (r ! 2) in
                if b3 < 128 \<or> 191 < b3 then (rune_error, 1)
                else ((p0 mod 8) * 262144 + (b1 mod 64) * 4096 + (b2 mod 64) * 64 + b3 mod 64, 4)))"

declare decode_rune.simps(2) [simp del]

lemma lead_info_size: "lead_info p = Some (sz, lo, hi) \<Longrightarrow> 2 \<le> sz \<and> sz \<le> 4"
  by (auto simp: lead_info_def split: if_splits)

lemma decode_rune_size: "s \<noteq> [] \<Longrightarrow> 1 \<le> snd (decode_rune s) \<and> snd (decode_rune s) \<le> length s"
proof (cases s)
  case (Cons c r)
  then show ?thesis
    using lead_info_size[of "code c"]
    by (cases "lead_info (code c)") (force simp: decode_rune.simps(2) Let_def)+
qed simp

lemma decode_rune_ascii: "code c < 128 \<Longrightarrow> decode_rune (c # r) = (code c, 1)"
  by (simp add: decode_rune.simps(2) Let_def)

text \<open>The runes a \<open>range\<close> loop over a string yields.\<close>

function runes :: "string \<Rightarrow> nat list" where
  "runes s = (if s = [] then [] else fst (decode_rune s) # runes (drop (snd (decode_rune s)) s))"
  by pat_completeness auto
termination
proof (relation "measure length", goal_cases)
  case (2 s)
  with decode_rune_size[of s] show ?case by simp
qed simp

declare runes.simps [simp del]

text \<open>\<open>utf8.ValidString\<close>.\<close>

function valid_utf8 :: "string \<Rightarrow> bool" where
  "valid_utf8 s \<longleftrightarrow>
     (if s = [] then True
      else if decode_rune s = (rune_error, 1) then False
      else valid_utf8 (drop (snd (decode_rune s)) s))"
  by pat_completeness auto
termination
proof (relation "measure length", goal_cases)
  case (2 s)
  with decode_rune_size[of s] show ?case by simp
qed simp

declare valid_utf8.simps [simp del]

lemma valid_utf8_ascii: "\<forall>c\<in>set s. code c < 128 \<Longrightarrow> valid_utf8 s"
proof (induction s)
  case (Cons c s)
  then show ?case by (subst valid_utf8.simps) (simp add: decode_rune_ascii rune_error_def)
qed (simp add: valid_utf8.simps)

text \<open>\<open>json.Marshal\<close> replaces each invalid byte of a string by U+FFFD; what is read back is the
  coerced string.\<close>

function utf8_coerce :: "string \<Rightarrow> string" where
  "utf8_coerce s =
     (if s = [] then []
      else if decode_rune s = (rune_error, 1)
        then [CHR 0xEF, CHR 0xBF, CHR 0xBD] @ utf8_coerce (drop 1 s)
      else take (snd (decode_rune s)) s @ utf8_coerce (drop (snd (decode_rune s)) s))"
  by pat_completeness auto
termination
proof (relation "measure length", goal_cases)
  case (3 s)
  with decode_rune_size[of s] show ?case by simp
qed simp_all

declare utf8_coerce.simps [simp del]

lemma utf8_coerce_valid: "valid_utf8 s \<Longrightarrow> utf8_coerce s = s"
proof (induction s rule: utf8_coerce.induct)
  case (1 s)
  then show ?case
    by (subst utf8_coerce.simps) (auto simp: valid_utf8.simps[of s] split: if_splits)
qed

text \<open>\<open>utf8.RuneStart\<close> and \<open>utf8.DecodeLastRune\<close>: the backward scan looks at up to four
  bytes for a byte that can start an encoding.\<close>

definition rune_start :: "char \<Rightarrow> bool" where
  "rune_start c \<longleftrightarrow> code c div 64 \<noteq> 2"

definition last_start :: "string \<Rightarrow> nat" where
  "last_start s =
     (let e = length s in
      if 2 \<le> e \<and> rune_start (s ! (e - 2)) then e - 2
      else if 3 \<le> e \<and> rune_start (s ! (e - 3)) then e - 3
      else if 4 \<le> e \<and> rune_start (s ! (e - 4)) then e - 4
      else e - 5)"

definition decode_last_rune :: "string \<Rightarrow> nat \<times> nat" where
  "decode_last_rune s =
     (if s = [] then (rune_error, 0)
      else if code (last s) < 128 then (code (last s), 1)
      else let start = last_start s;
               (r, size) = decode_rune (drop start s)
           in if start + size \<noteq> length s then (rune_error, 1) else (r, size))"

lemma decode_last_rune_size: "s \<noteq> [] \<Longrightarrow> 1 \<le> snd (decode_last_rune s)"
proof -
  assume "s \<noteq> []"
  then have "last_start s < length s" by (auto simp: last_start_def Let_def)
  then have "drop (last_start s) s \<noteq> []" by simp
  from decode_rune_size[OF this] show ?thesis
    by (auto simp: decode_last_rune_def Let_def split: prod.splits)
qed

text \<open>\<open>unicode.IsSpace\<close> and \<open>strings.TrimSpace\<close>.\<close>

definition is_space_rune :: "nat \<Rightarrow> bool" where
  "is_space_rune r \<longleftrightarrow>
     (9 \<le> r \<and> r \<le> 13) \<or> r = 32 \<or> r = 0x85 \<or> r = 0xA0 \<or> r = 0x1680 \<or>
     (0x2000 \<le> r \<and> r \<le> 0x200A) \<or> r = 0x2028 \<or> r = 0x2029 \<or> r = 0x202F \<or> r = 0x205F \<or> r = 0x3000"

function trim_left_space :: "string \<Rightarrow> string" where
  "trim_left_space s =
     (if s \<noteq> [] \<and> is_space_rune (fst (decode_rune s))
      then trim_left_space (drop (snd (decode_rune s)) s) else s)"
  by pat_completeness auto
termination
proof (relation "measure length", goal_cases)
  case (2 s)
  with decode_rune_size[of s] show ?case by simp
qed simp

function trim_right_space :: "string \<Rightarrow> string" where
  "trim_right_space s =
     (if s \<noteq> [] \<and> is_space_rune (fst (decode_last_rune s))
      then trim_right_space (take (length s - snd (decode_last_rune s)) s) else s)"
  by pat_completeness auto
termination
proof (relation "measure length", goal_cases)
  case (2 s)
  with decode_last_rune_size[of s] show ?case by (cases s) auto
qed simp

declare trim_left_space.simps [simp del] trim_right_space.simps [simp del]

definition trim_space :: "string \<Rightarrow> string" where
  "trim_space s = trim_right_space (trim_left_space s)"

text \<open>On a string that starts and ends with printable ASCII, \<open>TrimSpace\<close> is the identity.\<close>

definition graphic :: "char \<Rightarrow> bool" where
  "graphic c \<longleftrightarrow> 33 \<le> code c \<and> code c < 128"

lemma trim_space_id:
  assumes "s = [] \<or> (graphic (hd s) \<and> graphic (last s))"
  shows "trim_space s = s"
proof (cases s)
  case (Cons c r)
  with assms have c: "graphic c" and l: "graphic (last s)" by auto
  have "trim_left_space s = s"
    using c Cons by (subst trim_left_space.simps) (simp add: decode_rune_ascii graphic_def is_space_rune_def)
  moreover have "trim_right_space s = s"
    using l Cons by (subst trim_right_space.simps)
      (simp add: decode_last_rune_def graphic_def is_space_rune_def)
  ultimately show ?thesis by (simp add: trim_space_def)
qed (simp add: trim_space_def trim_left_space.simps trim_right_space.simps)

section \<open>Paths\<close>

abbreviation slash :: char where
  "slash \<equiv> CHR ''/''"

definition path_base :: "string \<Rightarrow> string" where
  "path_base p =
     (if p = [] then ''.''
      else let q = trim_right_cutset p ''/'';
               r = (case last_index q slash of None \<Rightarrow> q | Some i \<Rightarrow> drop (Suc i) q)
           in if r = [] then ''/'' else r)"

text \<open>The elements of a path between slashes.\<close>

fun split_on :: "char \<Rightarrow> string \<Rightarrow> string list" where
  "split_on b [] = [[]]"
| "split_on b (c # cs) =
     (if c = b then [] # split_on b cs
      else (case split_on b cs of [] \<Rightarrow> [[c]] | w # ws \<Rightarrow> (c # w) # ws))"

fun join_with :: "char \<Rightarrow> string list \<Rightarrow> string" where
  "join_with b [] = []"
| "join_with b [w] = w"
| "join_with b (w # v # ws) = w @ b # join_with b (v # ws)"

text \<open>One step of \<open>Clean\<close>: the cleaned elements so far are kept in reverse.\<close>

definition clean_step :: "bool \<Rightarrow> string \<Rightarrow> string list \<Rightarrow> string list" where
  "clean_step rooted e acc =
     (if e = [] \<or> e = ''.'' then acc
      else if e = ''..'' then
        (case acc of
           [] \<Rightarrow> if rooted then [] else [''..'']
         | a # as \<Rightarrow> if a = ''..'' then ''..'' # acc else as)
      else e # acc)"

definition path_clean :: "string \<Rightarrow> string" where
  "path_clean p =
     (let rooted = has_prefix p ''/'';
          es = rev (fold (clean_step rooted) (split_on slash p) []);
          body = join_with slash es
      in if rooted then slash # body else if es = [] then ''.'' else body)"

definition path_join :: "string \<Rightarrow> string \<Rightarrow> string" where
  "path_join a b =
     (if a = [] then (if b = [] then [] else path_clean b)
      else path_clean (a @ slash # b))"

text \<open>\<open>filepath.Dir\<close>: everything up to the last slash, cleaned.\<close>

definition path_dir :: "string \<Rightarrow> string" where
  "path_dir p =
     path_clean (case last_index p slash of None \<Rightarrow> [] | Some i \<Rightarrow> take (Suc i) p)"

text \<open>A proper path element: what a leaf name must be.\<close>

definition leaf_elem :: "string \<Rightarrow> bool" where
  "leaf_elem e \<longleftrightarrow> e \<noteq> [] \<and> e \<noteq> ''.'' \<and> e \<noteq> ''..'' \<and> slash \<notin> set e"

text \<open>A directory in the form \<open>Clean\<close> and \<open>EvalSymlinks\<close> give for an absolute path: proper
  elements, each after a slash.\<close>

definition abs_dir :: "string list \<Rightarrow> string" where
  "abs_dir es = slash # join_with slash es"

lemma split_on_not_Nil [simp]: "split_on b s \<noteq> []"
  by (induction s) (auto split: list.splits)

lemma split_on_notin: "b \<notin> set s \<Longrightarrow> split_on b s = [s]"
  by (induction s) auto

lemma split_on_append: "b \<notin> set w \<Longrightarrow> split_on b (w @ b # s) = w # split_on b s"
  by (induction w) auto

lemma split_on_join:
  "ws \<noteq> [] \<Longrightarrow> \<forall>w\<in>set ws. b \<notin> set w \<Longrightarrow> split_on b (join_with b ws) = ws"
  by (induction ws rule: join_with.induct) (auto simp: split_on_notin split_on_append)

lemma join_with_snoc: "ws \<noteq> [] \<Longrightarrow> join_with b (ws @ [w]) = join_with b ws @ b # w"
  by (induction b ws rule: join_with.induct) auto

lemma fold_clean_elems:
  "\<forall>e\<in>set es. leaf_elem e \<Longrightarrow> fold (clean_step rooted) es acc = rev es @ acc"
  by (induction es arbitrary: acc) (auto simp: clean_step_def leaf_elem_def)

lemma split_on_join_append:
  "ws \<noteq> [] \<Longrightarrow> \<forall>w\<in>set ws. b \<notin> set w \<Longrightarrow>
     split_on b (join_with b ws @ b # x) = ws @ split_on b x"
  by (induction b ws rule: join_with.induct) (auto simp: split_on_append)

lemma split_on_abs_dir:
  assumes "\<forall>e\<in>set es. leaf_elem e"
  shows "split_on slash (abs_dir es @ slash # x) = [] # (if es = [] then [[]] else es) @ split_on slash x"
proof (cases "es = []")
  case False
  have "\<forall>w\<in>set es. slash \<notin> set w" using assms by (simp add: leaf_elem_def)
  from split_on_join_append[OF False this] False show ?thesis by (simp add: abs_dir_def)
qed (simp add: abs_dir_def)

lemma path_join_abs_dir:
  assumes "\<forall>e\<in>set es. leaf_elem e" and "leaf_elem x"
  shows "path_join (abs_dir es) x = abs_dir (es @ [x])"
proof -
  have x: "split_on slash x = [x]" using assms(2) by (simp add: leaf_elem_def split_on_notin)
  have "has_prefix (abs_dir es @ slash # x) ''/''" by (simp add: abs_dir_def has_prefix_def)
  moreover have "fold (clean_step True) (split_on slash (abs_dir es @ slash # x)) [] = rev (es @ [x])"
    using assms by (auto simp: split_on_abs_dir x fold_clean_elems clean_step_def leaf_elem_def)
  ultimately show ?thesis
    by (simp add: path_join_def path_clean_def abs_dir_def)
qed

lemma abs_dir_snoc: "abs_dir (es @ [x]) = (if es = [] then ''/'' else abs_dir es @ ''/'') @ x"
  by (simp add: abs_dir_def join_with_snoc)

lemma path_base_leaf: "leaf_elem e \<Longrightarrow> path_base e = e"
proof -
  assume e: "leaf_elem e"
  then have "last e \<noteq> slash" "e \<noteq> []" by (auto simp: leaf_elem_def dest: last_in_set)
  moreover from this have "trim_right_cutset e ''/'' = e"
    by (cases e rule: rev_cases) (auto simp: trim_right_cutset_def)
  ultimately show ?thesis using e by (simp add: path_base_def leaf_elem_def Let_def)
qed

lemma path_base_no_slash: "path_base p = ''/'' \<or> slash \<notin> set (path_base p)"
proof -
  obtain q where q: "q = trim_right_cutset p ''/''" by simp
  have "slash \<notin> set (drop (Suc i) q)" if "last_index q slash = Some i" for i
    using last_index_SomeD[OF that] by simp
  then show ?thesis
    by (auto simp: path_base_def Let_def q[symmetric] last_index_None split: option.splits)
qed

section \<open>strconv.Atoi\<close>

text \<open>An optional sign and at least one decimal digit, within the range of a 64-bit int.\<close>

definition atoi_digits :: "string \<Rightarrow> nat option" where
  "atoi_digits s = (if s \<noteq> [] \<and> list_all is_digit s then Some (dec_value s) else None)"

definition atoi :: "string \<Rightarrow> int option" where
  "atoi s =
     (case s of
        [] \<Rightarrow> None
      | c # r \<Rightarrow>
          if c = CHR ''-'' then
            (case atoi_digits r of
               None \<Rightarrow> None | Some n \<Rightarrow> if n \<le> 2 ^ 63 then Some (- int n) else None)
          else
            (case atoi_digits (if c = CHR ''+'' then r else s) of
               None \<Rightarrow> None | Some n \<Rightarrow> if n < 2 ^ 63 then Some (int n) else None))"

lemma atoi_decimal: "n < 2 ^ 63 \<Longrightarrow> atoi (decimal n) = Some (int n)"
proof -
  assume n: "n < 2 ^ 63"
  have ad: "atoi_digits (decimal n) = Some n"
    by (auto simp: atoi_digits_def list_all_iff decimal_digits)
  obtain c r where cr: "decimal n = c # r" by (cases "decimal n") auto
  then have "is_digit c" using decimal_digits[of c n] by simp
  then have "c \<noteq> CHR ''-''" "c \<noteq> CHR ''+''" by (auto simp: is_digit_iff)
  then have "atoi (decimal n) =
      (case atoi_digits (decimal n) of None \<Rightarrow> None | Some n \<Rightarrow> if n < 2 ^ 63 then Some (int n) else None)"
    by (simp only: atoi_def cr list.case if_False)
  with ad n show ?thesis by simp
qed

end
