(* ===== verification/Auth.thy ===== *)
theory Auth
  imports GoStd
begin

text \<open>
  Package \<open>auth\<close>: the constant-time token comparison and the token generator. Bytes are
  8-bit words where the code does bitwise work on them, and the Base32 bit buffer is the
  32-bit word the code declares.
\<close>

section \<open>Constant-time comparison\<close>

definition w8 :: "char \<Rightarrow> 8 word" where
  "w8 c = of_char c"

text \<open>\<open>subtle.ConstantTimeCompare(x, y) == 1\<close>.\<close>

definition constant_time_compare :: "string \<Rightarrow> string \<Rightarrow> bool" where
  "constant_time_compare x y \<longleftrightarrow> length x = length y \<and> x = y"

definition ct_step :: "string \<Rightarrow> string \<Rightarrow> nat \<Rightarrow> 8 word \<Rightarrow> 8 word" where
  "ct_step pres expd i d =
     (let x = if i < length pres then w8 (pres ! i) else 0;
          y = if i < length expd then w8 (expd ! i) else 0
      in d OR (x XOR y))"

definition ConstantTimeEquals :: "string option \<Rightarrow> string \<Rightarrow> bool" where
  "ConstantTimeEquals presented expd =
     (case presented of
        None \<Rightarrow> (let acc = fold (\<lambda>x a. a OR w8 x) expd 0 in False)
      | Some pres \<Rightarrow>
          (let diff0 = if length pres \<noteq> length expd then 1 else 0;
               n = if length expd > length pres then length expd else length pres
           in if n = 0 then diff0 = 0
              else let diff = fold (ct_step pres expd) [0..<n] diff0
                   in if length pres = length expd
                      then constant_time_compare pres expd \<and> diff = 0
                      else diff = 0))"

lemma or_eq_0_iff: "(a :: 8 word) OR b = 0 \<longleftrightarrow> a = 0 \<and> b = 0"
  by (auto simp: bit_eq_iff bit_simps)

lemma xor_eq_0_iff: "(a :: 8 word) XOR b = 0 \<longleftrightarrow> a = b"
proof
  assume h: "a XOR b = 0"
  show "a = b"
  proof (rule bit_word_eqI)
    fix n
    assume "n < LENGTH(8)"
    have "bit (a XOR b) n = bit (0 :: 8 word) n" by (simp only: h)
    then show "bit a n = bit b n" by (simp add: bit_xor_iff)
  qed
qed simp

lemma ct_fold_zero:
  "fold (ct_step p e) is d = 0 \<longleftrightarrow>
     d = 0 \<and> (\<forall>i\<in>set is. (if i < length p then w8 (p ! i) else 0) = (if i < length e then w8 (e ! i) else 0))"
  by (induction "is" arbitrary: d)
    (simp_all add: ct_step_def Let_def or_eq_0_iff xor_eq_0_iff del: if_split)

lemma of_char_word: "(of_char c :: 'a::len word) = word_of_nat (code c)"
  by (simp only: of_nat_of_char)

lemma w8_inj: "w8 a = w8 b \<longleftrightarrow> a = b"
proof -
  have "unat (w8 c) = code c" for c
    unfolding w8_def of_char_word by (simp add: unat_of_nat del: of_nat_of_char)
  then show ?thesis by (metis of_char_eq_iff)
qed

section \<open>Base32\<close>

definition base32Alphabet :: string where
  "base32Alphabet = ''ABCDEFGHIJKLMNOPQRSTUVWXYZ234567''"

definition tokenRandomBytes :: nat where
  "tokenRandomBytes = 15"

definition TokenChars :: nat where
  "TokenChars = 24"

text \<open>The inner loop: while five bits are buffered, emit their character.\<close>

function b32_drain :: "32 word \<Rightarrow> nat \<Rightarrow> string \<Rightarrow> nat \<times> string" where
  "b32_drain buffer bits out =
     (if 5 \<le> bits then
        let bits' = bits - 5; idx = drop_bit bits' buffer AND 0x1F
        in b32_drain buffer bits' (out @ [base32Alphabet ! unat idx])
      else (bits, out))"
  by pat_completeness auto
termination
  by (relation "measure (\<lambda>(buffer, bits, out). bits)") auto

declare b32_drain.simps [simp del]

definition b32_byte :: "char \<Rightarrow> 32 word \<times> nat \<times> string \<Rightarrow> 32 word \<times> nat \<times> string" where
  "b32_byte b st =
     (let (buffer, bits, out) = st;
          buffer' = push_bit 8 buffer OR of_char b;
          (bits', out') = b32_drain buffer' (bits + 8) out
      in (buffer', bits', out'))"

definition base32Encode :: "string \<Rightarrow> string" where
  "base32Encode bs =
     (let (buffer, bits, out) = fold b32_byte bs (0, 0, [])
      in if 0 < bits
         then out @ [base32Alphabet ! unat (push_bit (5 - bits) buffer AND 0x1F)]
         else out)"

text \<open>\<open>MakeToken\<close> over the bytes the system's random source delivers; \<open>None\<close> is a failed
  read.\<close>

definition MakeToken :: "string option \<Rightarrow> string option" where
  "MakeToken rand_read = map_option base32Encode rand_read"

subsection \<open>What the buffer holds\<close>

text \<open>The bytes and the output characters as big-endian numbers.\<close>

definition bytes_value :: "string \<Rightarrow> nat" where
  "bytes_value bs = foldl (\<lambda>v b. v * 256 + code b) 0 bs"

definition b32_index :: "char \<Rightarrow> nat" where
  "b32_index c = (case index_byte base32Alphabet c of None \<Rightarrow> 0 | Some i \<Rightarrow> i)"

definition b32_value :: "string \<Rightarrow> nat" where
  "b32_value cs = foldl (\<lambda>v c. v * 32 + b32_index c) 0 cs"

lemma b32_index_nth: "i < 32 \<Longrightarrow> b32_index (base32Alphabet ! i) = i"
proof -
  have "list_all (\<lambda>i. b32_index (base32Alphabet ! i) = i) [0..<32]" by code_simp
  then show "i < 32 \<Longrightarrow> b32_index (base32Alphabet ! i) = i" by (simp add: list_all_iff)
qed

lemma length_base32Alphabet: "length base32Alphabet = 32"
  by (simp add: base32Alphabet_def)

lemma b32_value_snoc [simp]: "b32_value (cs @ [c]) = b32_value cs * 32 + b32_index c"
  by (simp add: b32_value_def)

lemma bytes_value_snoc [simp]: "bytes_value (bs @ [b]) = bytes_value bs * 256 + code b"
  by (simp add: bytes_value_def)

lemma bytes_value_inj:
  "length as = length bs \<Longrightarrow> bytes_value as = bytes_value bs \<longleftrightarrow> as = bs"
proof (induction as arbitrary: bs rule: rev_induct)
  case (snoc a as)
  then obtain b bs' where bs: "bs = bs' @ [b]" and l: "length as = length bs'"
    by (cases bs rule: rev_cases) auto
  have "x * 256 + code a = y * 256 + code b \<longleftrightarrow> x = y \<and> a = b" for x y :: nat
  proof
    assume h: "x * 256 + code a = y * 256 + code b"
    then have "(x * 256 + code a) mod 256 = (y * 256 + code b) mod 256" by simp
    then have "code a = code b" by simp
    with h show "x = y \<and> a = b" by simp
  qed simp
  then show ?case using snoc.IH[OF l] bs by auto
qed simp

lemma word_low5: "unat (w AND 0x1F :: 32 word) = unat w mod 32"
proof -
  have "w AND 0x1F = take_bit 5 w" by (simp add: take_bit_eq_mask mask_eq_exp_minus_1)
  show ?thesis unfolding \<open>w AND 0x1F = take_bit 5 w\<close> unsigned_take_bit_eq by (simp add: take_bit_eq_mod)
qed

lemma unat_drop32: "unat (drop_bit n w :: 32 word) = unat w div 2 ^ n"
  unfolding unat_drop_bit_eq by (simp add: drop_bit_eq_div)

lemma code_high_bit: "8 \<le> n \<Longrightarrow> \<not> bit (code b) n"
proof -
  assume "8 \<le> n"
  have "take_bit 8 (code b) = code b" by (simp add: take_bit_eq_mod)
  then show ?thesis using \<open>8 \<le> n\<close> by (metis bit_take_bit_iff not_less)
qed

lemma unat_push_or_byte:
  "unat (push_bit 8 w OR of_char b :: 32 word) = (unat w * 256 + code b) mod 2 ^ 32"
proof -
  have "push_bit 8 w OR of_char b = push_bit 8 w + (of_char b :: 32 word)"
    unfolding of_char_word
    by (rule disjunctive_add_eq_or [symmetric])
       (auto simp: bit_simps bit_eq_iff code_high_bit simp del: of_nat_of_char)
  also have "\<dots> = word_of_nat (unat w * 256 + code b)"
    by (simp add: push_bit_eq_mult of_char_word del: of_nat_of_char)
  finally show ?thesis by (simp only: unat_of_nat) simp
qed


text \<open>What \<open>b32_drain\<close> leaves: the buffered number \<open>N\<close>, seen through the 32-bit buffer,
  keeps its low \<open>bits\<close> bits and the rest has been written out.\<close>

lemma drain_step_value:
  assumes "unat buffer = N mod 2 ^ 32" and "bits \<le> 32" and "5 \<le> bits"
    and "b32_value out = N div 2 ^ bits"
  shows "b32_value (out @ [base32Alphabet ! unat (drop_bit (bits - 5) buffer AND 0x1F :: 32 word)]) =
         N div 2 ^ (bits - 5)"
proof -
  obtain k where k: "bits = k + 5" using assms(3) by (metis le_add_diff_inverse2)
  have kl: "k + 5 \<le> 32" using assms(2) k by simp
  define i where "i = unat (drop_bit k buffer AND 0x1F)"
  have "i = (N mod 2 ^ 32) div 2 ^ k mod 32"
    unfolding i_def word_low5 unat_drop32 assms(1) ..
  also have "\<dots> = take_bit 5 (drop_bit k (take_bit 32 N))"
    by (simp add: take_bit_eq_mod drop_bit_eq_div)
  also have "\<dots> = take_bit 5 (drop_bit k N)"
    using kl by (auto simp: bit_eq_iff bit_simps)
  finally have i: "i = N div 2 ^ k mod 32" by (simp add: take_bit_eq_mod drop_bit_eq_div)
  have "N div 2 ^ bits = N div 2 ^ k div 32" by (simp add: k power_add div_mult2_eq)
  then show ?thesis
    using assms(4) i by (simp add: k i_def[symmetric] b32_index_nth)
qed

lemma b32_drain_value:
  assumes "unat buffer = N mod 2 ^ 32" and "bits \<le> 32" and "b32_value out = N div 2 ^ bits"
    and "set out \<subseteq> set base32Alphabet"
    and "b32_drain buffer bits out = (bits', out')"
  shows "b32_value out' = N div 2 ^ bits' \<and> bits' < 5 \<and>
         5 * length out' + bits' = 5 * length out + bits \<and> set out' \<subseteq> set base32Alphabet"
  using assms
proof (induction buffer bits out rule: b32_drain.induct)
  case (1 buffer bits out)
  show ?case
  proof (cases "5 \<le> bits")
    case True
    let ?i = "unat (drop_bit (bits - 5) buffer AND 0x1F :: 32 word)"
    have v: "b32_value (out @ [base32Alphabet ! ?i]) = N div 2 ^ (bits - 5)"
      using "1.prems" True by (intro drain_step_value)
    have "?i < 32" unfolding word_low5 by simp
    then have m: "set (out @ [base32Alphabet ! ?i]) \<subseteq> set base32Alphabet"
      using "1.prems"(4) by (simp add: length_base32Alphabet)
    have e: "b32_drain buffer (bits - 5) (out @ [base32Alphabet ! ?i]) = (bits', out')"
      using "1.prems"(5) True by (subst (asm) b32_drain.simps) (simp add: Let_def)
    from "1.IH"[OF True refl refl "1.prems"(1) _ v m e] "1.prems"(2) True show ?thesis by simp
  next
    case False
    with "1.prems" show ?thesis by (subst (asm) b32_drain.simps) auto
  qed
qed

definition b32_inv :: "string \<Rightarrow> 32 word \<times> nat \<times> string \<Rightarrow> bool" where
  "b32_inv bs st \<longleftrightarrow>
     (case st of (buffer, bits, out) \<Rightarrow>
        unat buffer = bytes_value bs mod 2 ^ 32 \<and> bits < 5 \<and>
        b32_value out = bytes_value bs div 2 ^ bits \<and>
        5 * length out + bits = 8 * length bs \<and> set out \<subseteq> set base32Alphabet)"

lemma b32_inv_step: "b32_inv bs st \<Longrightarrow> b32_inv (bs @ [b]) (b32_byte b st)"
proof -
  assume inv: "b32_inv bs st"
  obtain buffer bits out where st: "st = (buffer, bits, out)" by (cases st)
  let ?N = "bytes_value (bs @ [b])"
  let ?buf = "push_bit 8 buffer OR of_char b :: 32 word"
  obtain bits' out' where d: "b32_drain ?buf (bits + 8) out = (bits', out')" by fastforce
  have m: "(x mod M * 256 + c) mod M = (x * 256 + c) mod M" for x c M :: nat
    by (metis mod_add_left_eq mod_mult_left_eq)
  have buf: "unat ?buf = ?N mod 2 ^ 32"
    using inv unfolding st b32_inv_def unat_push_or_byte by (simp add: m)
  have low: "?N div 2 ^ (bits + 8) = bytes_value bs div 2 ^ bits"
    using code_less[of b] by (simp add: power_add mult.commute[of "2 ^ bits"] div_mult2_eq)
  have "b32_value out' = ?N div 2 ^ bits' \<and> bits' < 5 \<and>
      5 * length out' + bits' = 5 * length out + (bits + 8) \<and> set out' \<subseteq> set base32Alphabet"
    using inv low by (intro b32_drain_value[OF buf _ _ _ d]) (auto simp: b32_inv_def st)
  then show ?thesis using inv buf by (auto simp: b32_inv_def b32_byte_def st Let_def d)
qed

lemma b32_inv_fold: "b32_inv bs (fold b32_byte bs (0, 0, []))"
proof (induction bs rule: rev_induct)
  case Nil
  then show ?case by (simp add: b32_inv_def bytes_value_def b32_value_def)
qed (simp add: b32_inv_step)

lemma base32Encode_full:
  assumes "length bs mod 5 = 0"
  shows "5 * length (base32Encode bs) = 8 * length bs \<and> set (base32Encode bs) \<subseteq> set base32Alphabet \<and>
         b32_value (base32Encode bs) = bytes_value bs"
proof -
  obtain buffer bits out where f: "fold b32_byte bs (0, 0, []) = (buffer, bits, out)"
    by (metis prod_cases3)
  have inv: "b32_inv bs (buffer, bits, out)" using b32_inv_fold[of bs] f by simp
  from assms obtain k where "length bs = 5 * k" by (auto simp: mod_eq_0_iff_dvd elim: dvdE)
  then have "5 * length out + bits = 40 * k" "bits < 5" using inv by (auto simp: b32_inv_def)
  then have "bits = 0" by presburger
  then show ?thesis using inv f by (auto simp: base32Encode_def b32_inv_def)
qed

text \<open>The token comparison is exact: a presented token is accepted precisely when it
  was presented and is byte for byte the expected one, whatever the two lengths; an absent token
  is always refused.\<close>

lemma ConstantTimeEquals_exact:
  "ConstantTimeEquals presented expd = (presented = Some expd)"
proof (cases presented)
  case (Some p)
  have "fold (ct_step p expd) [0..<length expd] 0 = 0" if "p = expd"
    using that by (simp add: ct_fold_zero)
  then show ?thesis
    unfolding ConstantTimeEquals_def Some
    by (auto simp: ct_fold_zero constant_time_compare_def Let_def)
qed (simp add: ConstantTimeEquals_def)

section \<open>Properties\<close>

text \<open>A generated token is 24 characters of the upper-case Base32 alphabet, and distinct
  random draws give distinct tokens, so the token carries all 120 random bits.\<close>

lemma MakeToken_entropy:
  assumes "length r1 = tokenRandomBytes" and "length r2 = tokenRandomBytes"
  shows "\<exists>t1 t2. MakeToken (Some r1) = Some t1 \<and> MakeToken (Some r2) = Some t2 \<and>
           length t1 = TokenChars \<and> set t1 \<subseteq> set base32Alphabet \<and> (t1 = t2 \<longleftrightarrow> r1 = r2)"
proof -
  have f: "5 * length (base32Encode r) = 120 \<and> set (base32Encode r) \<subseteq> set base32Alphabet \<and>
      b32_value (base32Encode r) = bytes_value r" if "length r = tokenRandomBytes" for r
    using base32Encode_full[of r] that by (simp add: tokenRandomBytes_def)
  have "base32Encode r1 = base32Encode r2 \<longleftrightarrow> r1 = r2"
    using f assms bytes_value_inj[of r1 r2] by metis
  then show ?thesis using f assms(1) by (auto simp: MakeToken_def TokenChars_def)
qed

lemma MakeToken_entropy_witness:
  "\<exists>t1 t2. MakeToken (Some ''0123456789abcde'') = Some t1 \<and> MakeToken (Some ''0123456789abcdf'') = Some t2 \<and>
     length t1 = TokenChars \<and> set t1 \<subseteq> set base32Alphabet \<and> t1 \<noteq> t2"
  using MakeToken_entropy[of "''0123456789abcde''" "''0123456789abcdf''"]
  by (simp add: tokenRandomBytes_def)

end
