(* ===== verification/Netip.thy ===== *)
theory Netip
  imports GoStd
begin

text \<open>
  \<open>netip.ParseAddr\<close> and the queries of an address the classifier uses, with the standard
  library's loops: dotted-quad fields, hexadecimal groups with one ellipsis and an embedded IPv4
  tail, and the zone. An address is its bytes; an IPv6 one carries its zone.
\<close>

section \<open>Addresses\<close>

datatype addr = A4 "nat list" | A6 "nat list" string

definition with_zone :: "addr \<Rightarrow> string \<Rightarrow> addr" where
  "with_zone a z = (case a of A4 bs \<Rightarrow> A4 bs | A6 bs _ \<Rightarrow> A6 bs z)"

definition is_4in6 :: "addr \<Rightarrow> bool" where
  "is_4in6 a = (case a of A4 _ \<Rightarrow> False | A6 bs _ \<Rightarrow> take 12 bs = replicate 10 0 @ [255, 255])"

definition unmap :: "addr \<Rightarrow> addr" where
  "unmap a = (case a of A4 bs \<Rightarrow> A4 bs | A6 bs z \<Rightarrow> if is_4in6 a then A4 (drop 12 bs) else a)"

definition is_loopback :: "addr \<Rightarrow> bool" where
  "is_loopback a =
     (case unmap a of A4 bs \<Rightarrow> bs ! 0 = 127 | A6 bs _ \<Rightarrow> bs = replicate 15 0 @ [1])"

section \<open>Dotted quads\<close>

text \<open>\<open>parseIPv4Fields\<close>; \<open>sep\<close> says that the loop stands at the start or just after a dot.\<close>

fun ipv4_loop :: "bool \<Rightarrow> nat \<Rightarrow> nat \<Rightarrow> nat list \<Rightarrow> string \<Rightarrow> nat list option" where
  "ipv4_loop sep val len fs [] = (if length fs < 3 then None else Some (fs @ [val]))"
| "ipv4_loop sep val len fs (c # r) =
     (if is_digit c then
        if len = 1 \<and> val = 0 then None
        else if val * 10 + digit_val c > 255 then None
        else ipv4_loop False (val * 10 + digit_val c) (len + 1) fs r
      else if c = CHR ''.'' then
        if sep \<or> r = [] then None
        else if length fs = 3 then None
        else ipv4_loop True 0 0 (fs @ [val]) r
      else None)"

definition ipv4_fields :: "string \<Rightarrow> nat list option" where
  "ipv4_fields s = ipv4_loop True 0 0 [] s"

section \<open>Hexadecimal groups\<close>

definition hex_value :: "char \<Rightarrow> nat option" where
  "hex_value c =
     (if is_digit c then Some (digit_val c)
      else if 97 \<le> code c \<and> code c \<le> 102 then Some (code c - 87)
      else if 65 \<le> code c \<and> code c \<le> 70 then Some (code c - 55)
      else None)"

fun hex_scan :: "nat \<Rightarrow> nat \<Rightarrow> string \<Rightarrow> (nat \<times> nat \<times> string) option" where
  "hex_scan off acc [] = Some (off, acc, [])"
| "hex_scan off acc (c # r) =
     (case hex_value c of
        None \<Rightarrow> Some (off, acc, c # r)
      | Some d \<Rightarrow>
          if 3 < off then None
          else if 65535 < acc * 16 + d then None
          else hex_scan (off + 1) (acc * 16 + d) r)"

text \<open>The loop of \<open>parseIPv6\<close>: the bytes so far, the position of the ellipsis, the unread text.\<close>

function v6_loop :: "nat list \<Rightarrow> nat option \<Rightarrow> string \<Rightarrow> (nat list \<times> nat option \<times> string) option" where
  "v6_loop bs el s =
     (if 16 \<le> length bs then Some (bs, el, s)
      else (case hex_scan 0 0 s of
        None \<Rightarrow> None
      | Some (off, acc, r) \<Rightarrow>
          if off = 0 then None
          else if r \<noteq> [] \<and> hd r = CHR ''.'' then
            if el = None \<and> length bs \<noteq> 12 then None
            else if 16 < length bs + 4 then None
            else map_option (\<lambda>fs. (bs @ fs, el, [])) (ipv4_fields s)
          else
            let bs1 = bs @ [acc div 256, acc mod 256] in
            (case r of
               [] \<Rightarrow> Some (bs1, el, [])
             | c # r1 \<Rightarrow>
                 if c \<noteq> CHR '':'' then None
                 else if r1 = [] then None
                 else if hd r1 = CHR '':'' then
                   if el \<noteq> None then None
                   else if tl r1 = [] then Some (bs1, Some (length bs1), [])
                   else v6_loop bs1 (Some (length bs1)) (tl r1)
                 else v6_loop bs1 el r1)))"
  by pat_completeness auto
termination by (relation "measure (\<lambda>(bs, el, s). 16 - length bs)") auto

declare v6_loop.simps [simp del]

definition v6_expand :: "nat list \<Rightarrow> nat option \<Rightarrow> nat list option" where
  "v6_expand bs el =
     (if length bs < 16 then
        (case el of None \<Rightarrow> None | Some k \<Rightarrow> Some (take k bs @ replicate (16 - length bs) 0 @ drop k bs))
      else if el \<noteq> None then None
      else Some bs)"

definition parseIPv6 :: "string \<Rightarrow> addr option" where
  "parseIPv6 inp =
     (let (s, zone, bad) =
        (case index_byte inp (CHR ''%'') of
           None \<Rightarrow> (inp, [], False)
         | Some i \<Rightarrow> (take i inp, drop (Suc i) inp, drop (Suc i) inp = []))
      in if bad then None
         else
           let (el, s1) = (if has_prefix s ''::'' then (Some 0, drop 2 s) else (None, s)) in
           if el = Some 0 \<and> s1 = [] then Some (A6 (replicate 16 0) zone)
           else (case v6_loop [] el s1 of
               None \<Rightarrow> None
             | Some (bs, el', rest) \<Rightarrow>
                 if rest \<noteq> [] then None else map_option (\<lambda>b. A6 b zone) (v6_expand bs el')))"

fun parse_kind :: "string \<Rightarrow> char option" where
  "parse_kind [] = None"
| "parse_kind (c # r) =
     (if c = CHR ''.'' \<or> c = CHR '':'' \<or> c = CHR ''%'' then Some c else parse_kind r)"

definition ParseAddr :: "string \<Rightarrow> addr option" where
  "ParseAddr s =
     (case parse_kind s of
        Some c \<Rightarrow>
          if c = CHR ''.'' then map_option A4 (ipv4_fields s)
          else if c = CHR '':'' then parseIPv6 s
          else None
      | None \<Rightarrow> None)"

section \<open>The text of an IPv4 address\<close>

definition quad :: "nat \<Rightarrow> nat \<Rightarrow> nat \<Rightarrow> nat \<Rightarrow> string" where
  "quad a b c d = decimal a @ ''.'' @ decimal b @ ''.'' @ decimal c @ ''.'' @ decimal d"

lemma ipv4_loop_decimal:
  "n \<le> 255 \<Longrightarrow> ipv4_loop sep 0 0 fs (decimal n @ r) = ipv4_loop False n (length (decimal n)) fs r"
proof (induction n arbitrary: r rule: decimal.induct)
  case (1 n)
  show ?case
  proof (cases "n < 10")
    case True
    then show ?thesis by (simp add: decimal.simps[of n])
  next
    case False
    let ?q = "n div 10" and ?d = "digit_char (n mod 10)"
    have d: "decimal n = decimal ?q @ [?d]" using False by (subst decimal.simps) simp
    have "ipv4_loop sep 0 0 fs (decimal n @ r) = ipv4_loop False ?q (length (decimal ?q)) fs (?d # r)"
      using "1.IH"[OF False, of "?d # r"] "1.prems" by (simp add: d)
    also have "\<dots> = ipv4_loop False n (length (decimal n)) fs r"
      using False "1.prems" by (auto simp: d)
    finally show ?thesis .
  qed
qed

lemma not_digit_dot [simp]: "\<not> is_digit (CHR ''.'')"
  by (simp add: is_digit_iff)

lemma ipv4_fields_quad:
  assumes "a \<le> 255" and "b \<le> 255" and "c \<le> 255" and "d \<le> 255"
  shows "ipv4_fields (quad a b c d) = Some [a, b, c, d]"
  using assms by (simp add: ipv4_fields_def quad_def ipv4_loop_decimal ipv4_loop_decimal[where r = "[]", simplified])

lemma parse_kind_digits: "\<forall>c\<in>set ds. is_digit c \<Longrightarrow> parse_kind (ds @ r) = parse_kind r"
  by (induction ds) (auto simp: is_digit_iff)

lemma ParseAddr_quad:
  assumes "a \<le> 255" and "b \<le> 255" and "c \<le> 255" and "d \<le> 255"
  shows "ParseAddr (quad a b c d) = Some (A4 [a, b, c, d])"
proof -
  have "parse_kind (quad a b c d) = Some (CHR ''.'')"
    using decimal_digits by (simp add: quad_def parse_kind_digits)
  then show ?thesis using ipv4_fields_quad[OF assms] by (simp add: ParseAddr_def)
qed

lemma hex_scan_digits:
  "\<forall>c\<in>set ds. is_digit c \<Longrightarrow> off + length ds \<le> 4 \<Longrightarrow> acc < 16 ^ off \<Longrightarrow>
     \<exists>acc'. hex_scan off acc (ds @ CHR ''.'' # r) = Some (off + length ds, acc', CHR ''.'' # r)"
proof (induction ds arbitrary: off acc)
  case Nil
  then show ?case by (simp add: hex_value_def)
next
  case (Cons c ds)
  have c: "digit_val c < 10" "is_digit c" using Cons.prems(1) by auto
  have "acc * 16 + digit_val c < (acc + 1) * 16" using c(1) by (simp only: distrib_right)
  also have "\<dots> \<le> 16 ^ Suc off" using Cons.prems(3) by simp
  finally have lt: "acc * 16 + digit_val c < 16 ^ Suc off" .
  also have "(16 :: nat) ^ Suc off \<le> 16 ^ 4" using Cons.prems(2) by (intro power_increasing) auto
  finally have "acc * 16 + digit_val c \<le> 65535" by simp
  then show ?case using lt Cons.IH[of "Suc off" "acc * 16 + digit_val c"] Cons.prems c
    by (simp add: hex_value_def)
qed

lemma v6_loop_quad:
  assumes "a \<le> 255" and "b \<le> 255" and "c \<le> 255" and "d \<le> 255" and "length bs \<le> 12"
  shows "v6_loop bs (Some k) (quad a b c d) = Some (bs @ [a, b, c, d], Some k, [])"
proof -
  have len: "0 < length (decimal a)" "length (decimal a) \<le> 3"
    using assms(1) length_decimal_le[of a 3] by simp_all
  have "\<exists>acc. hex_scan 0 0 (quad a b c d) = Some (length (decimal a), acc, ''.'' @ decimal b @ ''.'' @ decimal c @ ''.'' @ decimal d)"
    using hex_scan_digits[of "decimal a" 0 0 "decimal b @ ''.'' @ decimal c @ ''.'' @ decimal d"] len decimal_digits
    by (simp add: quad_def)
  then obtain acc where "hex_scan 0 0 (quad a b c d) = Some (length (decimal a), acc, ''.'' @ decimal b @ ''.'' @ decimal c @ ''.'' @ decimal d)" ..
  then show ?thesis using assms(5) len ipv4_fields_quad[OF assms(1-4)] by (subst v6_loop.simps) simp
qed

text \<open>The mapped form \<open>::ffff:a.b.c.d\<close>, with or without a zone.\<close>

definition mapped :: "string \<Rightarrow> string" where
  "mapped q = ''::ffff:'' @ q"

definition zone_suffix :: "string \<Rightarrow> string" where
  "zone_suffix z = (if z = [] then [] else CHR ''%'' # z)"

lemma quad_digit_dot: "ch \<in> set (quad a b c d) \<Longrightarrow> is_digit ch \<or> ch = CHR ''.''"
  using decimal_digits by (auto simp: quad_def)

lemma quad_hd: "quad a b c d \<noteq> [] \<and> is_digit (hd (quad a b c d))"
  using decimal_digits[of "hd (decimal a)" a] by (simp add: quad_def)

lemma ParseAddr_mapped:
  assumes "a \<le> 255" and "b \<le> 255" and "c \<le> 255" and "d \<le> 255"
  shows "ParseAddr (mapped (quad a b c d) @ zone_suffix z) = Some (A6 (replicate 10 0 @ [255, 255, a, b, c, d]) z)"
proof -
  let ?q = "quad a b c d"
  have np: "CHR ''%'' \<notin> set (mapped ?q)"
    using quad_digit_dot[of "CHR ''%''" a b c d] by (auto simp: mapped_def is_digit_iff)
  have sc: "hex_scan 0 0 (''ffff:'' @ ?q) = Some (4, 65535, CHR '':'' # ?q)"
    by (simp add: hex_value_def is_digit_iff)
  have hq: "hd ?q \<noteq> CHR '':''" using quad_hd[of a b c d] by (auto simp: is_digit_iff)
  have "v6_loop [] (Some 0) (''ffff:'' @ ?q) = v6_loop [255, 255] (Some 0) ?q"
    using sc quad_hd[of a b c d] hq by (subst v6_loop.simps) (simp add: Let_def)
  also have "\<dots> = Some ([255, 255, a, b, c, d], Some 0, [])" using v6_loop_quad[OF assms, of "[255, 255]" 0] by simp
  finally have l: "v6_loop [] (Some 0) (''ffff:'' @ ?q) = Some ([255, 255, a, b, c, d], Some 0, [])" .
  have z: "index_byte (mapped ?q @ zone_suffix z) (CHR ''%'') = (if z = [] then None else Some (length (mapped ?q)))"
    using np by (simp add: zone_suffix_def index_byte_first)
  have "parseIPv6 (mapped ?q @ zone_suffix z) = Some (A6 (replicate 10 0 @ [255, 255, a, b, c, d]) z)"
    unfolding parseIPv6_def z using l
    by (simp add: zone_suffix_def mapped_def v6_expand_def has_prefix_def eval_nat_numeral)
  then show ?thesis by (simp add: ParseAddr_def mapped_def)
qed

end
