(* ===== verification/Classify.thy ===== *)
theory Classify
  imports Netip "HOL-Library.Word"
begin

unbundle bit_operations_syntax

text \<open>
  Package \<open>classify\<close>: the source class of a connection, from the text of its remote address and of
  the configured peer, and the extraction of the host from a socket address.
\<close>

section \<open>The classifier\<close>

datatype SourceClass = Foreign | Loopback | Peer | TailnetOther

definition class_String :: "SourceClass \<Rightarrow> string" where
  "class_String c =
     (case c of Loopback \<Rightarrow> ''loopback'' | Peer \<Rightarrow> ''peer'' | TailnetOther \<Rightarrow> ''tailnetOther'' | Foreign \<Rightarrow> ''foreign'')"

definition parseIP :: "string \<Rightarrow> addr option" where
  "parseIP raw =
     (let s = trim_space raw;
          s' = (if 2 \<le> length s \<and> has_prefix s ''['' \<and> has_suffix s '']'' then take (length s - 2) (drop 1 s) else s)
      in case ParseAddr s' of
           None \<Rightarrow> None
         | Some a \<Rightarrow> let b = with_zone a [] in Some (if is_4in6 b then unmap b else b))"

definition isTailnet :: "addr \<Rightarrow> bool" where
  "isTailnet ip =
     (case ip of
        A4 b \<Rightarrow> b ! 0 = 100 \<and> b ! 1 AND 0xC0 = 0x40
      | A6 b _ \<Rightarrow> b ! 0 = 0xfd \<and> b ! 1 = 0x7a \<and> b ! 2 = 0x11 \<and> b ! 3 = 0x5c \<and> b ! 4 = 0xa1 \<and> b ! 5 = 0xe0)"

definition Classify :: "string \<Rightarrow> string \<Rightarrow> SourceClass" where
  "Classify remote peer =
     (case parseIP remote of
        None \<Rightarrow> Foreign
      | Some ip \<Rightarrow>
          if parseIP peer = Some ip then Peer
          else if is_loopback ip then Loopback
          else if isTailnet ip then TailnetOther
          else Foreign)"

definition RemoteEndpoint :: "string \<Rightarrow> string" where
  "RemoteEndpoint remoteAddr =
     (let s = trim_space remoteAddr in
      if s = [] then []
      else if has_prefix s ''['' then
        (case last_index s (CHR '']'') of Some i \<Rightarrow> take (i - 1) (drop 1 s) | None \<Rightarrow> s)
      else if count_byte s (CHR '':'') = 1 then
        (case last_index s (CHR '':'') of Some i \<Rightarrow> take i s | None \<Rightarrow> s)
      else s)"

section \<open>IPv4 connections\<close>

text \<open>The forms a socket address of an IPv4 host takes: plain on an IPv4 socket, mapped (possibly with a
  zone) on a dual-stack one.\<close>

definition plain_remote :: "string \<Rightarrow> nat \<Rightarrow> string" where
  "plain_remote q port = q @ CHR '':'' # decimal port"

definition mapped_remote :: "string \<Rightarrow> string \<Rightarrow> nat \<Rightarrow> string" where
  "mapped_remote q z port = CHR ''['' # (mapped q @ zone_suffix z) @ CHR '']'' # CHR '':'' # decimal port"

definition octets :: "nat list \<Rightarrow> bool" where
  "octets x \<longleftrightarrow> length x = 4 \<and> (\<forall>b\<in>set x. b \<le> 255)"

definition quad_of :: "nat list \<Rightarrow> string" where
  "quad_of x = quad (x ! 0) (x ! 1) (x ! 2) (x ! 3)"

definition zone_ok :: "string \<Rightarrow> bool" where
  "zone_ok z \<longleftrightarrow> (\<forall>c\<in>set z. graphic c)"

lemma octetsE:
  assumes "octets x"
  obtains a b c d where "x = [a, b, c, d]" "a \<le> 255" "b \<le> 255" "c \<le> 255" "d \<le> 255" "quad_of x = quad a b c d"
proof -
  have "length x = Suc (Suc (Suc (Suc 0)))" using assms by (simp add: octets_def)
  then obtain a b c d where "x = [a, b, c, d]" by (auto simp: length_Suc_conv)
  then show thesis using assms that by (auto simp: octets_def quad_of_def)
qed

lemma graphic_digit: "is_digit c \<Longrightarrow> graphic c"
  by (simp add: is_digit_iff graphic_def)

lemma quad_of_chars: "ch \<in> set (quad_of x) \<Longrightarrow> is_digit ch \<or> ch = CHR ''.''"
  using quad_digit_dot by (simp add: quad_of_def)

lemma quad_of_graphic: "ch \<in> set (quad_of x) \<Longrightarrow> graphic ch"
  using quad_of_chars[of ch x] graphic_digit[of ch] by (auto simp: graphic_def)

lemma quad_of_not_Nil [simp]: "quad_of x \<noteq> []"
  using quad_hd by (simp add: quad_of_def)

lemma graphic_trim: "\<forall>c\<in>set s. graphic c \<Longrightarrow> trim_space s = s"
  by (rule trim_space_id) (cases s, auto)

lemma parseIP_quad: "octets x \<Longrightarrow> parseIP (quad_of x) = Some (A4 x)"
proof -
  assume x: "octets x"
  have "trim_space (quad_of x) = quad_of x" using quad_of_graphic by (intro graphic_trim) blast
  moreover have "\<not> has_prefix (quad_of x) ''[''"
    using quad_hd[of "x ! 0" "x ! 1" "x ! 2" "x ! 3"] by (cases "quad_of x") (auto simp: quad_of_def has_prefix_def is_digit_iff)
  moreover have "ParseAddr (quad_of x) = Some (A4 x)" using x ParseAddr_quad by (elim octetsE) simp
  ultimately show ?thesis by (simp add: parseIP_def with_zone_def is_4in6_def Let_def)
qed

lemma parseIP_mapped:
  assumes x: "octets x" and z: "zone_ok z"
  shows "parseIP (mapped (quad_of x) @ zone_suffix z) = Some (A4 x)"
proof -
  let ?s = "mapped (quad_of x) @ zone_suffix z"
  have "graphic ch" if "ch \<in> set ?s" for ch
    using that z quad_of_graphic[of ch x] by (auto simp: mapped_def zone_suffix_def zone_ok_def graphic_def split: if_splits)
  then have "trim_space ?s = ?s" by (intro graphic_trim) blast
  moreover have "\<not> has_prefix ?s ''[''" by (simp add: mapped_def has_prefix_def)
  moreover obtain a b c d where "x = [a, b, c, d]" "ParseAddr ?s = Some (A6 (replicate 10 0 @ [255, 255, a, b, c, d]) z)"
    using x ParseAddr_mapped by (elim octetsE) metis
  ultimately show ?thesis
    by (simp add: parseIP_def with_zone_def is_4in6_def unmap_def Let_def)
qed

lemma RemoteEndpoint_plain: "RemoteEndpoint (plain_remote (quad_of x) port) = quad_of x"
proof -
  let ?s = "plain_remote (quad_of x) port"
  have "graphic ch" if "ch \<in> set ?s" for ch
    using that quad_of_graphic[of ch x] decimal_digits[of ch port]
    by (auto simp: plain_remote_def graphic_def is_digit_iff)
  then have t: "trim_space ?s = ?s" by (intro graphic_trim) blast
  have nc: "CHR '':'' \<notin> set (quad_of x)" "CHR '':'' \<notin> set (decimal port)"
    using quad_of_chars[of "CHR '':''" x] decimal_digits[of "CHR '':''" port] by (auto simp: is_digit_iff)
  have nb: "\<not> has_prefix ?s ''[''"
    using quad_hd[of "x ! 0" "x ! 1" "x ! 2" "x ! 3"]
    by (cases "quad_of x") (auto simp: quad_of_def plain_remote_def has_prefix_def is_digit_iff)
  have "count_byte ?s (CHR '':'') = 1" "last_index ?s (CHR '':'') = Some (length (quad_of x))"
    using count_list_split[OF nc] last_index_append[OF nc(2)] by (simp_all add: plain_remote_def)
  moreover have "?s \<noteq> []" by (simp add: plain_remote_def)
  ultimately have "RemoteEndpoint ?s = take (length (quad_of x)) ?s" using nb by (simp add: RemoteEndpoint_def t)
  then show ?thesis by (simp add: plain_remote_def)
qed

lemma RemoteEndpoint_mapped: "RemoteEndpoint (mapped_remote (quad_of x) z port) = mapped (quad_of x) @ zone_suffix z"
proof -
  let ?s = "mapped_remote (quad_of x) z port" and ?m = "mapped (quad_of x) @ zone_suffix z"
  have "last ?s \<in> set (decimal port)" by (simp add: mapped_remote_def)
  then have "graphic (last ?s)" using decimal_digits graphic_digit by blast
  then have t: "trim_space ?s = ?s" by (intro trim_space_id) (simp add: mapped_remote_def graphic_def)
  have "CHR '']'' \<notin> set (CHR '':'' # decimal port)" using decimal_digits[of "CHR '']''" port] by (auto simp: is_digit_iff)
  from last_index_append[OF this, of "CHR ''['' # ?m"] have "last_index ?s (CHR '']'') = Some (Suc (length ?m))"
    by (simp add: mapped_remote_def)
  then show ?thesis by (simp add: RemoteEndpoint_def t) (simp add: mapped_remote_def has_prefix_def)
qed

text \<open>The class of an IPv4 source against an IPv4 peer.\<close>

definition v4_class :: "nat list \<Rightarrow> nat list \<Rightarrow> SourceClass" where
  "v4_class x p =
     (if x = p then Peer
      else if x ! 0 = 127 then Loopback
      else if x ! 0 = 100 \<and> 64 \<le> x ! 1 \<and> x ! 1 \<le> 127 then TailnetOther
      else Foreign)"

lemma tailnet_bits: "n < 256 \<Longrightarrow> (n AND 0xC0 = 0x40) \<longleftrightarrow> 64 \<le> n \<and> n \<le> (127 :: nat)"
proof -
  assume n: "n < 256"
  have "n AND push_bit 6 (mask 2) = push_bit 6 (take_bit 2 (drop_bit 6 n))"
    by (rule bit_eqI) (auto simp: bit_simps)
  moreover have "push_bit 6 (mask 2) = (0xC0 :: nat)" by (simp add: push_bit_eq_mult mask_eq_exp_minus_1)
  ultimately have "n AND 0xC0 = n div 64 mod 4 * 64"
    by (simp add: take_bit_eq_mod drop_bit_eq_div push_bit_eq_mult)
  moreover have "n div 64 mod 4 = n div 64" using n by simp
  ultimately have "(n AND 0xC0 = 0x40) \<longleftrightarrow> n div 64 = 1" by simp
  moreover have "n div 64 = 1 \<longleftrightarrow> 64 \<le> n \<and> n \<le> 127"
    using div_mult_mod_eq[of n 64] mod_less_divisor[of 64 n] by (intro iffI) linarith+
  ultimately show ?thesis by simp
qed

lemma Classify_v4:
  assumes "octets x" and "parseIP r = Some (A4 x)" and "parseIP q = Some (A4 p)"
  shows "Classify r q = v4_class x p"
proof -
  have "x ! 1 < 256" using assms(1) by (elim octetsE) simp
  then show ?thesis using assms
    by (auto simp: Classify_def v4_class_def is_loopback_def unmap_def isTailnet_def tailnet_bits)
qed

lemma Classify_remote:
  assumes "octets x" and "octets p" and "zone_ok z" and "zone_ok zp"
    and "remote \<in> {plain_remote (quad_of x) port, mapped_remote (quad_of x) z port}"
    and "peer \<in> {quad_of p, mapped (quad_of p) @ zone_suffix zp}"
  shows "Classify (RemoteEndpoint remote) peer = v4_class x p"
proof -
  have "parseIP (RemoteEndpoint remote) = Some (A4 x)"
    using assms(5) parseIP_quad[OF assms(1)] parseIP_mapped[OF assms(1,3)]
    by (auto simp: RemoteEndpoint_plain RemoteEndpoint_mapped)
  moreover have "parseIP peer = Some (A4 p)"
    using assms(6) parseIP_quad[OF assms(2)] parseIP_mapped[OF assms(2,4)] by auto
  ultimately show ?thesis by (rule Classify_v4[OF assms(1)])
qed

section \<open>Properties\<close>

text \<open>The class of a source is numeric and independent of how its address is written. A TCP source
  of IPv4 address x gets the class of the bytes of x, exact peer first, then 127/8, then
  100.64/10, whether the socket reports it plain or mapped into IPv6, with any port and any zone,
  and whether the peer is configured plain or mapped; and no source is ever the peer when the
  configured peer is not an address.\<close>

lemma Classify_numeric:
  assumes "octets x" and "octets p" and "zone_ok z" and "zone_ok zp"
    and "remote \<in> {plain_remote (quad_of x) port, mapped_remote (quad_of x) z port}"
    and "peer \<in> {quad_of p, mapped (quad_of p) @ zone_suffix zp}"
  shows "Classify (RemoteEndpoint remote) peer = v4_class x p \<and>
         (parseIP other = None \<longrightarrow> Classify (RemoteEndpoint remote) other \<noteq> Peer)"
  using Classify_remote[OF assms] by (simp add: Classify_def[of _ other] split: option.splits)

lemma Classify_numeric_witness:
  "Classify (RemoteEndpoint ''[::ffff:100.101.102.103%eth0]:80'') ''100.101.102.103'' = Peer"
proof -
  have q: "quad_of [100, 101, 102, 103] = ''100.101.102.103''"
    by code_simp
  have "mapped_remote (quad_of [100, 101, 102, 103]) ''eth0'' 80 = ''[::ffff:100.101.102.103%eth0]:80''"
    by code_simp
  then show ?thesis
    using Classify_numeric[of "[100, 101, 102, 103]" "[100, 101, 102, 103]" "''eth0''" "[]"
        "mapped_remote (quad_of [100, 101, 102, 103]) ''eth0'' 80" 80 "quad_of [100, 101, 102, 103]" "[]"] q
    by (simp add: octets_def zone_ok_def graphic_def v4_class_def)
qed

end
