(* ===== verification/Base64.thy ===== *)
theory Base64
  imports GoStd
begin

text \<open>
  \<open>encoding/base64\<close> as the repository uses it: \<open>StdEncoding.EncodeToString\<close> on the send side
  and the streaming \<open>NewDecoder\<close> on the receive side. The decoder is the library's loop: it
  refills a 1024-byte buffer from the underlying reader (dropping CR and LF), decodes the whole
  quanta it holds, and reports an error in the middle of a quantum at the end of input
  differently from a corrupt character.
\<close>

definition b64_alphabet :: string where
  "b64_alphabet = ''ABCDEFGHIJKLMNOPQRSTUVWXYZabcdefghijklmnopqrstuvwxyz0123456789+/''"

abbreviation pad_char :: char where
  "pad_char \<equiv> CHR ''=''"

definition b64_char :: "nat \<Rightarrow> char" where
  "b64_char n = b64_alphabet ! n"

definition b64_val :: "char \<Rightarrow> nat option" where
  "b64_val c = index_byte b64_alphabet c"

section \<open>Encoding\<close>

fun b64_encode :: "string \<Rightarrow> string" where
  "b64_encode [] = []"
| "b64_encode [a] = [b64_char (code a div 4), b64_char (code a mod 4 * 16), pad_char, pad_char]"
| "b64_encode [a, b] =
     (let v = code a * 256 + code b
      in [b64_char (v div 1024), b64_char (v div 16 mod 64), b64_char (v mod 16 * 4), pad_char])"
| "b64_encode (a # b # c # r) =
     (let v = code a * 65536 + code b * 256 + code c
      in [b64_char (v div 262144), b64_char (v div 4096 mod 64), b64_char (v div 64 mod 64),
          b64_char (v mod 64)] @ b64_encode r)"

section \<open>Streaming decoder\<close>

text \<open>One quantum: the decoded bytes and whether it was padded; \<open>None\<close> is a corrupt input.\<close>

definition b64_quantum :: "char \<Rightarrow> char \<Rightarrow> char \<Rightarrow> char \<Rightarrow> (string \<times> bool) option" where
  "b64_quantum a b c d =
     (case b64_val a of
        None \<Rightarrow> None
      | Some x \<Rightarrow> (case b64_val b of
          None \<Rightarrow> None
        | Some y \<Rightarrow>
            if c = pad_char then
              (if d = pad_char then Some ([byte ((x * 64 + y) div 16)], True) else None)
            else (case b64_val c of
              None \<Rightarrow> None
            | Some z \<Rightarrow>
                let v = (x * 64 + y) * 64 + z in
                if d = pad_char then Some ([byte (v div 1024), byte (v div 4 mod 256)], True)
                else (case b64_val d of
                  None \<Rightarrow> None
                | Some w \<Rightarrow>
                    let u = v * 64 + w in
                    Some ([byte (u div 65536), byte (u div 256 mod 256), byte (u mod 256)], False)))))"

text \<open>\<open>Decode\<close> on a buffer of whole quanta: the bytes decoded before the first error, and
  whether there was none. A padded quantum must be the last one of the buffer.\<close>

fun b64_chunk :: "string \<Rightarrow> string \<times> bool" where
  "b64_chunk [] = ([], True)"
| "b64_chunk (a # b # c # d # r) =
     (case b64_quantum a b c d of
        None \<Rightarrow> ([], False)
      | Some (out, padded) \<Rightarrow>
          if padded then (out, r = [])
          else let (o', ok) = b64_chunk r in (out @ o', ok))"
| "b64_chunk _ = ([], False)"

definition not_newline :: "char \<Rightarrow> bool" where
  "not_newline c \<longleftrightarrow> c \<noteq> CHR 0x0A \<and> c \<noteq> CHR 0x0D"

text \<open>\<open>newlineFilteringReader\<close> under the decoder's refill loop.\<close>

function b64_refill :: "string \<Rightarrow> string \<Rightarrow> string \<times> string" where
  "b64_refill buf src =
     (if length buf < 4 \<and> src \<noteq> []
      then b64_refill (buf @ filter not_newline (take (1024 - length buf) src)) (drop (1024 - length buf) src)
      else (buf, src))"
  by pat_completeness auto
termination
  by (relation "measure (\<lambda>(buf, src). length src)")
    (auto simp: length_greater_0_conv[symmetric] simp del: length_greater_0_conv)

declare b64_refill.simps [simp del]

datatype b64_end = B64Done | B64Corrupt | B64Partial

lemma b64_refill_length:
  "b64_refill buf src = (buf', src') \<Longrightarrow> length buf' + length src' \<le> length buf + length src"
proof (induction buf src rule: b64_refill.induct)
  case (1 buf src)
  have f: "length (filter not_newline (take n t)) \<le> min (length t) n" for n t
    using length_filter_le[of not_newline "take n t"] by simp
  show ?case
  proof (cases "length buf < 4 \<and> src \<noteq> []")
    case True
    with 1 have "length buf' + length src' \<le>
        length (buf @ filter not_newline (take (1024 - length buf) src)) + length (drop (1024 - length buf) src)"
      by (subst (asm) (2) b64_refill.simps) simp
    also have "\<dots> \<le> length buf + length src" using f[of "1024 - length buf" src] by auto
    finally show ?thesis .
  next
    case False
    with "1.prems" show ?thesis by (subst (asm) b64_refill.simps) (auto split: if_splits)
  qed
qed

text \<open>The whole stream: what is written before the end, and how decoding ended.
  \<open>B64Partial\<close> is a partial quantum at the end of the text.\<close>

function b64_stream :: "string \<Rightarrow> string \<Rightarrow> string \<times> b64_end" where
  "b64_stream buf src =
     (let (buf', src') = b64_refill buf src in
      if length buf' < 4 then ([], if buf' = [] then B64Done else B64Partial)
      else let nr = length buf' div 4 * 4;
               (out, ok) = b64_chunk (take nr buf')
           in if ok then (let (rest, e) = b64_stream (drop nr buf') src' in (out @ rest, e))
              else (out, B64Corrupt))"
  by pat_completeness auto
termination
proof (relation "measure (\<lambda>(buf, src). length buf + length src)", goal_cases)
  case (2 buf src p buf' src' nr q out ok)
  then have "length buf' + length src' \<le> length buf + length src"
    using b64_refill_length[of buf src buf' src'] by simp
  moreover have "4 \<le> nr" using 2 by auto
  ultimately show ?case using 2 by auto
qed simp

declare b64_stream.simps [simp del]

section \<open>Round trip\<close>

lemma length_b64_alphabet: "length b64_alphabet = 64"
  by (simp add: b64_alphabet_def)

lemma b64_val_char: "n < 64 \<Longrightarrow> b64_val (b64_char n) = Some n"
proof -
  have "list_all (\<lambda>i. b64_val (b64_char i) = Some i) [0..<64]" by code_simp
  then show "n < 64 \<Longrightarrow> b64_val (b64_char n) = Some n" by (simp add: list_all_iff)
qed

lemma b64_alphabet_graphic: "list_all (\<lambda>c. c \<noteq> pad_char \<and> not_newline c) b64_alphabet"
  by code_simp

lemma b64_char_in: "n < 64 \<Longrightarrow> b64_char n \<in> set b64_alphabet"
  by (simp add: b64_char_def length_b64_alphabet)

lemma b64_char_no_pad: "n < 64 \<Longrightarrow> b64_char n \<noteq> pad_char \<and> not_newline (b64_char n)"
  using b64_alphabet_graphic b64_char_in[of n] by (auto simp: list_all_iff)

lemma b64_quantum_vals3:
  assumes "b64_val a = Some x" "b64_val b = Some y" "b64_val c = Some z" "b64_val d = Some w"
    and "c \<noteq> pad_char" "d \<noteq> pad_char" and "u = ((x * 64 + y) * 64 + z) * 64 + w"
  shows "b64_quantum a b c d = Some ([byte (u div 65536), byte (u div 256 mod 256), byte (u mod 256)], False)"
  using assms(1-6) unfolding assms(7) by (simp add: b64_quantum_def Let_def)

lemma b64_quantum_vals2:
  assumes "b64_val a = Some x" "b64_val b = Some y" "b64_val c = Some z"
    and "c \<noteq> pad_char" and "u = (x * 64 + y) * 64 + z"
  shows "b64_quantum a b c pad_char = Some ([byte (u div 1024), byte (u div 4 mod 256)], True)"
  using assms(1-4) unfolding assms(5) by (simp add: b64_quantum_def Let_def)

lemma digit64: "v div (m * 64) * 64 + v div m mod 64 = (v::nat) div m"
  by (simp add: div_mult2_eq)

lemma b64_quantum_full:
  assumes "v < 16777216"
  shows "b64_quantum (b64_char (v div 262144)) (b64_char (v div 4096 mod 64)) (b64_char (v div 64 mod 64))
           (b64_char (v mod 64)) = Some ([byte (v div 65536), byte (v div 256 mod 256), byte (v mod 256)], False)"
proof (rule b64_quantum_vals3)
  show "b64_val (b64_char (v div 262144)) = Some (v div 262144)"
    by (rule b64_val_char) (use assms in \<open>simp add: less_mult_imp_div_less\<close>)
  have "v div 262144 * 64 + v div 4096 mod 64 = v div 4096" using digit64[of v 4096] by simp
  moreover have "v div 4096 * 64 + v div 64 mod 64 = v div 64" using digit64[of v 64] by simp
  moreover have "v div 64 * 64 + v mod 64 = v" by simp
  ultimately show "v = ((v div 262144 * 64 + v div 4096 mod 64) * 64 + v div 64 mod 64) * 64 + v mod 64"
    by (simp only:)
qed (simp_all add: b64_val_char b64_char_no_pad)

lemma b64_quantum_two:
  assumes "v < 65536"
  shows "b64_quantum (b64_char (v div 1024)) (b64_char (v div 16 mod 64)) (b64_char (v mod 16 * 4)) pad_char
           = Some ([byte (v div 256), byte (v mod 256)], True)"
proof -
  have "b64_quantum (b64_char (v div 1024)) (b64_char (v div 16 mod 64)) (b64_char (v mod 16 * 4)) pad_char
      = Some ([byte (v * 4 div 1024), byte (v * 4 div 4 mod 256)], True)"
  proof (rule b64_quantum_vals2)
    show "b64_val (b64_char (v div 1024)) = Some (v div 1024)"
      by (rule b64_val_char) (use assms in \<open>simp add: less_mult_imp_div_less\<close>)
    have "v div 1024 * 64 + v div 16 mod 64 = v div 16" using digit64[of v 16] by simp
    moreover have "v div 16 * 16 + v mod 16 = v" by simp
    then have "v div 16 * 64 + v mod 16 * 4 = v * 4" by linarith
    ultimately show "v * 4 = (v div 1024 * 64 + v div 16 mod 64) * 64 + v mod 16 * 4" by simp
  qed (simp_all add: b64_val_char b64_char_no_pad)
  moreover have "v * 4 div 1024 = v div 256" using div_mult_mult2[of 4 v 256] by simp
  ultimately show ?thesis by simp
qed

lemma b64_quantum_one:
  assumes "v < 256"
  shows "b64_quantum (b64_char (v div 4)) (b64_char (v mod 4 * 16)) pad_char pad_char = Some ([byte v], True)"
proof -
  have l: "v div 4 < 64" using assms by (simp add: less_mult_imp_div_less)
  have d: "(v div 4 * 64 + v mod 4 * 16) div 16 = v" by presburger
  show ?thesis by (simp add: b64_quantum_def b64_val_char l Let_def d)
qed

lemma code_lt: "code c \<le> 255"
proof -
  have "code c < 256" by (rule code_less)
  then show ?thesis by linarith
qed

lemma b64_chunk_encode: "b64_chunk (b64_encode bs) = (bs, True)"
proof (induction bs rule: b64_encode.induct)
  case (2 a)
  show ?case using b64_quantum_one[of "code a"] by simp
next
  case (3 a b)
  let ?v = "code a * 256 + code b"
  have "?v < 65536" using code_lt[of a] code_lt[of b] by linarith
  moreover have "?v div 256 = code a" "?v mod 256 = code b" by simp_all
  ultimately show ?case using b64_quantum_two[of ?v] by (simp add: Let_def)
next
  case (4 a b c r)
  let ?v = "code a * 65536 + code b * 256 + code c"
  have "?v < 16777216" using code_lt[of a] code_lt[of b] code_lt[of c] by linarith
  moreover have "?v div 65536 = code a" using code_lt[of b] code_lt[of c] by linarith
  moreover have "?v = (code a * 256 + code b) * 256 + code c" by simp
  then have "?v mod 256 = code c mod 256" by (metis mod_mult_self3)
  moreover have "?v div 256 = code a * 256 + code b" using code_lt[of c] by linarith
  ultimately show ?case using b64_quantum_full[of ?v] 4 by (simp add: Let_def)
qed simp

lemma b64_encode_append3:
  "length xs mod 3 = 0 \<Longrightarrow> b64_encode (xs @ ys) = b64_encode xs @ b64_encode ys"
proof (induction xs rule: b64_encode.induct)
  case (4 a b c r)
  have "length (a # b # c # r) mod 3 = length r mod 3" by simp
  with 4 have "b64_encode (r @ ys) = b64_encode r @ b64_encode ys" by simp
  then show ?case by (simp add: Let_def)
qed auto

lemma length_b64_encode: "length (b64_encode bs) = (length bs + 2) div 3 * 4"
proof (induction bs rule: b64_encode.induct)
  case (4 a b c r)
  have "(length (a # b # c # r) + 2) div 3 = Suc ((length r + 2) div 3)" by simp
  with 4 show ?case by (simp add: Let_def)
qed (simp_all add: Let_def)

lemma b64_encode_three:
  obtains v where "v < 16777216" and "v div 262144 < 64"
    and "b64_encode (a # b # c # r) =
      [b64_char (v div 262144), b64_char (v div 4096 mod 64), b64_char (v div 64 mod 64), b64_char (v mod 64)]
      @ b64_encode r"
proof -
  obtain v where v: "v = code a * 65536 + code b * 256 + code c" by simp
  then have "v < 64 * 262144" using code_lt[of a] code_lt[of b] code_lt[of c] by linarith
  then show ?thesis
    by (intro that[of v]) (simp_all add: less_mult_imp_div_less, simp only: b64_encode.simps Let_def v)
qed

lemma b64_encode_chars:
  "c \<in> set (b64_encode bs) \<Longrightarrow> c \<in> set b64_alphabet \<or> c = pad_char"
proof (induction bs rule: b64_encode.induct)
  case (2 a)
  have "code a div 4 < 64" using code_lt[of a] by linarith
  with 2 show ?case by (auto intro!: b64_char_in)
next
  case (3 a b)
  have "(code a * 256 + code b) div 1024 < 64" using code_lt[of a] code_lt[of b] by linarith
  with 3 show ?case by (auto simp: Let_def intro!: b64_char_in)
next
  case (4 a b c r)
  from b64_encode_three[of a b c r] obtain v where l: "v div 262144 < 64"
    and e: "b64_encode (a # b # c # r) =
      [b64_char (v div 262144), b64_char (v div 4096 mod 64), b64_char (v div 64 mod 64), b64_char (v mod 64)]
      @ b64_encode r" by blast
  from "4.prems" "4.IH"[OF refl] l show ?case unfolding e by (auto intro!: b64_char_in)
qed simp

lemma b64_encode_not_newline: "c \<in> set (b64_encode bs) \<Longrightarrow> not_newline c"
  using b64_encode_chars[of c bs] b64_alphabet_graphic by (auto simp: list_all_iff not_newline_def)

lemma b64_refill_encode:
  assumes "bs \<noteq> []"
  shows "b64_refill [] (b64_encode bs) = (b64_encode (take 768 bs), b64_encode (drop 768 bs))"
proof -
  have split: "b64_encode bs = b64_encode (take 768 bs) @ b64_encode (drop 768 bs)"
  proof (cases "length bs \<le> 768")
    case False
    then show ?thesis using b64_encode_append3[of "take 768 bs" "drop 768 bs"] by simp
  qed simp
  have t: "take 1024 (b64_encode bs) = b64_encode (take 768 bs)
      \<and> drop 1024 (b64_encode bs) = b64_encode (drop 768 bs)"
  proof (cases "length bs \<le> 768")
    case False
    then have "length (b64_encode (take 768 bs)) = 1024" by (simp add: length_b64_encode)
    then show ?thesis by (subst (1 2) split) simp
  next
    case True
    then have "length (b64_encode bs) \<le> 1024" by (simp add: length_b64_encode)
    then show ?thesis using True by simp
  qed
  have n: "4 \<le> length (b64_encode (take 768 bs))"
    using assms by (cases bs) (auto simp: length_b64_encode)
  have ne: "b64_encode bs \<noteq> []" using n split by auto
  have fl: "filter not_newline (b64_encode (take 768 bs)) = b64_encode (take 768 bs)"
    by (simp add: b64_encode_not_newline)
  show ?thesis
    by (subst b64_refill.simps, subst b64_refill.simps) (use ne n in \<open>simp add: t fl\<close>)
qed

text \<open>What the sender encodes the receiver's stream decodes, whatever the length: no chunk
  boundary falls inside a quantum and the padding is only in the last chunk.\<close>

lemma b64_stream_encode: "b64_stream [] (b64_encode bs) = (bs, B64Done)"
proof (induction "length bs" arbitrary: bs rule: less_induct)
  case less
  show ?case
  proof (cases "bs = []")
    case True
    then show ?thesis by (simp add: b64_stream.simps b64_refill.simps)
  next
    case False
    let ?c = "b64_encode (take 768 bs)"
    have len: "length ?c div 4 * 4 = length ?c" "4 \<le> length ?c"
      using False by (cases bs; simp add: length_b64_encode)+
    have "b64_stream [] (b64_encode (drop 768 bs)) = (drop 768 bs, B64Done)"
      by (rule less) (use False in \<open>cases bs; simp\<close>)
    then show ?thesis
      by (subst b64_stream.simps) (use len in \<open>simp add: b64_refill_encode[OF False] b64_chunk_encode\<close>)
  qed
qed

end
