(* ===== verification/JsonStream.thy ===== *)
theory JsonStream
  imports Base64
begin

text \<open>
  \<open>jsonstream.go\<close>: the reader that streams the unescaped bytes of one JSON string. The state is
  the unread input, the closing-quote flag and the bytes that did not fit the caller's buffer;
  \<open>jsr_read\<close> is \<open>Read\<close> on a buffer of a given size. A function from the input to the whole value
  (\<open>unescape\<close>) is the specification; the reader is shown to produce it through buffers of any
  sizes. The other direction is \<open>encoding/json\<close>'s string encoder, which the sender calls.
\<close>

section \<open>The input\<close>

text \<open>How the request body ends: cleanly, at the byte ceiling, or with a network error.\<close>

datatype read_end = CleanEOF | TooBig | NetErr

datatype jerr = JEOF | JBad | JRead read_end

definition end_err :: "read_end \<Rightarrow> jerr" where
  "end_err e = (if e = CleanEOF then JBad else JRead e)"

abbreviation quote :: char where
  "quote \<equiv> CHR 0x22"

abbreviation backslash :: char where
  "backslash \<equiv> CHR 0x5C"

section \<open>Escapes\<close>

definition hex_digit :: "char \<Rightarrow> nat option" where
  "hex_digit b =
     (if CHR ''0'' \<le> b \<and> b \<le> CHR ''9'' then Some (code b - 48)
      else if CHR ''a'' \<le> b \<and> b \<le> CHR ''f'' then Some (code b - 97 + 10)
      else if CHR ''A'' \<le> b \<and> b \<le> CHR ''F'' then Some (code b - 65 + 10)
      else None)"

fun hex_loop :: "nat \<Rightarrow> nat \<Rightarrow> string \<Rightarrow> nat option \<times> string" where
  "hex_loop 0 v s = (Some v, s)"
| "hex_loop (Suc i) v [] = (None, [])"
| "hex_loop (Suc i) v (b # s) =
     (case hex_digit b of None \<Rightarrow> (None, s) | Some d \<Rightarrow> hex_loop i (push_bit 4 v OR d) s)"

definition readHex4 :: "string \<Rightarrow> nat option \<times> string" where
  "readHex4 s = hex_loop 4 0 s"

definition encodeRune :: "nat \<Rightarrow> string" where
  "encodeRune cp =
     (if cp < 0x80 then [byte cp]
      else if cp < 0x800 then [byte (0xC0 OR drop_bit 6 cp), byte (0x80 OR (cp AND 0x3F))]
      else if cp < 0x10000 then
        [byte (0xE0 OR drop_bit 12 cp), byte (0x80 OR (drop_bit 6 cp AND 0x3F)), byte (0x80 OR (cp AND 0x3F))]
      else
        [byte (0xF0 OR drop_bit 18 cp), byte (0x80 OR (drop_bit 12 cp AND 0x3F)),
         byte (0x80 OR (drop_bit 6 cp AND 0x3F)), byte (0x80 OR (cp AND 0x3F))])"

definition readUnicodeEscape :: "string \<Rightarrow> string option \<times> string" where
  "readUnicodeEscape s =
     (case readHex4 s of
        (None, s1) \<Rightarrow> (None, s1)
      | (Some r1, s1) \<Rightarrow>
          if 0xD800 \<le> r1 \<and> r1 \<le> 0xDBFF then
            (case s1 of
               [] \<Rightarrow> (None, [])
             | b # s2 \<Rightarrow>
                 if b \<noteq> backslash then (None, s2)
                 else (case s2 of
                     [] \<Rightarrow> (None, [])
                   | u # s3 \<Rightarrow>
                       if u \<noteq> CHR ''u'' then (None, s3)
                       else (case readHex4 s3 of
                           (None, s4) \<Rightarrow> (None, s4)
                         | (Some r2, s4) \<Rightarrow>
                             if r2 < 0xDC00 \<or> 0xDFFF < r2 then (None, s4)
                             else (Some (encodeRune (0x10000 + push_bit 10 (r1 - 0xD800) + (r2 - 0xDC00))), s4))))
          else if 0xDC00 \<le> r1 \<and> r1 \<le> 0xDFFF then (None, s1)
          else (Some (encodeRune r1), s1))"

fun readEscape :: "string \<Rightarrow> string option \<times> string" where
  "readEscape [] = (None, [])"
| "readEscape (c # s) =
     (if c = quote then (Some [quote], s)
      else if c = backslash then (Some [backslash], s)
      else if c = CHR ''/'' then (Some ''/'', s)
      else if c = CHR ''b'' then (Some [CHR 0x08], s)
      else if c = CHR ''f'' then (Some [CHR 0x0C], s)
      else if c = CHR ''n'' then (Some [CHR 0x0A], s)
      else if c = CHR ''r'' then (Some [CHR 0x0D], s)
      else if c = CHR ''t'' then (Some [CHR 0x09], s)
      else if c = CHR ''u'' then readUnicodeEscape s
      else (None, s))"

lemma hex_loop_length: "hex_loop i v s = (r, s') \<Longrightarrow> length s' \<le> length s"
proof (induction i v s rule: hex_loop.induct)
  case (3 i v b s)
  then show ?case by (cases "hex_digit b") fastforce+
qed auto

lemma hex_loop_consumed: "hex_loop i v s = (Some r, s') \<Longrightarrow> length s = length s' + i"
proof (induction i v s rule: hex_loop.induct)
  case (3 i v b s)
  then show ?case by (cases "hex_digit b") fastforce+
qed auto

lemma encodeRune_not_Nil [simp]: "encodeRune cp \<noteq> []"
  by (simp add: encodeRune_def)

lemma encodeRune_length: "length (encodeRune cp) \<le> 4"
  by (simp add: encodeRune_def)

lemma readUnicodeEscape_length: "readUnicodeEscape s = (r, s') \<Longrightarrow> length s' \<le> length s"
proof -
  assume r: "readUnicodeEscape s = (r, s')"
  obtain o1 s1 where h1: "hex_loop 4 0 s = (o1, s1)" by fastforce
  have l1: "length s1 \<le> length s" by (rule hex_loop_length[OF h1])
  have l2: "hex_loop 4 0 (drop 2 s1) = (o2, s2) \<Longrightarrow> length s2 \<le> length s1" for o2 s2
    using hex_loop_length[of 4 0 "drop 2 s1" o2 s2] by simp
  show ?thesis
  proof (cases s1)
    case Nil
    then show ?thesis using r h1 by (auto simp: readUnicodeEscape_def readHex4_def split: option.splits if_splits)
  next
    case (Cons b s2)
    then show ?thesis using r h1 l1 l2
      by (cases s2) (auto simp: readUnicodeEscape_def readHex4_def split: option.splits if_splits prod.splits)
  qed
qed

lemma readEscape_length: "readEscape s = (r, s') \<Longrightarrow> length s' \<le> length s"
  by (cases s) (auto split: if_splits dest: readUnicodeEscape_length)

lemma readUnicodeEscape_Some: "readUnicodeEscape s = (Some out, s') \<Longrightarrow> out \<noteq> [] \<and> length out + length s' \<le> length s"
proof -
  assume r: "readUnicodeEscape s = (Some out, s')"
  obtain o1 s1 where h1: "hex_loop 4 0 s = (o1, s1)" by fastforce
  then obtain r1 where o1: "o1 = Some r1" using r by (cases o1) (auto simp: readUnicodeEscape_def readHex4_def)
  have l1: "length s = length s1 + 4" using hex_loop_consumed[OF h1[unfolded o1]] .
  show ?thesis
  proof (cases "0xD800 \<le> r1 \<and> r1 \<le> 0xDBFF")
    case True
    then obtain s3 r2 where "hex_loop 4 0 s3 = (Some r2, s')" "length s1 = length s3 + 2"
      "out = encodeRune (0x10000 + push_bit 10 (r1 - 0xD800) + (r2 - 0xDC00))"
      using r h1 by (auto simp: readUnicodeEscape_def readHex4_def o1 split: list.splits if_splits option.splits prod.splits)
    moreover from this have "length out \<le> 4" using encodeRune_length by blast
    ultimately show ?thesis using l1 hex_loop_consumed[of 4 0 s3 r2 s'] by auto
  next
    case False
    then have "out = encodeRune r1" "s' = s1"
      using r h1 by (auto simp: readUnicodeEscape_def readHex4_def o1 split: if_splits)
    then show ?thesis using l1 encodeRune_length[of r1] by simp
  qed
qed

lemma readEscape_Some: "readEscape s = (Some out, s') \<Longrightarrow> out \<noteq> [] \<and> length out + length s' \<le> length s"
  by (cases s) (auto split: if_splits dest: readUnicodeEscape_Some)

section \<open>The reader\<close>

record jsr =
  js_rest :: string
  js_done :: bool
  js_pending :: string

definition newJSONStringReader :: "string \<Rightarrow> jsr" where
  "newJSONStringReader s = \<lparr>js_rest = s, js_done = False, js_pending = []\<rparr>"

text \<open>The loop of \<open>Read\<close> with room for \<open>k\<close> more bytes: the bytes, an error, whether the closing
  quote was seen, the bytes that did not fit, and the unread input.\<close>

function fill :: "read_end \<Rightarrow> nat \<Rightarrow> string \<Rightarrow> string \<times> jerr option \<times> bool \<times> string \<times> string" where
  "fill e k s =
     (if k = 0 then ([], None, False, [], s)
      else (case s of
          [] \<Rightarrow> ([], Some (end_err e), False, [], [])
        | b # s1 \<Rightarrow>
            if b = quote then ([], None, True, [], s1)
            else if b = backslash then
              (case readEscape s1 of
                 (None, s2) \<Rightarrow> ([], Some JBad, False, [], s2)
               | (Some out, s2) \<Rightarrow>
                   if length out < k
                   then (let (more, rest) = fill e (k - length out) s2 in (out @ more, rest))
                   else (take k out, None, False, drop k out, s2))
            else (let (more, rest) = fill e (k - 1) s1 in (b # more, rest))))"
  by pat_completeness auto
termination
  by (relation "measure (\<lambda>(e, k, s). length s)") (auto dest!: readEscape_length[OF sym])

declare fill.simps [simp del]

definition jsr_read :: "read_end \<Rightarrow> nat \<Rightarrow> jsr \<Rightarrow> string \<times> jerr option \<times> jsr" where
  "jsr_read e k st =
     (if k = 0 then ([], None, st)
      else
        let bs = take k (js_pending st); st1 = st\<lparr>js_pending := drop k (js_pending st)\<rparr> in
        if length bs = k then (bs, None, st1)
        else if js_done st1 then (if bs \<noteq> [] then (bs, None, st1) else ([], Some JEOF, st1))
        else
          let (out, err, dn, pend, rest) = fill e (k - length bs) (js_rest st1);
              st2 = \<lparr>js_rest = rest, js_done = dn, js_pending = pend\<rparr>
          in (bs @ out, if err = None \<and> dn \<and> bs @ out = [] then Some JEOF else err, st2))"

section \<open>The specification\<close>

text \<open>The whole value: its bytes, \<open>None\<close> for a closed string or the error, the input after it.\<close>

function unescape :: "read_end \<Rightarrow> string \<Rightarrow> string \<times> jerr option \<times> string" where
  "unescape e s =
     (case s of
        [] \<Rightarrow> ([], Some (end_err e), [])
      | b # s1 \<Rightarrow>
          if b = quote then ([], None, s1)
          else if b = backslash then
            (case readEscape s1 of
               (None, s2) \<Rightarrow> ([], Some JBad, s2)
             | (Some out, s2) \<Rightarrow> (let (more, rest) = unescape e s2 in (out @ more, rest)))
          else (let (more, rest) = unescape e s1 in (b # more, rest)))"
  by pat_completeness auto
termination
  by (relation "measure (\<lambda>(e, s). length s)") (auto dest!: readEscape_length[OF sym])

declare unescape.simps [simp del]

text \<open>What a state of the reader still has to deliver.\<close>

definition remaining :: "read_end \<Rightarrow> jsr \<Rightarrow> string \<times> jerr option \<times> string" where
  "remaining e st =
     (if js_done st then (js_pending st, None, js_rest st)
      else let (bs, r) = unescape e (js_rest st) in (js_pending st @ bs, r))"

definition prepend :: "string \<Rightarrow> string \<times> 'b \<Rightarrow> string \<times> 'b" where
  "prepend bs r = (bs @ fst r, snd r)"

lemma prepend_simps [simp]: "prepend [] r = r" "prepend a (prepend b r) = prepend (a @ b) r"
  "fst (prepend a r) = a @ fst r" "snd (prepend a r) = snd r" "prepend a (b, x) = (a @ b, x)"
  by (simp_all add: prepend_def)

text \<open>One call of \<open>fill\<close> delivers a prefix of the value.\<close>

lemma fill_spec:
  assumes "fill e k s = (bs, err, dn, pend, rest)"
  shows "(case err of
      Some x \<Rightarrow> x \<noteq> JEOF \<and> unescape e s = (bs, Some x, rest) \<and> length bs \<le> k
    | None \<Rightarrow> unescape e s = prepend bs (if dn then ([], None, rest) else prepend pend (unescape e rest)) \<and>
        (dn \<longrightarrow> pend = []) \<and> (length bs < k \<longrightarrow> dn) \<and> length bs \<le> k \<and> (k = 0 \<longrightarrow> \<not> dn)) \<and>
    length bs + length pend + length rest + (if dn then 1 else 0) \<le> length s"
  using assms
proof (induction e k s arbitrary: bs err dn pend rest rule: fill.induct)
  case (1 e k s)
  show ?case
  proof (cases "k = 0")
    case True
    then show ?thesis using "1.prems" by (simp add: fill.simps)
  next
    case k: False
    show ?thesis
    proof (cases s)
      case Nil
      then show ?thesis using "1.prems" k by (auto simp: fill.simps unescape.simps end_err_def)
    next
      case (Cons b s1)
      consider "b = quote" | "b \<noteq> quote" "b = backslash" | "b \<noteq> quote" "b \<noteq> backslash" by blast
      then show ?thesis
      proof cases
        case 1
        then show ?thesis using "1.prems" k unfolding Cons by (auto simp: fill.simps unescape.simps)
      next
        case 2
        obtain ro s2 where ro: "readEscape s1 = (ro, s2)" by fastforce
        have l: "length s2 \<le> length s1" by (rule readEscape_length[OF ro])
        show ?thesis
        proof (cases ro)
          case None
          then show ?thesis using "1.prems" k Cons 2 ro l
            by (auto simp: fill.simps[of e k "c # s1" for c] unescape.simps[of e "c # s1" for c])
        next
          case (Some out)
          have o: "out \<noteq> []" "length out + length s2 \<le> length s1" using readEscape_Some[OF ro[unfolded Some]] by auto
          have u: "unescape e s = prepend out (unescape e s2)"
            using Cons 2 ro Some by (simp add: unescape.simps[of e "c # s1" for c] prepend_def split: prod.splits)
          show ?thesis
          proof (cases "length out < k")
            case True
            obtain b1 e1 d1 p1 r1 where f: "fill e (k - length out) s2 = (b1, e1, d1, p1, r1)" by (metis prod_cases5)
            have "bs = out @ b1" "err = e1" "dn = d1" "pend = p1" "rest = r1"
              using "1.prems" k Cons 2 ro Some True f by (simp_all add: fill.simps[of e k "c # s1" for c])
            moreover note "1.IH"(1)[OF k Cons 2(1) 2(2) ro[symmetric] Some True f]
            ultimately show ?thesis using u o Cons True by (cases err) auto
          next
            case False
            then have "bs = take k out" "err = None" "\<not> dn" "pend = drop k out" "rest = s2"
              using "1.prems" k Cons 2 ro Some by (simp_all add: fill.simps[of e k "c # s1" for c])
            then show ?thesis using u o Cons False k by simp
          qed
        qed
      next
        case 3
        obtain b1 e1 d1 p1 r1 where f: "fill e (k - 1) s1 = (b1, e1, d1, p1, r1)" by (metis prod_cases5)
        have "bs = b # b1" "err = e1" "dn = d1" "pend = p1" "rest = r1"
          using "1.prems" k Cons 3 f by (simp_all add: fill.simps[of e k "c # s1" for c])
        moreover have "unescape e s = prepend [b] (unescape e s1)"
          using Cons 3 by (simp add: unescape.simps[of e "c # s1" for c] prepend_def split: prod.splits)
        moreover note "1.IH"(2)[OF k Cons 3 f]
        ultimately show ?thesis using Cons k by (cases err) auto
      qed
    qed
  qed
qed

text \<open>The contract of one \<open>Read\<close>: data is a prefix of the value, the end is reported once the value
  is delivered, an error comes with the last bytes before it; a short read means the end.\<close>

definition weight :: "jsr \<Rightarrow> nat" where
  "weight st = length (js_pending st) + length (js_rest st) + (if js_done st then 0 else 1)"

lemma jsr_read_spec:
  assumes "jsr_read e k st = (bs, err, st')" and "0 < k"
  shows "(case err of
      None \<Rightarrow> bs \<noteq> [] \<and> remaining e st = prepend bs (remaining e st') \<and>
        (length bs < k \<longrightarrow> remaining e st' = ([], None, js_rest st'))
    | Some JEOF \<Rightarrow> bs = [] \<and> remaining e st = ([], None, js_rest st')
    | Some x \<Rightarrow> remaining e st = (bs, Some x, js_rest st')) \<and>
    length bs + weight st' \<le> weight st \<and> length bs \<le> k"
proof -
  let ?p = "js_pending st"
  consider (full) "k \<le> length ?p" | (eof) "length ?p < k" "js_done st" | (more) "length ?p < k" "\<not> js_done st"
    by linarith
  then show ?thesis
  proof cases
    case full
    then have "length (take k ?p) = k" by simp
    then have "bs = take k ?p" "err = None" "st' = st\<lparr>js_pending := drop k ?p\<rparr>"
      using assms by (simp_all add: jsr_read_def Let_def del: length_take)
    moreover have "prepend ?p x = prepend (take k ?p) (prepend (drop k ?p) x)" for x :: "string \<times> jerr option \<times> string"
      by simp
    ultimately show ?thesis using full assms(2)
      by (auto simp: remaining_def weight_def prepend_def split: prod.splits)
  next
    case eof
    then have "bs = ?p" "st' = st\<lparr>js_pending := []\<rparr>" "err = (if ?p = [] then Some JEOF else None)"
      using assms by (auto simp: jsr_read_def Let_def split: if_splits)
    then show ?thesis using eof by (auto simp: remaining_def weight_def prepend_def)
  next
    case more
    obtain out er dn pend rest where f: "fill e (k - length ?p) (js_rest st) = (out, er, dn, pend, rest)"
      by (metis prod_cases5)
    have r: "bs = ?p @ out" "err = (if er = None \<and> dn \<and> ?p @ out = [] then Some JEOF else er)"
      "st' = \<lparr>js_rest = rest, js_done = dn, js_pending = pend\<rparr>"
      using assms more f by (auto simp: jsr_read_def Let_def split: if_splits)
    have d: "remaining e st = prepend ?p (unescape e (js_rest st))"
      using more by (simp add: remaining_def prepend_def split: prod.splits)
    have d': "remaining e st' = (if dn then (pend, None, rest) else prepend pend (unescape e rest))"
      by (simp add: remaining_def prepend_def r(3) split: prod.splits)
    note sp = fill_spec[OF f]
    show ?thesis
    proof (cases er)
      case None
      then have u: "unescape e (js_rest st) = prepend out (if dn then ([], None, rest) else prepend pend (unescape e rest))"
        "dn \<longrightarrow> pend = []" "length out < k - length ?p \<longrightarrow> dn" "length out \<le> k - length ?p" "k - length ?p = 0 \<longrightarrow> \<not> dn"
        "length out + length pend + length rest + (if dn then 1 else 0) \<le> length (js_rest st)"
        using sp by auto
      have ne: "?p @ out \<noteq> []" if "\<not> dn" using u(3) that more by auto
      show ?thesis using None r d d' u ne more
        by (cases "dn \<and> ?p @ out = []") (auto simp: weight_def)
    next
      case (Some x)
      then have "x \<noteq> JEOF" "unescape e (js_rest st) = (out, Some x, rest)"
        "length out + length pend + length rest + (if dn then 1 else 0) \<le> length (js_rest st)" using sp by auto
      moreover have "length out \<le> k - length ?p" using Some sp by simp
      ultimately show ?thesis using Some r d more by (cases x) (auto simp: weight_def)
    qed
  qed
qed

section \<open>Reading to the end\<close>

text \<open>\<open>io.ReadAll\<close> and \<open>io.Copy\<close>: reads with windows of given sizes until an error or the end.\<close>

function read_all :: "read_end \<Rightarrow> (nat \<Rightarrow> nat) \<Rightarrow> nat \<Rightarrow> jsr \<Rightarrow> string \<times> jerr option \<times> string" where
  "read_all e window i st =
     (let (bs, err, st') = jsr_read e (Suc (window i)) st in
      case err of
        None \<Rightarrow> prepend bs (read_all e window (Suc i) st')
      | Some x \<Rightarrow> (bs, if x = JEOF then None else Some x, js_rest st'))"
  by pat_completeness auto
termination
proof (relation "measure (\<lambda>(e, window, i, st). weight st)", goal_cases)
  case (2 e window i st p bs q err st')
  then have "jsr_read e (Suc (window i)) st = (bs, None, st')" by simp
  from jsr_read_spec[OF this] have "bs \<noteq> []" "length bs + weight st' \<le> weight st" by simp_all
  then show ?case by (cases bs) auto
qed simp

declare read_all.simps [simp del]

lemma read_all_remaining: "read_all e window i st = remaining e st"
proof (induction e window i st rule: read_all.induct)
  case (1 e window i st)
  obtain bs err st' where r: "jsr_read e (Suc (window i)) st = (bs, err, st')" by (metis prod_cases3)
  note sp = jsr_read_spec[OF r]
  show ?case
  proof (cases err)
    case None
    from "1"[OF r[symmetric] refl refl None] show ?thesis
      using sp r None by (simp add: read_all.simps[of e window i])
  next
    case (Some x)
    then show ?thesis using sp r by (cases x) (simp_all add: read_all.simps[of e window i])
  qed
qed

lemma remaining_new: "remaining e (newJSONStringReader s) = unescape e s"
  by (simp add: remaining_def newJSONStringReader_def)

section \<open>UTF-8\<close>

lemma and_63: "(x::nat) AND 63 = x mod 64"
  using take_bit_eq_mask[of 6 x] by (simp add: take_bit_eq_mod mask_eq_exp_minus_1)

lemma lead_or:
  "x < 32 \<Longrightarrow> (192::nat) OR x = 192 + x" "x < 16 \<Longrightarrow> (224::nat) OR x = 224 + x"
  "x < 8 \<Longrightarrow> (240::nat) OR x = 240 + x" "x < 64 \<Longrightarrow> (128::nat) OR x = 128 + x"
proof -
  have "list_all (\<lambda>x. (192::nat) OR x = 192 + x) [0..<32]" "list_all (\<lambda>x. (224::nat) OR x = 224 + x) [0..<16]"
    "list_all (\<lambda>x. (240::nat) OR x = 240 + x) [0..<8]" "list_all (\<lambda>x. (128::nat) OR x = 128 + x) [0..<64]"
    by code_simp+
  then show "x < 32 \<Longrightarrow> (192::nat) OR x = 192 + x" "x < 16 \<Longrightarrow> (224::nat) OR x = 224 + x"
    "x < 8 \<Longrightarrow> (240::nat) OR x = 240 + x" "x < 64 \<Longrightarrow> (128::nat) OR x = 128 + x"
    by (simp_all add: list_all_iff)
qed

lemma encodeRune_arith:
  assumes "cp < 0x110000"
  shows "encodeRune cp =
     (if cp < 0x80 then [byte cp]
      else if cp < 0x800 then [byte (192 + cp div 64), byte (128 + cp mod 64)]
      else if cp < 0x10000 then [byte (224 + cp div 4096), byte (128 + cp div 64 mod 64), byte (128 + cp mod 64)]
      else [byte (240 + cp div 262144), byte (128 + cp div 4096 mod 64), byte (128 + cp div 64 mod 64),
            byte (128 + cp mod 64)])"
proof -
  have "cp div 64 < 32" if "cp < 0x800" using that by linarith
  moreover have "cp div 4096 < 16" if "cp < 0x10000" using that by linarith
  moreover have "cp div 262144 < 8" using assms by linarith
  ultimately show ?thesis by (simp add: encodeRune_def drop_bit_eq_div and_63 lead_or)
qed

definition scalar :: "nat \<Rightarrow> bool" where
  "scalar cp \<longleftrightarrow> cp < 0x110000 \<and> \<not> (0xD800 \<le> cp \<and> cp \<le> 0xDFFF)"

lemma rune_mods:
  fixes a :: nat
  shows "a < 32 \<Longrightarrow> (192 + a) mod 32 = a" "a < 16 \<Longrightarrow> (224 + a) mod 16 = a" "a < 8 \<Longrightarrow> (240 + a) mod 8 = a"
    "a < 64 \<Longrightarrow> (128 + a) mod 64 = a"
proof -
  have m: "a < m \<Longrightarrow> (k * m + a) mod m = a" for k m by simp
  show "a < 32 \<Longrightarrow> (192 + a) mod 32 = a" "a < 16 \<Longrightarrow> (224 + a) mod 16 = a" "a < 8 \<Longrightarrow> (240 + a) mod 8 = a"
    "a < 64 \<Longrightarrow> (128 + a) mod 64 = a"
    using m[of 32 6] m[of 16 14] m[of 8 30] m[of 64 2] by simp_all
qed

text \<open>The six-bit digits of a code point.\<close>

lemma base64_digits:
  fixes cp :: nat
  shows "cp = cp div 64 * 64 + cp mod 64"
    and "cp = cp div 4096 * 4096 + cp div 64 mod 64 * 64 + cp mod 64"
    and "cp = cp div 262144 * 262144 + cp div 4096 mod 64 * 4096 + cp div 64 mod 64 * 64 + cp mod 64"
proof -
  have d: "n = n div 64 * 64 + n mod 64" for n :: nat by simp
  have "cp div 4096 = cp div 64 div 64" "cp div 262144 = cp div 4096 div 64" by (simp_all add: div_mult2_eq[symmetric])
  then show "cp = cp div 64 * 64 + cp mod 64"
    "cp = cp div 4096 * 4096 + cp div 64 mod 64 * 64 + cp mod 64"
    "cp = cp div 262144 * 262144 + cp div 4096 mod 64 * 4096 + cp div 64 mod 64 * 64 + cp mod 64"
    using d[of cp] d[of "cp div 64"] d[of "cp div 4096"] by linarith+
qed

lemma decode_encode:
  assumes "scalar cp"
  shows "decode_rune (encodeRune cp @ r) = (cp, length (encodeRune cp))"
proof -
  have c: "cp < 0x110000" "\<not> (0xD800 \<le> cp \<and> cp \<le> 0xDFFF)" using assms by (auto simp: scalar_def)
  consider "cp < 0x80" | "0x80 \<le> cp" "cp < 0x800" | "0x800 \<le> cp" "cp < 0x10000" | "0x10000 \<le> cp" by linarith
  then show ?thesis
  proof cases
    case 1
    then show ?thesis by (simp add: encodeRune_arith c(1) decode_rune_ascii)
  next
    case 2
    define a where "a = cp div 64"
    define b where "b = cp mod 64"
    have v: "cp = a * 64 + b" "b < 64" by (simp_all add: a_def b_def)
    then have l: "2 \<le> a" "a < 32" using 2 by linarith+
    have "lead_info (192 + a) = Some (2, 128, 191)" using l by (simp add: lead_info_def)
    moreover have "(192 + a) mod 32 = a" "(128 + b) mod 64 = b" using l v by (simp_all add: rune_mods)
    moreover have "encodeRune cp = [byte (192 + a), byte (128 + b)]" using 2 by (simp add: encodeRune_arith a_def b_def)
    ultimately show ?thesis using l v by (simp add: decode_rune.simps(2) Let_def code_byte)
  next
    case 3
    define a where "a = cp div 4096"
    define m where "m = cp div 64 mod 64"
    define b where "b = cp mod 64"
    have v: "cp = a * 4096 + m * 64 + b" "m < 64" "b < 64"
      unfolding a_def m_def b_def by (rule base64_digits(2)) simp_all
    then have l: "a < 16" "a = 0 \<longrightarrow> 32 \<le> m" "a = 13 \<longrightarrow> m < 32" using 3 c(2) by linarith+
    have "\<exists>lo hi. lead_info (224 + a) = Some (3, lo, hi) \<and> lo \<le> 128 + m \<and> 128 + m \<le> hi"
      using l v by (auto simp: lead_info_def)
    then obtain lo hi where "lead_info (224 + a) = Some (3, lo, hi)" "lo \<le> 128 + m" "128 + m \<le> hi" by blast
    moreover have "(224 + a) mod 16 = a" "(128 + m) mod 64 = m" "(128 + b) mod 64 = b" using l v by (simp_all add: rune_mods)
    moreover have "encodeRune cp = [byte (224 + a), byte (128 + m), byte (128 + b)]"
      using 3 by (simp add: encodeRune_arith a_def b_def m_def)
    ultimately show ?thesis using l v by (simp add: decode_rune.simps(2) Let_def code_byte)
  next
    case 4
    define a where "a = cp div 262144"
    define n where "n = cp div 4096 mod 64"
    define m where "m = cp div 64 mod 64"
    define b where "b = cp mod 64"
    have v: "cp = a * 262144 + n * 4096 + m * 64 + b" "n < 64" "m < 64" "b < 64"
      unfolding a_def n_def m_def b_def by (rule base64_digits(3)) simp_all
    then have l: "a < 5" "a = 0 \<longrightarrow> 16 \<le> n" "a = 4 \<longrightarrow> n < 16" using 4 c(1) by linarith+
    have "\<exists>lo hi. lead_info (240 + a) = Some (4, lo, hi) \<and> lo \<le> 128 + n \<and> 128 + n \<le> hi"
      using l v by (auto simp: lead_info_def)
    then obtain lo hi where "lead_info (240 + a) = Some (4, lo, hi)" "lo \<le> 128 + n" "128 + n \<le> hi" by blast
    moreover have "(240 + a) mod 8 = a" "(128 + n) mod 64 = n" "(128 + m) mod 64 = m" "(128 + b) mod 64 = b"
      using l v by (simp_all add: rune_mods)
    moreover have "encodeRune cp = [byte (240 + a), byte (128 + n), byte (128 + m), byte (128 + b)]"
      using 4 c(1) by (simp add: encodeRune_arith a_def b_def m_def n_def)
    ultimately show ?thesis using l v by (simp add: decode_rune.simps(2) Let_def code_byte)
  qed
qed

text \<open>The decoder accepts only the encoding \<open>encodeRune\<close> writes.\<close>

lemma byte_eqI: "code c = n \<Longrightarrow> c = byte n"
  by auto

lemma split_code: "code c = k + code c mod m \<Longrightarrow> c = byte (k + code c mod m)"
  by (metis char_of_char)

lemma lead_info_cases:
  assumes "lead_info p = Some (sz, lo, hi)"
  shows "sz = 2 \<and> lo = 128 \<and> hi = 191 \<and> 194 \<le> p \<and> p \<le> 223 \<or>
    sz = 3 \<and> 128 \<le> lo \<and> hi \<le> 191 \<and> 224 \<le> p \<and> p \<le> 239 \<and> (p = 224 \<longrightarrow> 160 \<le> lo) \<and> (p = 237 \<longrightarrow> hi \<le> 159) \<or>
    sz = 4 \<and> 128 \<le> lo \<and> hi \<le> 191 \<and> 240 \<le> p \<and> p \<le> 244 \<and> (p = 240 \<longrightarrow> 144 \<le> lo) \<and> (p = 244 \<longrightarrow> hi \<le> 143)"
  using assms by (auto simp: lead_info_def split: if_splits)

lemma continuation: "128 \<le> code c \<Longrightarrow> code c \<le> 191 \<Longrightarrow> c = byte (128 + code c mod 64) \<and> code c mod 64 < 64"
proof -
  assume a: "128 \<le> code c" "code c \<le> 191"
  then obtain b where b: "code c = 128 + b" using le_Suc_ex by blast
  then have "b < 64" using a by simp
  then show ?thesis using b rune_mods(4)[of b] by (metis char_of_char)
qed

lemma digit_split: "b < 64 \<Longrightarrow> (x * 64 + b) div 64 = (x::nat)" "b < 64 \<Longrightarrow> (x * 64 + b) mod 64 = (b::nat)"
  by simp_all

lemma encode_two:
  assumes "2 \<le> a" and "a < 32" and "b < (64::nat)"
  shows "encodeRune (a * 64 + b) = [byte (192 + a), byte (128 + b)] \<and> scalar (a * 64 + b)"
proof -
  have "(a * 64 + b) div 64 = a" "(a * 64 + b) mod 64 = b" using assms(3) by simp_all
  then show ?thesis using assms by (simp add: encodeRune_arith scalar_def)
qed

lemma encode_three:
  assumes "a < 16" and "m < 64" and "b < (64::nat)" and "a = 0 \<longrightarrow> 32 \<le> m" and "a = 13 \<longrightarrow> m < 32"
  shows "encodeRune (a * 4096 + m * 64 + b) = [byte (224 + a), byte (128 + m), byte (128 + b)] \<and>
    scalar (a * 4096 + m * 64 + b)"
proof -
  let ?cp = "a * 4096 + m * 64 + b"
  have e: "?cp = (a * 64 + m) * 64 + b" by simp
  have "?cp div 64 = a * 64 + m" "?cp mod 64 = b" unfolding e by (rule digit_split[OF assms(3)])+
  moreover from this have "?cp div 4096 = a" "?cp div 64 mod 64 = m"
    using assms(2) div_mult2_eq[of ?cp 64 64] by simp_all
  moreover have "0x800 \<le> ?cp" "?cp < 0x10000" using assms by (cases "a = 0"; linarith)+
  moreover have "?cp < 0xD800 \<or> 0xDFFF < ?cp"
  proof -
    consider "a < 13" | "a = 13" | "14 \<le> a" by linarith
    then show ?thesis using assms by cases linarith+
  qed
  ultimately show ?thesis by (auto simp: encodeRune_arith scalar_def)
qed

lemma encode_four:
  assumes "a < 5" and "n < 64" and "m < 64" and "b < (64::nat)" and "a = 0 \<longrightarrow> 16 \<le> n" and "a = 4 \<longrightarrow> n < 16"
  shows "encodeRune (a * 262144 + n * 4096 + m * 64 + b) = [byte (240 + a), byte (128 + n), byte (128 + m), byte (128 + b)] \<and>
    scalar (a * 262144 + n * 4096 + m * 64 + b)"
proof -
  let ?cp = "a * 262144 + n * 4096 + m * 64 + b" and ?h = "a * 4096 + n * 64 + m"
  have e: "?cp = ?h * 64 + b" by simp
  have h: "?h = (a * 64 + n) * 64 + m" by simp
  have "?cp div 64 = ?h" "?cp mod 64 = b" unfolding e by (rule digit_split[OF assms(4)])+
  moreover have hd: "?h div 64 = a * 64 + n" "?h mod 64 = m" unfolding h by (rule digit_split[OF assms(3)])+
  ultimately have "?cp div 4096 = a * 64 + n" "?cp div 64 mod 64 = m" "?cp mod 64 = b"
    using div_mult2_eq[of ?cp 64 64] by simp_all
  moreover from this have "?cp div 262144 = a" "?cp div 4096 mod 64 = n"
    using assms(2) div_mult2_eq[of ?cp 4096 64] by simp_all
  moreover have "0x10000 \<le> ?cp" "?cp < 0x110000" using assms by (cases "a = 0"; linarith; fail | cases "a = 4"; linarith)+
  ultimately show ?thesis by (auto simp: encodeRune_arith scalar_def)
qed

text \<open>The conditions under which a multi-byte decoding succeeds.\<close>

lemma decode_multi:
  assumes "\<not> code c0 < 128" and "lead_info (code c0) = Some (sz, lo, up)"
  shows "decode_rune (c0 # r) =
    (if Suc (length r) < sz \<or> code (r ! 0) < lo \<or> up < code (r ! 0) then (rune_error, 1)
     else if sz \<le> 2 then ((code c0 mod 32) * 64 + code (r ! 0) mod 64, 2)
     else if code (r ! 1) < 128 \<or> 191 < code (r ! 1) then (rune_error, 1)
     else if sz \<le> 3 then ((code c0 mod 16) * 4096 + (code (r ! 0) mod 64) * 64 + code (r ! 1) mod 64, 3)
     else if code (r ! 2) < 128 \<or> 191 < code (r ! 2) then (rune_error, 1)
     else ((code c0 mod 8) * 262144 + (code (r ! 0) mod 64) * 4096 + (code (r ! 1) mod 64) * 64 + code (r ! 2) mod 64, 4))"
  by (simp only: decode_rune.simps(2) Let_def assms if_False option.case prod.case) argo

lemma encode_decode:
  assumes "s \<noteq> []" and "decode_rune s \<noteq> (rune_error, 1)"
  shows "take (snd (decode_rune s)) s = encodeRune (fst (decode_rune s)) \<and> scalar (fst (decode_rune s))"
proof -
  obtain c0 r where s: "s = c0 # r" using assms(1) by (cases s) auto
  let ?p = "code c0"
  show ?thesis
  proof (cases "?p < 128")
    case True
    then show ?thesis by (simp add: s decode_rune_ascii encodeRune_arith scalar_def)
  next
    case hi: False
    then obtain sz lo up where li: "lead_info ?p = Some (sz, lo, up)"
      using assms(2) by (cases "lead_info ?p") (auto simp: s decode_rune.simps(2) Let_def)
    note dm = decode_multi[OF hi li, of r, folded s]
    have len: "sz \<le> Suc (length r)" and b1': "lo \<le> code (r ! 0)" "code (r ! 0) \<le> up"
      using assms(2) unfolding dm by (auto split: if_splits)
    have sz2: "2 \<le> sz" using lead_info_size[OF li] by simp
    obtain c1 r1 where r: "r = c1 # r1" using len sz2 by (cases r) auto
    have b1: "lo \<le> code c1" "code c1 \<le> up" using b1' by (simp_all add: r)
    from lead_info_cases[OF li] consider (two) "sz = 2" "lo = 128" "up = 191" "194 \<le> ?p" "?p \<le> 223"
      | (three) "sz = 3" "128 \<le> lo" "up \<le> 191" "224 \<le> ?p" "?p \<le> 239" "?p = 224 \<longrightarrow> 160 \<le> lo" "?p = 237 \<longrightarrow> up \<le> 159"
      | (four) "sz = 4" "128 \<le> lo" "up \<le> 191" "240 \<le> ?p" "?p \<le> 244" "?p = 240 \<longrightarrow> 144 \<le> lo" "?p = 244 \<longrightarrow> up \<le> 143"
      by blast
    then show ?thesis
    proof cases
      case two
      obtain a where a: "?p = 192 + a" using two le_Suc_ex[of 192 ?p] by auto
      then have al: "2 \<le> a" "a < 32" using two by simp_all
      obtain b where b: "code c1 = 128 + b" using two b1 le_Suc_ex[of 128 "code c1"] by auto
      then have bl: "b < 64" using two b1 by simp
      have "decode_rune s = (a * 64 + b, 2)"
        using len b1 two al bl by (simp add: dm r a b rune_mods)
      then show ?thesis using encode_two[OF al bl] byte_eqI[OF a] byte_eqI[OF b] by (simp add: s r)
    next
      case three
      obtain a where a: "?p = 224 + a" using three le_Suc_ex[of 224 ?p] by auto
      then have al: "a < 16" using three by simp
      obtain m where m: "code c1 = 128 + m" using three b1 le_Suc_ex[of 128 "code c1"] by auto
      then have ml: "m < 64" "a = 0 \<longrightarrow> 32 \<le> m" "a = 13 \<longrightarrow> m < 32" using three b1 a by auto
      obtain c2 r2 where r1: "r1 = c2 # r2" using len three by (cases r1) (auto simp: r)
      have b2: "128 \<le> code c2" "code c2 \<le> 191"
        using assms(2) unfolding dm three(1) by (auto simp: r r1 split: if_splits)
      then obtain b where b: "code c2 = 128 + b" using le_Suc_ex[of 128 "code c2"] by auto
      then have bl: "b < 64" using b2 by simp
      have "decode_rune s = (a * 4096 + m * 64 + b, 3)"
        using len b1 three b2 al ml(1) bl by (simp add: dm r r1 a b m rune_mods)
      then show ?thesis using encode_three[OF al ml(1) bl ml(2,3)] byte_eqI[OF a] byte_eqI[OF b] byte_eqI[OF m]
        by (simp add: s r r1 numeral_3_eq_3)
    next
      case four
      obtain a where a: "?p = 240 + a" using four le_Suc_ex[of 240 ?p] by auto
      then have al: "a < 5" using four by simp
      obtain n where n: "code c1 = 128 + n" using four b1 le_Suc_ex[of 128 "code c1"] by auto
      then have nl: "n < 64" "a = 0 \<longrightarrow> 16 \<le> n" "a = 4 \<longrightarrow> n < 16" using four b1 a by auto
      obtain c2 c3 r3 where r1: "r1 = c2 # c3 # r3" using len four by (cases r1; cases "tl r1") (auto simp: r)
      have b2: "128 \<le> code c2" "code c2 \<le> 191" and b3: "128 \<le> code c3" "code c3 \<le> 191"
        using assms(2) unfolding dm four(1) by (auto simp: r r1 split: if_splits)
      obtain m where m: "code c2 = 128 + m" using b2 le_Suc_ex[of 128 "code c2"] by auto
      obtain b where b: "code c3 = 128 + b" using b3 le_Suc_ex[of 128 "code c3"] by auto
      have ml: "m < 64" "b < 64" using b2 b3 m b by simp_all
      have "decode_rune s = (a * 262144 + n * 4096 + m * 64 + b, 4)"
        using len b1 four b2 b3 al ml nl(1) by (simp add: dm r r1 a b m n rune_mods)
      moreover have "take 4 s = [byte (240 + a), byte (128 + n), byte (128 + m), byte (128 + b)]"
        unfolding s r r1 byte_eqI[OF a] byte_eqI[OF b] byte_eqI[OF m] byte_eqI[OF n] by simp
      ultimately show ?thesis using encode_four[OF al nl(1) ml(1) ml(2) nl(2,3)] by simp
    qed
  qed
qed

section \<open>The sender's string encoder\<close>

text \<open>\<open>encoding/json\<close>'s string encoding with HTML escaping, which \<open>MarshalEnvelope\<close> and the
  journal call: the bytes between the quotes.\<close>

definition hex_char :: "nat \<Rightarrow> char" where
  "hex_char n = ''0123456789abcdef'' ! n"

definition html_safe :: "char \<Rightarrow> bool" where
  "html_safe c \<longleftrightarrow> 0x20 \<le> code c \<and> c \<notin> {quote, backslash, CHR ''<'', CHR ''>'', CHR ''&''}"

definition ascii_escape :: "char \<Rightarrow> string" where
  "ascii_escape c =
     (if html_safe c then [c]
      else if c = backslash \<or> c = quote then [backslash, c]
      else if c = CHR 0x08 then [backslash, CHR ''b'']
      else if c = CHR 0x0C then [backslash, CHR ''f'']
      else if c = CHR 0x0A then [backslash, CHR ''n'']
      else if c = CHR 0x0D then [backslash, CHR ''r'']
      else if c = CHR 0x09 then [backslash, CHR ''t'']
      else [backslash, CHR ''u'', CHR ''0'', CHR ''0'', hex_char (code c div 16), hex_char (code c mod 16)])"

text \<open>One step: the text for the first rune and the length of the rune.\<close>

definition rune_escape :: "string \<Rightarrow> string \<times> nat" where
  "rune_escape s =
     (let (r, n) = decode_rune s in
      if code (hd s) < 0x80 then (ascii_escape (hd s), 1)
      else if (r, n) = (rune_error, 1) then (backslash # ''ufffd'', 1)
      else if r = 0x2028 \<or> r = 0x2029 then (backslash # ''u202'' @ [hex_char (r mod 16)], n)
      else (take n s, n))"

lemma rune_escape_size: "s \<noteq> [] \<Longrightarrow> 1 \<le> snd (rune_escape s)"
  using decode_rune_size[of s] by (auto simp: rune_escape_def Let_def split: prod.splits)

function marshal_string :: "string \<Rightarrow> string" where
  "marshal_string s =
     (if s = [] then [] else fst (rune_escape s) @ marshal_string (drop (snd (rune_escape s)) s))"
  by pat_completeness auto
termination
proof (relation "measure length", goal_cases)
  case (2 s)
  with rune_escape_size[of s] show ?case by simp
qed simp

declare marshal_string.simps [simp del]

lemma hex_digit_char: "n < 16 \<Longrightarrow> hex_digit (hex_char n) = Some n"
proof -
  have "list_all (\<lambda>n. hex_digit (hex_char n) = Some n) [0..<16]" by code_simp
  then show "n < 16 \<Longrightarrow> hex_digit (hex_char n) = Some n" by (simp add: list_all_iff)
qed

lemma push_or: "d < 16 \<Longrightarrow> push_bit 4 v OR d = v * 16 + (d::nat)"
proof -
  assume d: "d < 16"
  have "take_bit 4 d = d" using d by (simp add: take_bit_eq_mod)
  then have "push_bit 4 v AND d = 0" by (metis bit_eqI bit_and_iff bit_push_bit_iff bit_take_bit_iff bit_0_eq bot_apply bot_bool_def not_le)
  then have "push_bit 4 v + d = push_bit 4 v OR d" by (rule disjunctive_add_eq_or)
  then show ?thesis by (simp add: push_bit_eq_mult)
qed

text \<open>How \<open>unescape\<close> sees plain bytes and escapes.\<close>

lemma unescape_quote [simp]: "unescape e (quote # t) = ([], None, t)"
  by (simp add: unescape.simps)

lemma unescape_plain:
  "\<forall>c\<in>set u. c \<noteq> quote \<and> c \<noteq> backslash \<Longrightarrow> unescape e (u @ t) = prepend u (unescape e t)"
proof (induction u)
  case (Cons c u)
  have "unescape e ((c # u) @ t) = prepend [c] (unescape e (u @ t))"
    using Cons.prems by (simp add: unescape.simps[of e "c # u @ t"] prepend_def split: prod.splits)
  then show ?case using Cons by simp
qed simp

lemma unescape_escape:
  "readEscape (w @ t) = (Some out, t) \<Longrightarrow> unescape e (backslash # w @ t) = prepend out (unescape e t)"
  by (simp add: unescape.simps[of e "backslash # w @ t"] prepend_def split: prod.splits)

definition hex4 :: "nat \<Rightarrow> string" where
  "hex4 n = [hex_char (n div 4096), hex_char (n div 256 mod 16), hex_char (n div 16 mod 16), hex_char (n mod 16)]"

lemma readHex4_hex4: "n < 65536 \<Longrightarrow> readHex4 (hex4 n @ t) = (Some n, t)"
proof -
  assume n: "n < 65536"
  have e: "n div 256 = n div 16 div 16" "n div 4096 = n div 16 div 16 div 16" by (simp_all add: div_mult2_eq[symmetric])
  have l: "n div 4096 < 16" using n by (simp add: less_mult_imp_div_less)
  have "((n div 4096 * 16 + n div 256 mod 16) * 16 + n div 16 mod 16) * 16 + n mod 16 = n"
    unfolding e by (simp only: div_mult_mod_eq)
  moreover have "(4::nat) = Suc (Suc (Suc (Suc 0)))" by simp
  then have "readHex4 u = hex_loop (Suc (Suc (Suc (Suc 0)))) 0 u" for u by (simp only: readHex4_def)
  ultimately show ?thesis using l by (simp add: hex4_def hex_digit_char push_or)
qed

text \<open>The escapes of a code point: one, or a surrogate pair.\<close>

definition u_escape :: "nat \<Rightarrow> string" where
  "u_escape cp =
     (if cp < 0x10000 then backslash # CHR ''u'' # hex4 cp
      else (backslash # CHR ''u'' # hex4 (0xD800 + (cp - 0x10000) div 1024)) @
           (backslash # CHR ''u'' # hex4 (0xDC00 + (cp - 0x10000) mod 1024)))"

lemma unescape_u:
  assumes "scalar cp"
  shows "unescape e (u_escape cp @ t) = prepend (encodeRune cp) (unescape e t)"
proof (cases "cp < 0x10000")
  case True
  have "readEscape ((CHR ''u'' # hex4 cp) @ t) = (Some (encodeRune cp), t)"
  proof -
    have "\<not> (0xD800 \<le> cp \<and> cp \<le> 0xDBFF)" "\<not> (0xDC00 \<le> cp \<and> cp \<le> 0xDFFF)" "cp < 65536"
      using True assms by (auto simp: scalar_def)
    then have "readUnicodeEscape (hex4 cp @ t) = (Some (encodeRune cp), t)"
      unfolding readUnicodeEscape_def by (simp only: readHex4_hex4 prod.case option.case if_False)
    then show ?thesis by simp
  qed
  from unescape_escape[OF this, of e] show ?thesis using True by (simp add: u_escape_def)
next
  case False
  let ?d = "cp - 0x10000"
  have c: "cp < 0x110000" using assms by (simp add: scalar_def)
  then have h: "?d div 1024 < 1024" by (simp add: less_mult_imp_div_less)
  have s: "push_bit 10 (?d div 1024) = ?d div 1024 * 1024" by (simp add: push_bit_eq_mult)
  have cp: "0x10000 + ?d div 1024 * 1024 + ?d mod 1024 = cp" using False by simp
  have m: "?d mod 1024 < 1024" by simp
  let ?h = "hex4 (0xD800 + ?d div 1024)" and ?l = "hex4 (0xDC00 + ?d mod 1024)"
  have r1: "readHex4 (?h @ backslash # CHR ''u'' # ?l @ t) = (Some (0xD800 + ?d div 1024), backslash # CHR ''u'' # ?l @ t)"
    by (rule readHex4_hex4) (use h in linarith)
  have r2: "readHex4 (?l @ t) = (Some (0xDC00 + ?d mod 1024), t)"
    by (rule readHex4_hex4) (use m in linarith)
  have le: "55296 + ?d div 1024 \<le> 56319" using h by linarith
  have le2: "\<not> 57343 < 56320 + ?d mod 1024" using m by linarith
  have "readUnicodeEscape (?h @ backslash # CHR ''u'' # ?l @ t) = (Some (encodeRune cp), t)"
    unfolding readUnicodeEscape_def r1 using le le2 r2 s cp by (simp del: push_bit_numeral)
  then have "readEscape ((CHR ''u'' # ?h @ backslash # CHR ''u'' # ?l) @ t) = (Some (encodeRune cp), t)" by simp
  from unescape_escape[OF this, of e] show ?thesis using False by (simp add: u_escape_def)
qed

lemma unescape_ascii:
  assumes "code c < 128"
  shows "unescape e (ascii_escape c @ t) = prepend [c] (unescape e t)"
proof (cases "html_safe c")
  case True
  then show ?thesis using unescape_plain[of "[c]" e t] by (simp add: ascii_escape_def html_safe_def)
next
  case False
  let ?u = "[CHR ''u'', CHR ''0'', CHR ''0'', hex_char (code c div 16), hex_char (code c mod 16)]"
  have z: "hex4 (code c) = [CHR ''0'', CHR ''0'', hex_char (code c div 16), hex_char (code c mod 16)]"
    using assms by (simp add: hex4_def hex_char_def less_mult_imp_div_less)
  have "readEscape (?u @ t) = (Some [c], t)"
    using readHex4_hex4[of "code c" t] assms z
    by (simp add: readUnicodeEscape_def encodeRune_arith)
  from unescape_escape[OF this, of e]
  have u: "unescape e (backslash # ?u @ t) = prepend [c] (unescape e t)" .
  have one: "readEscape ([x] @ t) = (Some [c], t) \<Longrightarrow> unescape e ([backslash, x] @ t) = prepend [c] (unescape e t)" for x
    using unescape_escape[of "[x]" t "[c]" e] by simp
  show ?thesis using False u one by (auto simp: ascii_escape_def)
qed

lemma encodeRune_high: "0x80 \<le> r \<Longrightarrow> r < 0x110000 \<Longrightarrow> c \<in> set (encodeRune r) \<Longrightarrow> 128 \<le> code c"
proof -
  assume r: "0x80 \<le> r" "r < 0x110000" and c: "c \<in> set (encodeRune r)"
  have b: "c = byte n \<Longrightarrow> 128 \<le> n \<Longrightarrow> n < 256 \<Longrightarrow> 128 \<le> code c" for n by (simp add: code_byte)
  have m: "m mod 64 < 64" for m :: nat by simp
  note dig = m[of r] m[of "r div 64"] m[of "r div 4096"]
  consider (two) "r < 0x800" | (three) "0x800 \<le> r" "r < 0x10000" | (four) "0x10000 \<le> r" by linarith
  then show ?thesis
  proof cases
    case two
    have "r div 64 < 32" using two by (simp add: less_mult_imp_div_less)
    moreover have "c = byte (192 + r div 64) \<or> c = byte (128 + r mod 64)" using two r c by (simp add: encodeRune_arith)
    ultimately show ?thesis using dig(1) b by fastforce
  next
    case three
    have "r div 4096 < 16" using three by (simp add: less_mult_imp_div_less)
    moreover have "c = byte (224 + r div 4096) \<or> c = byte (128 + r div 64 mod 64) \<or> c = byte (128 + r mod 64)"
      using three r c by (simp add: encodeRune_arith)
    ultimately show ?thesis using dig(1,2) b by fastforce
  next
    case four
    have "r div 262144 < 8" using r by (simp add: less_mult_imp_div_less)
    moreover have "c = byte (240 + r div 262144) \<or> c = byte (128 + r div 4096 mod 64) \<or> c = byte (128 + r div 64 mod 64) \<or>
        c = byte (128 + r mod 64)" using four r c by (simp add: encodeRune_arith)
    ultimately show ?thesis using dig b by fastforce
  qed
qed

lemma unescape_rune:
  assumes "s \<noteq> []"
  shows "unescape e (fst (rune_escape s) @ t) =
    prepend (if decode_rune s = (rune_error, 1) then [CHR 0xEF, CHR 0xBF, CHR 0xBD] else take (snd (decode_rune s)) s) (unescape e t)"
proof -
  obtain r n where d: "decode_rune s = (r, n)" by fastforce
  obtain c s' where s: "s = c # s'" using assms by (cases s) auto
  consider (ascii) "code c < 128" | (bad) "128 \<le> code c" "(r, n) = (rune_error, 1)"
    | (multi) "128 \<le> code c" "(r, n) \<noteq> (rune_error, 1)" by linarith
  then show ?thesis
  proof cases
    case ascii
    then show ?thesis using unescape_ascii[OF ascii, of e t]
      by (simp add: rune_escape_def s decode_rune_ascii rune_error_def)
  next
    case bad
    have "u_escape 0xFFFD = backslash # ''ufffd''" by (simp add: u_escape_def hex4_def hex_char_def)
    moreover have "byte 239 = CHR 0xEF" "byte 191 = CHR 0xBF" "byte 189 = CHR 0xBD" by code_simp+
    then have "encodeRune 0xFFFD = [CHR 0xEF, CHR 0xBF, CHR 0xBD]" by (simp add: encodeRune_arith)
    moreover have "scalar 0xFFFD" by (simp add: scalar_def)
    ultimately show ?thesis using unescape_u[of "0xFFFD" e t] bad d s by (simp add: rune_escape_def)
  next
    case multi
    have e: "take n s = encodeRune r" "scalar r" using encode_decode[OF assms] multi d by auto
    have hi: "0x80 \<le> r"
    proof (rule ccontr)
      assume "\<not> 0x80 \<le> r"
      moreover from this have "encodeRune r = [byte r]" by (simp add: encodeRune_def)
      ultimately have "code c = r" using e s by (cases n) auto
      then show False using multi \<open>\<not> 0x80 \<le> r\<close> by simp
    qed
    show ?thesis
    proof (cases "r = 0x2028 \<or> r = 0x2029")
      case True
      have "u_escape 0x2028 = backslash # ''u202'' @ [hex_char 8]" "u_escape 0x2029 = backslash # ''u202'' @ [hex_char 9]"
        by (simp_all add: u_escape_def hex4_def hex_char_def)
      then have "fst (rune_escape s) = u_escape r" using True multi d s by (auto simp: rune_escape_def)
      then show ?thesis using unescape_u[OF e(2)] multi d e by auto
    next
      case False
      have "\<forall>x\<in>set (take n s). x \<noteq> quote \<and> x \<noteq> backslash"
        using encodeRune_high[OF hi] e by (fastforce simp: scalar_def)
      moreover have "fst (rune_escape s) = take n s" using False multi d s by (simp add: rune_escape_def)
      ultimately show ?thesis using unescape_plain multi d by auto
    qed
  qed
qed

lemma unescape_marshal: "unescape e (marshal_string s @ quote # t) = (utf8_coerce s, None, t)"
proof (induction s rule: marshal_string.induct)
  case (1 s)
  show ?case
  proof (cases "s = []")
    case True
    then show ?thesis by (simp add: marshal_string.simps utf8_coerce.simps)
  next
    case False
    obtain r n where d: "decode_rune s = (r, n)" by fastforce
    have n: "snd (rune_escape s) = n"
      using d False decode_rune_ascii[of "hd s" "tl s"] by (auto simp: rune_escape_def Let_def)
    have "unescape e (marshal_string s @ quote # t) =
        unescape e (fst (rune_escape s) @ marshal_string (drop n s) @ quote # t)"
      using False n by (subst marshal_string.simps) simp
    also have "\<dots> = prepend (if (r, n) = (rune_error, 1) then [CHR 0xEF, CHR 0xBF, CHR 0xBD] else take n s)
        (utf8_coerce (drop n s), None, t)"
      using unescape_rune[OF False] 1[OF False] d n by simp
    also have "\<dots> = (utf8_coerce s, None, t)" using False d by (subst (2) utf8_coerce.simps) auto
    finally show ?thesis .
  qed
qed

text \<open>A string value with its quotes.\<close>

definition jstr :: "string \<Rightarrow> string" where
  "jstr v = quote # marshal_string v @ [quote]"

section \<open>Properties\<close>

text \<open>C13. The streaming reader computes the whole-value specification through reads of any sizes:
  however the caller's windows cut the string, and wherever an escape straddles a window, the bytes,
  the outcome (closed, malformed, or the body's own error) and the input left unread are those of
  \<open>unescape\<close>.\<close>

theorem jsonStringReader_equivalent:
  "read_all e window i (newJSONStringReader s) = unescape e s"
  by (simp only: read_all_remaining remaining_new)

text \<open>C29. What \<open>encoding/json\<close> writes for any byte string the reader reads back: the string
  itself with invalid UTF-8 replaced by U+FFFD, whatever follows the closing quote and whatever the
  windows; and both escape forms of every code point, surrogate pairs included, are its UTF-8.\<close>

theorem json_string_roundtrip:
  "read_all e window i (newJSONStringReader (marshal_string s @ quote # t)) = (utf8_coerce s, None, t) \<and>
   (scalar cp \<longrightarrow>
     read_all e window i (newJSONStringReader (u_escape cp @ quote # t)) = (encodeRune cp, None, t) \<and>
     decode_rune (encodeRune cp @ t) = (cp, length (encodeRune cp)))"
  using unescape_u[of cp e "quote # t"] decode_encode[of cp t]
  by (simp only: read_all_remaining remaining_new unescape_marshal unescape_quote prepend_simps append_Nil2) simp

theorem json_string_roundtrip_witness:
  "decode_rune (encodeRune 0x1F600) = (0x1F600, 4) \<and>
   read_all CleanEOF (\<lambda>i. 0) 0 (newJSONStringReader (u_escape 0x1F600 @ quote # ''}'')) = (encodeRune 0x1F600, None, ''}'')"
proof -
  have "scalar 0x1F600" "length (encodeRune 0x1F600) = 4" by (simp_all add: scalar_def encodeRune_def)
  then show ?thesis
    using json_string_roundtrip[of CleanEOF "\<lambda>i. 0" 0 "[]" "''}''" "0x1F600"]
      json_string_roundtrip[of CleanEOF "\<lambda>i. 0" 0 "[]" "[]" "0x1F600"] by simp
qed

end
