(* ===== verification/Gate.thy ===== *)
theory Gate
  imports Classify Auth JsonStream
begin

text \<open>
  \<open>gate.go\<close>: who may use a route. A request carries what the gates read of \<open>http.Request\<close>; the
  header map is the list of values of a key, the query map the first value; the body is
  its bytes and how it ends.
\<close>

section \<open>Options and requests\<close>

datatype ListenKind = ListenUnixSocket | ListenLoopbackTCP | ListenTailscale

record server_options =
  so_token :: string
  so_listen :: ListenKind
  so_peerHost :: string
  so_maxBytes :: int
  so_version :: string

record request =
  rq_method :: string
  rq_remote :: string
  rq_header :: "string \<Rightarrow> string list"
  rq_query :: "string \<Rightarrow> string"
  rq_length :: int
  rq_body :: "string \<times> read_end"

text \<open>\<open>classOf\<close>, the class passed on to \<open>Ingest\<close>.\<close>

definition classOf :: "server_options \<Rightarrow> SourceClass" where
  "classOf o' = (if so_listen o' = ListenTailscale then Peer else Loopback)"

section \<open>The gates\<close>

definition tokenHeader :: string where
  "tokenHeader = ''X-ClipBeam-Token''"

definition remoteHost :: "request \<Rightarrow> string" where
  "remoteHost r = RemoteEndpoint (rq_remote r)"

definition headerPtr :: "request \<Rightarrow> string \<Rightarrow> string option" where
  "headerPtr r key = (case rq_header r key of [] \<Rightarrow> None | v # _ \<Rightarrow> Some v)"

definition clipGate :: "server_options \<Rightarrow> request \<Rightarrow> nat \<times> string" where
  "clipGate opts r =
     (let forbidden =
        (case so_listen opts of
           ListenTailscale \<Rightarrow> Classify (remoteHost r) (so_peerHost opts) \<noteq> Peer
         | ListenLoopbackTCP \<Rightarrow>
             (let cls = Classify (remoteHost r) (so_peerHost opts) in cls \<noteq> Loopback \<and> cls \<noteq> Peer)
         | ListenUnixSocket \<Rightarrow> False)
      in if forbidden then (403, ''forbidden'')
         else if \<not> ConstantTimeEquals (headerPtr r tokenHeader) (so_token opts) then (401, ''unauthorized'')
         else (0, []))"

definition controlAuthorized :: "server_options \<Rightarrow> request \<Rightarrow> nat \<times> string" where
  "controlAuthorized opts r =
     (case so_listen opts of
        ListenUnixSocket \<Rightarrow> (0, [])
      | _ \<Rightarrow>
          if Classify (remoteHost r) (so_peerHost opts) \<noteq> Loopback then (403, ''forbidden'')
          else if \<not> ConstantTimeEquals (headerPtr r tokenHeader) (so_token opts) then (401, ''unauthorized'')
          else (0, []))"

text \<open>The token check of either gate, as a function of the first header value.\<close>

definition token_verdict :: "server_options \<Rightarrow> request \<Rightarrow> nat \<times> string" where
  "token_verdict opts r = (if headerPtr r tokenHeader = Some (so_token opts) then (0, []) else (401, ''unauthorized''))"

lemma clipGate_class:
  "clipGate opts r =
     (if so_listen opts = ListenTailscale \<and> Classify (remoteHost r) (so_peerHost opts) \<noteq> Peer \<or>
         so_listen opts = ListenLoopbackTCP \<and> Classify (remoteHost r) (so_peerHost opts) \<notin> {Loopback, Peer}
      then (403, ''forbidden'') else token_verdict opts r)"
  by (cases "so_listen opts") (auto simp: clipGate_def token_verdict_def ConstantTimeEquals_exact Let_def)

lemma controlAuthorized_class:
  "controlAuthorized opts r =
     (if so_listen opts = ListenUnixSocket then (0, [])
      else if Classify (remoteHost r) (so_peerHost opts) \<noteq> Loopback then (403, ''forbidden'')
      else token_verdict opts r)"
  by (cases "so_listen opts") (simp_all add: controlAuthorized_def token_verdict_def ConstantTimeEquals_exact)

lemma gates_status:
  "fst (clipGate opts r) \<in> {0, 401, 403}" "fst (controlAuthorized opts r) \<in> {0, 401, 403}"
  by (simp_all add: clipGate_class controlAuthorized_class token_verdict_def)

section \<open>Properties\<close>

text \<open>C16. Who is let in. For a TCP source of IPv4 address x, however the socket writes it, the clip route
  is open on the tailnet bind exactly to the configured peer, on the loopback bind exactly to
  127/8 and the peer, with the token in the first header value in both cases; the control routes
  are open on a TCP bind exactly to 127/8 with that token; and on the unix socket the address plays
  no part: the clip route needs the token, the control routes nothing. A source refused by its class
  learns nothing about the token: the verdict is 403 whatever it presents.\<close>

theorem gates_exact:
  assumes "octets x" and "octets p" and "zone_ok z" and "zone_ok zp"
    and "rq_remote r \<in> {plain_remote (quad_of x) port, mapped_remote (quad_of x) z port}"
    and "so_peerHost opts \<in> {quad_of p, mapped (quad_of p) @ zone_suffix zp}"
  shows "clipGate opts r =
     (case so_listen opts of
        ListenUnixSocket \<Rightarrow> token_verdict opts r
      | ListenLoopbackTCP \<Rightarrow> if x = p \<or> x ! 0 = 127 then token_verdict opts r else (403, ''forbidden'')
      | ListenTailscale \<Rightarrow> if x = p then token_verdict opts r else (403, ''forbidden'')) \<and>
   controlAuthorized opts r =
     (case so_listen opts of
        ListenUnixSocket \<Rightarrow> (0, [])
      | _ \<Rightarrow> if x \<noteq> p \<and> x ! 0 = 127 then token_verdict opts r else (403, ''forbidden''))"
proof -
  have c: "Classify (remoteHost r) (so_peerHost opts) = v4_class x p"
    unfolding remoteHost_def by (rule Classify_remote[OF assms])
  show ?thesis
    by (cases "so_listen opts") (auto simp: clipGate_class controlAuthorized_class c v4_class_def)
qed

definition witness_options :: server_options where
  "witness_options = \<lparr>so_token = ''T'', so_listen = ListenTailscale, so_peerHost = ''100.1.2.3'', so_maxBytes = 0, so_version = ''v''\<rparr>"

definition witness_request :: request where
  "witness_request = \<lparr>rq_method = ''POST'', rq_remote = ''100.1.2.3:9'',
     rq_header = (\<lambda>k. if k = tokenHeader then [''T''] else []), rq_query = (\<lambda>k. []), rq_length = 0, rq_body = ([], CleanEOF)\<rparr>"

theorem gates_exact_witness:
  "clipGate witness_options witness_request = (0, []) \<and>
   controlAuthorized witness_options witness_request = (403, ''forbidden'')"
proof -
  have q: "quad_of [100, 1, 2, 3] = ''100.1.2.3''"
    by code_simp
  have "plain_remote (quad_of [100, 1, 2, 3]) 9 = ''100.1.2.3:9''"
    by code_simp
  then show ?thesis
    using gates_exact[of "[100, 1, 2, 3]" "[100, 1, 2, 3]" "[]" "[]" witness_request 9 witness_options] q
    by (simp add: octets_def zone_ok_def witness_options_def witness_request_def token_verdict_def headerPtr_def)
qed

end
