(* ===== verification/JsonRead.thy ===== *)
theory JsonRead
  imports JsonStream
begin

text \<open>
  The forward JSON helpers of \<open>clip.go\<close>: whitespace, expected bytes, short strings, null, the
  bare version number, and the structural skip of unknown values. A helper maps the unread input
  to its value and the input after it, or to the error the parse ends with. The recursion of the
  skip is bounded by fuel, and enough fuel is computed from the length of the input.
\<close>

section \<open>Errors\<close>

text \<open>\<open>CeWire\<close> is an error of the body itself (the byte ceiling, the network), \<open>CeBadString\<close> is
  \<open>errBadJSONString\<close>, \<open>CeUnexpectedEOF\<close> is \<open>io.ErrUnexpectedEOF\<close>, \<open>CeScratch\<close> an error of the
  scratch directory or file.\<close>

datatype clip_error =
  CeIncomplete | CeMalformed | CeUnsupported | CeBadString | CeWire read_end | CeUnexpectedEOF | CeScratch | CeFuel

type_synonym 'a parsed = "(clip_error, 'a) result"

definition jerr_error :: "jerr \<Rightarrow> clip_error" where
  "jerr_error x = (case x of JRead w \<Rightarrow> CeWire w | _ \<Rightarrow> CeBadString)"

section \<open>Bytes and strings\<close>

definition is_ws :: "char \<Rightarrow> bool" where
  "is_ws b \<longleftrightarrow> b = CHR '' '' \<or> b = CHR 0x09 \<or> b = CHR 0x0A \<or> b = CHR 0x0D"

fun skipWS :: "read_end \<Rightarrow> string \<Rightarrow> string parsed" where
  "skipWS e [] = Inl (if e = CleanEOF then CeIncomplete else CeWire e)"
| "skipWS e (b # s) = (if is_ws b then skipWS e s else Inr (b # s))"

text \<open>\<open>ReadByte\<close> after \<open>skipWS\<close>: any failure is an incomplete body.\<close>

definition next_byte :: "read_end \<Rightarrow> string \<Rightarrow> (char \<times> string) parsed" where
  "next_byte e s =
     bind_result (skipWS e s) (\<lambda>s1. case s1 of [] \<Rightarrow> Inl CeIncomplete | b # s2 \<Rightarrow> Inr (b, s2))"

definition expectByte :: "read_end \<Rightarrow> char \<Rightarrow> string \<Rightarrow> string parsed" where
  "expectByte e want s = bind_result (next_byte e s) (\<lambda>(b, s1). if b \<noteq> want then Inl CeMalformed else Inr s1)"

definition skipWSThen :: "read_end \<Rightarrow> char \<Rightarrow> string \<Rightarrow> string parsed" where
  "skipWSThen e want s = bind_result (next_byte e s) (\<lambda>(b, s1). if b \<noteq> want then Inl CeMalformed else Inr s1)"

text \<open>\<open>io.ReadAll\<close> over the string reader; its first window has 512 bytes.\<close>

definition readShortJSONString :: "read_end \<Rightarrow> string \<Rightarrow> (string \<times> string) parsed" where
  "readShortJSONString e s =
     (case read_all e (\<lambda>i. 511) 0 (newJSONStringReader s) of
        (b, None, s1) \<Rightarrow> Inr (b, s1)
      | (b, Some x, s1) \<Rightarrow> Inl (jerr_error x))"

definition readJSONStringValue :: "read_end \<Rightarrow> string \<Rightarrow> (string \<times> string) parsed" where
  "readJSONStringValue e s = bind_result (skipWSThen e quote s) (readShortJSONString e)"

definition tryConsumeNull :: "read_end \<Rightarrow> string \<Rightarrow> (bool \<times> string) parsed" where
  "tryConsumeNull e s =
     bind_result (next_byte e s) (\<lambda>(b, s1).
       if b \<noteq> CHR ''n'' then Inr (False, b # s1)
       else if has_prefix s1 ''ull'' then Inr (True, drop 3 s1) else Inl CeMalformed)"

definition readJSONStringOrNull :: "read_end \<Rightarrow> string \<Rightarrow> (string option \<times> string) parsed" where
  "readJSONStringOrNull e s =
     bind_result (tryConsumeNull e s) (\<lambda>(null, s1).
       if null then Inr (None, s1)
       else bind_result (readJSONStringValue e s1) (\<lambda>(v, s2). Inr (Some v, s2)))"

section \<open>The version number\<close>

definition num_byte :: "char \<Rightarrow> bool" where
  "num_byte b \<longleftrightarrow> is_digit b \<or> b = CHR ''-'' \<or> b = CHR ''+''"

fun num_loop :: "read_end \<Rightarrow> string \<Rightarrow> (string \<times> string) parsed" where
  "num_loop e [] = (if e = CleanEOF then Inr ([], []) else Inl (CeWire e))"
| "num_loop e (b # s) =
     (if num_byte b then bind_result (num_loop e s) (\<lambda>(ds, s1). Inr (b # ds, s1))
      else if b = CHR ''.'' \<or> b = CHR ''e'' \<or> b = CHR ''E'' then Inr ([], dropWhile num_byte s)
      else Inr ([], b # s))"

definition readJSONNumber :: "read_end \<Rightarrow> string \<Rightarrow> (int \<times> string) parsed" where
  "readJSONNumber e s =
     bind_result (skipWS e s) (\<lambda>s1.
       bind_result (num_loop e s1) (\<lambda>(digits, s2).
         if digits = [] then Inl CeMalformed
         else (case atoi digits of None \<Rightarrow> Inl CeMalformed | Some n \<Rightarrow> Inr (n, s2))))"

section \<open>Skipping a value\<close>

definition number_byte :: "char \<Rightarrow> bool" where
  "number_byte c \<longleftrightarrow> num_byte c \<or> c = CHR ''.'' \<or> c = CHR ''e'' \<or> c = CHR ''E''"

definition lower_byte :: "char \<Rightarrow> bool" where
  "lower_byte c \<longleftrightarrow> CHR ''a'' \<le> c \<and> c \<le> CHR ''z''"

fun skip_value :: "nat \<Rightarrow> read_end \<Rightarrow> string \<Rightarrow> string parsed"
  and skipContainer :: "nat \<Rightarrow> read_end \<Rightarrow> char \<Rightarrow> string \<Rightarrow> string parsed" where
  "skip_value 0 e s = Inl CeFuel"
| "skip_value (Suc f) e s =
     (case next_byte e s of
        Inl x \<Rightarrow> Inl x
      | Inr (b, s1) \<Rightarrow>
          if b = quote then map_sum id snd (readShortJSONString e s1)
          else if b = CHR ''{'' then skipContainer f e (CHR ''}'') s1
          else if b = CHR ''['' then skipContainer f e (CHR '']'') s1
          else if b = CHR ''t'' \<or> b = CHR ''f'' \<or> b = CHR ''n'' then Inr (dropWhile lower_byte s1)
          else Inr (dropWhile number_byte s1))"
| "skipContainer 0 e cl s = Inl CeFuel"
| "skipContainer (Suc f) e cl s =
     (case next_byte e s of
        Inl x \<Rightarrow> Inl x
      | Inr (b, s1) \<Rightarrow>
          if b = cl then Inr s1
          else if b = CHR '','' \<or> b = CHR '':'' then skipContainer f e cl s1
          else (case skip_value f e (b # s1) of
              Inl x \<Rightarrow> Inl x
            | Inr s2 \<Rightarrow> skipContainer f e cl s2))"

definition skipJSONValue :: "read_end \<Rightarrow> string \<Rightarrow> string parsed" where
  "skipJSONValue e s = skip_value (2 * length s + 1) e s"

section \<open>The input shrinks\<close>

named_theorems shrink \<open>the input after a helper is shorter\<close>

lemma skipWS_length: "skipWS e s = Inr s' \<Longrightarrow> length s' \<le> length s \<and> (\<exists>b r. s' = b # r \<and> \<not> is_ws b)"
  by (induction e s rule: skipWS.induct) (auto split: if_splits)

lemma next_byte_length [shrink]: "next_byte e s = Inr (b, s') \<Longrightarrow> length s' < length s \<and> \<not> is_ws b"
proof -
  assume n: "next_byte e s = Inr (b, s')"
  then have w: "skipWS e s = Inr (b # s')" by (auto simp: next_byte_def split: list.splits) (metis neq_Nil_conv)
  from skipWS_length[OF w] show ?thesis by auto
qed

lemma unescape_length: "unescape e s = (bs, err, s') \<Longrightarrow> length bs + length s' \<le> length s \<and> (err = None \<longrightarrow> length s' < length s)"
proof (induction e s arbitrary: bs err s' rule: unescape.induct)
  case (1 e s)
  show ?case
  proof (cases s)
    case Nil
    then show ?thesis using "1.prems" by (auto simp: unescape.simps)
  next
    case (Cons b s1)
    consider (q) "b = quote" | (esc) "b \<noteq> quote" "b = backslash" | (plain) "b \<noteq> quote" "b \<noteq> backslash" by blast
    then show ?thesis
    proof cases
      case q
      then show ?thesis using "1.prems" Cons by auto
    next
      case esc
      obtain ro s2 where ro: "readEscape s1 = (ro, s2)" by fastforce
      show ?thesis
      proof (cases ro)
        case None
        then show ?thesis using "1.prems" Cons esc ro readEscape_length[OF ro]
          by (auto simp: unescape.simps[of e "c # s1" for c])
      next
        case (Some out)
        obtain m er r where u: "unescape e s2 = (m, er, r)" by (metis prod_cases3)
        have "bs = out @ m" "err = er" "s' = r"
          using "1.prems" Cons esc ro Some u by (auto simp: unescape.simps[of e "c # s1" for c])
        then show ?thesis
          using "1.IH"(1)[OF Cons esc ro[symmetric] Some u] readEscape_Some[OF ro[unfolded Some]] Cons by auto
      qed
    next
      case plain
      obtain m er r where u: "unescape e s1 = (m, er, r)" by (metis prod_cases3)
      have "bs = b # m" "err = er" "s' = r"
        using "1.prems" Cons plain u by (auto simp: unescape.simps[of e "c # s1" for c])
      then show ?thesis using "1.IH"(2)[OF Cons plain u] Cons by auto
    qed
  qed
qed

lemma readShortJSONString_eq:
  "readShortJSONString e s = (case unescape e s of (b, None, s1) \<Rightarrow> Inr (b, s1) | (b, Some x, s1) \<Rightarrow> Inl (jerr_error x))"
  by (simp add: readShortJSONString_def read_all_remaining remaining_new)

lemma readShort_length [shrink]: "readShortJSONString e s = Inr (b, s') \<Longrightarrow> length s' < length s"
  by (auto simp: readShortJSONString_eq split: prod.splits option.splits dest: unescape_length)

lemma skipWSThen_length [shrink]: "skipWSThen e w s = Inr s' \<Longrightarrow> length s' < length s"
  by (auto simp: skipWSThen_def split: if_splits dest: next_byte_length)

lemma readJSONStringValue_length [shrink]: "readJSONStringValue e s = Inr (v, s') \<Longrightarrow> length s' < length s"
  by (auto simp: readJSONStringValue_def dest!: readShort_length skipWSThen_length)

lemma tryConsumeNull_length [shrink]: "tryConsumeNull e s = Inr (n, s') \<Longrightarrow> length s' \<le> length s"
  by (fastforce simp: tryConsumeNull_def split: if_splits dest: next_byte_length)

lemma readJSONStringOrNull_length [shrink]: "readJSONStringOrNull e s = Inr (v, s') \<Longrightarrow> length s' \<le> length s"
  by (fastforce simp: readJSONStringOrNull_def split: if_splits dest!: readJSONStringValue_length tryConsumeNull_length)

lemma num_loop_length: "num_loop e s = Inr (ds, s') \<Longrightarrow> length s' \<le> length s"
proof (induction e s arbitrary: ds rule: num_loop.induct)
  case (2 e b s)
  then show ?case using length_dropWhile_le[of num_byte s] by (fastforce split: if_splits)
qed (auto split: if_splits)

lemma readJSONNumber_length [shrink]: "readJSONNumber e s = Inr (n, s') \<Longrightarrow> length s' \<le> length s"
  by (fastforce simp: readJSONNumber_def split: if_splits option.splits dest: num_loop_length skipWS_length)

lemma skip_length:
  "skip_value f e s = Inr s' \<Longrightarrow> length s' < length s"
  "skipContainer f e cl s = Inr s' \<Longrightarrow> length s' < length s"
proof (induction f e s and f e cl s arbitrary: s' and s' rule: skip_value_skipContainer.induct)
  case (2 f e s)
  obtain b s1 where nb: "next_byte e s = Inr (b, s1)" using "2.prems" by (auto split: sum.splits)
  have l: "length s1 < length s" using next_byte_length[OF nb] by simp
  have dw: "length (dropWhile P s1) \<le> length s1" for P by (rule length_dropWhile_le)
  show ?case using "2.prems" "2.IH"[OF nb refl] nb l dw[of lower_byte] dw[of number_byte]
    by (cases "readShortJSONString e s1") (fastforce split: if_splits dest: readShort_length)+
next
  case (4 f e cl s)
  obtain b s1 where nb: "next_byte e s = Inr (b, s1)" using "4.prems" by (auto split: sum.splits)
  have l: "length s1 < length s" using next_byte_length[OF nb] by simp
  show ?case
  proof (cases "b = cl \<or> b = CHR '','' \<or> b = CHR '':''")
    case True
    then show ?thesis using "4.prems" "4.IH"(1)[OF nb refl] nb l by (fastforce split: if_splits)
  next
    case False
    then obtain s2 where s2: "skip_value f e (b # s1) = Inr s2" "skipContainer f e cl s2 = Inr s'"
      using "4.prems" nb by (auto split: sum.splits)
    then have "length s2 < length (b # s1)" "length s' < length s2"
      using "4.IH"(2,3)[OF nb refl] False by auto
    then show ?thesis using l by simp
  qed
qed auto

lemma skipJSONValue_length [shrink]: "skipJSONValue e s = Inr s' \<Longrightarrow> length s' \<le> length s"
  using skip_length(1) unfolding skipJSONValue_def by fastforce

text \<open>Fuel linear in the length is enough.\<close>

lemma reader_not_fuel:
  "skipWS e s \<noteq> Inl CeFuel" "next_byte e s \<noteq> Inl CeFuel" "readShortJSONString e s \<noteq> Inl CeFuel"
proof -
  show w: "skipWS e s \<noteq> Inl CeFuel" by (induction e s rule: skipWS.induct) auto
  then show "next_byte e s \<noteq> Inl CeFuel"
    by (cases "skipWS e s") (auto simp: next_byte_def split: list.splits)
  show "readShortJSONString e s \<noteq> Inl CeFuel"
    by (auto simp: readShortJSONString_eq jerr_error_def split: prod.splits option.splits jerr.splits)
qed

lemma skip_enough:
  "2 * length s + 1 \<le> f \<Longrightarrow> skip_value f e s \<noteq> Inl CeFuel"
  "2 * length s + 2 \<le> f \<Longrightarrow> skipContainer f e cl s \<noteq> Inl CeFuel"
proof (induction f e s and f e cl s rule: skip_value_skipContainer.induct)
  case (2 f e s)
  show ?case
  proof (cases "next_byte e s")
    case (Inl x)
    then show ?thesis using reader_not_fuel(2)[of e s] by simp
  next
    case (Inr bs)
    obtain b s1 where nb: "next_byte e s = Inr (b, s1)" using Inr by (cases bs) auto
    have l: "2 * length s1 + 2 \<le> f" using next_byte_length[OF nb] "2.prems" by simp
    show ?thesis using "2.IH"[OF nb refl] l nb reader_not_fuel(3)[of e s1]
      by (cases "readShortJSONString e s1") auto
  qed
next
  case (4 f e cl s)
  show ?case
  proof (cases "next_byte e s")
    case (Inl x)
    then show ?thesis using reader_not_fuel(2)[of e s] by simp
  next
    case (Inr bs)
    obtain b s1 where nb: "next_byte e s = Inr (b, s1)" using Inr by (cases bs) auto
    have l: "length s1 < length s" using next_byte_length[OF nb] by simp
    show ?thesis
    proof (cases "b = cl \<or> b = CHR '','' \<or> b = CHR '':''")
      case True
      then show ?thesis using "4.IH"(1)[OF nb refl] "4.prems" nb l by auto
    next
      case False
      have v: "skip_value f e (b # s1) \<noteq> Inl CeFuel" using "4.IH"(2)[OF nb refl] False "4.prems" l by auto
      have "skipContainer f e cl s2 \<noteq> Inl CeFuel" if "skip_value f e (b # s1) = Inr s2" for s2
        using "4.IH"(3)[OF nb refl _ _ that] False "4.prems" l skip_length(1)[OF that] by auto
      then show ?thesis using False nb v by (cases "skip_value f e (b # s1)") auto
    qed
  qed
qed auto

lemma skipJSONValue_not_fuel: "skipJSONValue e s \<noteq> Inl CeFuel"
  unfolding skipJSONValue_def by (rule skip_enough) simp

named_theorems reads \<open>how the readers see what the encoder writes\<close>

lemma next_byte_Cons [reads]: "\<not> is_ws b \<Longrightarrow> next_byte e (b # s) = Inr (b, s)"
  by (simp add: next_byte_def)

lemma not_ws [reads]: "\<not> is_ws quote" "\<not> is_ws (CHR ''{'')" "\<not> is_ws (CHR ''}'')" "\<not> is_ws (CHR '','')" "\<not> is_ws (CHR '':'')"
  "\<not> is_ws (CHR ''['')" "\<not> is_ws (CHR '']'')"
  by (simp_all add: is_ws_def)

section \<open>Skipping well-formed values\<close>

declare skip_value.simps [simp del] skipContainer.simps [simp del]

lemmas skip_eqs = skip_value.simps skipContainer.simps

text \<open>More fuel changes nothing once there is enough.\<close>

lemma skip_mono:
  "skip_value f e s = r \<Longrightarrow> r \<noteq> Inl CeFuel \<Longrightarrow> f \<le> g \<Longrightarrow> skip_value g e s = r"
  "skipContainer f e cl s = r \<Longrightarrow> r \<noteq> Inl CeFuel \<Longrightarrow> f \<le> g \<Longrightarrow> skipContainer g e cl s = r"
proof (induction f e s and f e cl s arbitrary: r g and r g rule: skip_value_skipContainer.induct)
  case (2 f e s)
  obtain g' where g: "g = Suc g'" "f \<le> g'" using "2.prems"(3) by (cases g) auto
  show ?case
  proof (cases "next_byte e s")
    case (Inl x)
    then show ?thesis using "2.prems"(1) g(1) by (simp add: skip_eqs)
  next
    case (Inr bs)
    obtain b s1 where nb: "next_byte e s = Inr (b, s1)" using Inr by (cases bs) auto
    consider (obj) "b \<noteq> quote" "b = CHR ''{''" | (arr) "b \<noteq> quote" "b \<noteq> CHR ''{''" "b = CHR ''[''"
      | (flat) "b = quote \<or> b \<noteq> CHR ''{'' \<and> b \<noteq> CHR ''[''" by blast
    then show ?thesis
    proof cases
      case obj
      then have "skipContainer f e (CHR ''}'') s1 = r" using "2.prems"(1) nb by (simp add: skip_eqs)
      from "2.IH"(1)[OF nb refl obj this "2.prems"(2) g(2)] show ?thesis using obj g(1) nb by (simp add: skip_eqs)
    next
      case arr
      then have "skipContainer f e (CHR '']'') s1 = r" using "2.prems"(1) nb by (simp add: skip_eqs)
      from "2.IH"(2)[OF nb refl arr this "2.prems"(2) g(2)] show ?thesis using arr g(1) nb by (simp add: skip_eqs)
    next
      case flat
      then show ?thesis using "2.prems"(1) g(1) nb by (cases "b = quote") (simp_all add: skip_eqs)
    qed
  qed
next
  case (4 f e cl s)
  obtain g' where g: "g = Suc g'" "f \<le> g'" using "4.prems"(3) by (cases g) auto
  show ?case
  proof (cases "next_byte e s")
    case (Inl x)
    then show ?thesis using "4.prems"(1) g(1) by (simp add: skip_eqs)
  next
    case (Inr bs)
    obtain b s1 where nb: "next_byte e s = Inr (b, s1)" using Inr by (cases bs) auto
    show ?thesis
    proof (cases "b = cl \<or> b = CHR '','' \<or> b = CHR '':''")
      case True
      show ?thesis
      proof (cases "b = cl")
        case True
        then show ?thesis using "4.prems"(1) g(1) nb by (simp add: skip_eqs)
      next
        case other: False
        with True have c: "b = CHR '','' \<or> b = CHR '':''" by blast
        then have "skipContainer f e cl s1 = r" using "4.prems"(1) nb other by (simp add: skip_eqs)
        from "4.IH"(1)[OF nb refl other c this "4.prems"(2) g(2)] show ?thesis
          using c other g(1) nb by (simp add: skip_eqs)
      qed
    next
      case False
      then have r: "r = (case skip_value f e (b # s1) of Inl x \<Rightarrow> Inl x | Inr s2 \<Rightarrow> skipContainer f e cl s2)"
        using "4.prems"(1) nb by (simp add: skip_eqs)
      have ne: "b \<noteq> cl" "\<not> (b = CHR '','' \<or> b = CHR '':'')" using False by blast+
      have "skip_value f e (b # s1) \<noteq> Inl CeFuel" using r "4.prems"(2) by auto
      from "4.IH"(2)[OF nb refl ne refl this g(2)]
      have v: "skip_value g' e (b # s1) = skip_value f e (b # s1)" .
      have "skipContainer g' e cl s2 = skipContainer f e cl s2" if s2: "skip_value f e (b # s1) = Inr s2" for s2
      proof -
        have "skipContainer f e cl s2 \<noteq> Inl CeFuel" using r "4.prems"(2) s2 by simp
        from "4.IH"(3)[OF nb refl ne s2 refl this g(2)] show ?thesis .
      qed
      then show ?thesis using r v nb False g(1) by (simp add: skip_eqs split: sum.splits)
    qed
  qed
qed (auto simp: skip_eqs)

lemma skipJSONValue_any: "skip_value f e s = Inr s' \<Longrightarrow> skipJSONValue e s = Inr s'"
proof -
  assume f: "skip_value f e s = Inr s'"
  let ?g = "max f (2 * length s + 1)"
  have "skip_value ?g e s = Inr s'" by (rule skip_mono(1)[OF f]) simp_all
  moreover have "skip_value ?g e s = skipJSONValue e s"
    using skip_mono(1)[OF refl, of "2 * length s + 1" e s ?g] skipJSONValue_not_fuel[of e s] by (simp add: skipJSONValue_def)
  ultimately show ?thesis by simp
qed

text \<open>JSON values and their text.\<close>

datatype json = JNull | JTrue | JFalse | JNum string | JStr string | JArr "json list" | JObj "(string \<times> json) list"

fun render :: "json \<Rightarrow> string" where
  "render JNull = ''null''"
| "render JTrue = ''true''"
| "render JFalse = ''false''"
| "render (JNum ds) = ds"
| "render (JStr s) = jstr s"
| "render (JArr vs) = CHR ''['' # join_with (CHR '','') (map render vs) @ '']''"
| "render (JObj ms) = CHR ''{'' # join_with (CHR '','') (map (\<lambda>(k, v). jstr k @ CHR '':'' # render v) ms) @ ''}''"

fun json_ok :: "json \<Rightarrow> bool" where
  "json_ok (JNum ds) \<longleftrightarrow> ds \<noteq> [] \<and> list_all number_byte ds"
| "json_ok (JArr vs) \<longleftrightarrow> list_all json_ok vs"
| "json_ok (JObj ms) \<longleftrightarrow> list_all (\<lambda>(k, v). json_ok v) ms"
| "json_ok _ \<longleftrightarrow> True"

definition delimiter :: "char \<Rightarrow> bool" where
  "delimiter c \<longleftrightarrow> c = CHR '','' \<or> c = CHR ''}'' \<or> c = CHR '']'' \<or> is_ws c"

lemma delimiter_stops: "delimiter c \<Longrightarrow> \<not> lower_byte c \<and> \<not> number_byte c"
proof -
  assume d: "delimiter c"
  then have "c \<in> {CHR '','', CHR ''}'', CHR '']'', CHR '' '', CHR 0x09, CHR 0x0A, CHR 0x0D}"
    by (auto simp: delimiter_def is_ws_def)
  then show ?thesis by (auto simp: lower_byte_def number_byte_def num_byte_def is_digit_def)
qed

lemma number_byte_start: "number_byte c \<Longrightarrow> c \<notin> {quote, CHR ''{'', CHR ''['', CHR ''t'', CHR ''f'', CHR ''n''} \<and> \<not> is_ws c"
  by (auto simp: number_byte_def num_byte_def is_digit_def is_ws_def)

lemma skip_string: "skip_value (Suc f) e (jstr s @ t) = Inr t"
  by (simp add: skip_eqs jstr_def reads readShortJSONString_eq unescape_marshal)

text \<open>An element is passed when, with enough fuel, the container continues right after it.\<close>

definition passes :: "read_end \<Rightarrow> char \<Rightarrow> string \<Rightarrow> bool" where
  "passes e cl x \<longleftrightarrow> (\<forall>c u. delimiter c \<longrightarrow>
     (\<exists>k f. \<forall>g\<ge>f. skipContainer (g + k) e cl (x @ c # u) = skipContainer g e cl (c # u)))"

lemma passesD:
  assumes "passes e cl x" and "delimiter c" and "skipContainer f e cl (c # u) = Inr r"
  shows "\<exists>f. skipContainer f e cl (x @ c # u) = Inr r"
proof -
  obtain k f0 where k: "\<forall>g\<ge>f0. skipContainer (g + k) e cl (x @ c # u) = skipContainer g e cl (c # u)"
    using assms(1,2) unfolding passes_def by blast
  have "skipContainer (max f f0) e cl (c # u) = Inr r" by (rule skip_mono(2)[OF assms(3)]) simp_all
  then have "skipContainer (max f f0 + k) e cl (x @ c # u) = Inr r" using k[rule_format, of "max f f0"] by simp
  then show ?thesis ..
qed

lemma skip_elements:
  assumes "\<forall>x\<in>set xs. passes e cl x" and cl: "cl = CHR '']'' \<or> cl = CHR ''}''"
  shows "\<exists>f. skipContainer f e cl (join_with (CHR '','') xs @ cl # t) = Inr t"
  using assms(1)
proof (induction xs rule: induct_list012)
  case 1
  have "skipContainer (Suc 0) e cl (cl # t) = Inr t" using cl by (auto simp: skip_eqs reads)
  then show ?case by (intro exI[of _ "Suc 0"]) simp
next
  case (2 w)
  have "skipContainer (Suc 0) e cl (cl # t) = Inr t" using cl by (auto simp: skip_eqs reads)
  moreover have "delimiter cl" using cl by (auto simp: delimiter_def)
  ultimately show ?case using passesD[of e cl w cl] 2 by simp
next
  case (3 w v ws)
  then obtain f where f: "skipContainer f e cl (join_with (CHR '','') (v # ws) @ cl # t) = Inr t" by fastforce
  have "skipContainer (Suc f) e cl (CHR '','' # join_with (CHR '','') (v # ws) @ cl # t) = Inr t"
    using cl f by (auto simp: skip_eqs reads)
  then show ?case using passesD[of e cl w "CHR '',''"] "3.prems" by (simp add: delimiter_def)
qed

text \<open>One step of a container over a value.\<close>

lemma container_value:
  assumes "skip_value f e (b # s) = Inr r" and "f \<le> g" and "\<not> is_ws b" and "b \<noteq> cl" "b \<noteq> CHR '',''" "b \<noteq> CHR '':''"
  shows "skipContainer (Suc g) e cl (b # s) = skipContainer g e cl r"
  using assms skip_mono(1)[OF assms(1) _ assms(2)] by (simp add: skip_eqs reads)

definition skips :: "read_end \<Rightarrow> string \<Rightarrow> bool" where
  "skips e x \<longleftrightarrow> (\<exists>b r. x = b # r \<and> \<not> is_ws b \<and> b \<notin> {CHR '','', CHR '':'', CHR '']'', CHR ''}''}) \<and>
     (\<forall>c u. delimiter c \<longrightarrow> (\<exists>f. skip_value f e (x @ c # u) = Inr (c # u)))"

lemma skips_passes:
  assumes "skips e x" and "cl = CHR '']'' \<or> cl = CHR ''}''"
  shows "passes e cl x"
  unfolding passes_def
proof (intro allI impI)
  fix c u assume "delimiter c"
  then obtain f b r where f: "skip_value f e (x @ c # u) = Inr (c # u)" and x: "x = b # r" "\<not> is_ws b"
    "b \<notin> {CHR '','', CHR '':'', CHR '']'', CHR ''}''}"
    using assms(1) unfolding skips_def by blast
  have "skipContainer (g + 1) e cl (x @ c # u) = skipContainer g e cl (c # u)" if "f \<le> g" for g
    using container_value[of f e b "r @ c # u" "c # u" g cl] f that x assms(2) by auto
  then show "\<exists>k f. \<forall>g\<ge>f. skipContainer (g + k) e cl (x @ c # u) = skipContainer g e cl (c # u)" by blast
qed

lemma member_passes:
  assumes "skips e x"
  shows "passes e (CHR ''}'') (jstr k @ CHR '':'' # x)"
  unfolding passes_def
proof (intro allI impI)
  fix c u assume "delimiter c"
  then obtain f b r where f: "skip_value f e (x @ c # u) = Inr (c # u)" and x: "x = b # r" "\<not> is_ws b"
    "b \<notin> {CHR '','', CHR '':'', CHR '']'', CHR ''}''}"
    using assms(1) unfolding skips_def by blast
  have "skipContainer (g + 3) e (CHR ''}'') ((jstr k @ CHR '':'' # x) @ c # u) = skipContainer g e (CHR ''}'') (c # u)"
    if g: "f + 1 \<le> g" for g
  proof -
    let ?y = "CHR '':'' # x @ c # u"
    have q: "skip_value 1 e (jstr k @ ?y) = Inr ?y" using skip_string[of 0 e k ?y] by simp
    have "skipContainer (Suc (Suc (Suc g))) e (CHR ''}'') (jstr k @ ?y) = skipContainer (Suc (Suc g)) e (CHR ''}'') ?y"
      using container_value[of 1 e quote "marshal_string k @ quote # ?y" ?y "Suc (Suc g)" "CHR ''}''"] q
      by (simp add: jstr_def reads)
    also have "\<dots> = skipContainer (Suc g) e (CHR ''}'') (x @ c # u)" by (simp add: skip_eqs reads)
    also have "\<dots> = skipContainer g e (CHR ''}'') (c # u)"
      using container_value[of f e b "r @ c # u" "c # u" g "CHR ''}''"] f g x by auto
    finally show ?thesis by (simp add: numeral_3_eq_3)
  qed
  then show "\<exists>n f. \<forall>g\<ge>f. skipContainer (g + n) e (CHR ''}'') ((jstr k @ CHR '':'' # x) @ c # u) =
      skipContainer g e (CHR ''}'') (c # u)" by blast
qed

lemma skips_container:
  assumes "\<forall>x\<in>set xs. passes e cl x" and "op = CHR ''['' \<and> cl = CHR '']'' \<or> op = CHR ''{'' \<and> cl = CHR ''}''"
  shows "skips e (op # join_with (CHR '','') xs @ [cl])"
proof -
  have "\<exists>f. skip_value f e ((op # join_with (CHR '','') xs @ [cl]) @ c # u) = Inr (c # u)" for c u
  proof -
    obtain f where "skipContainer f e cl (join_with (CHR '','') xs @ cl # c # u) = Inr (c # u)"
      using skip_elements[OF assms(1), of "c # u"] assms(2) by blast
    then have "skip_value (Suc f) e ((op # join_with (CHR '','') xs @ [cl]) @ c # u) = Inr (c # u)"
      using assms(2) by (auto simp: skip_eqs reads)
    then show ?thesis ..
  qed
  then show ?thesis using assms(2) by (auto simp: skips_def is_ws_def)
qed

lemma skips_flat:
  assumes "x = b # r" and "b = CHR ''t'' \<or> b = CHR ''f'' \<or> b = CHR ''n''" and "\<forall>c\<in>set r. lower_byte c"
  shows "skips e x"
proof -
  have "dropWhile lower_byte (r @ c # u) = c # u" if "delimiter c" for c u
    using assms(3) delimiter_stops[OF that] by (simp add: dropWhile_append3)
  then have "skip_value (Suc 0) e (x @ c # u) = Inr (c # u)" if "delimiter c" for c u
    using that assms(1,2) by (auto simp: skip_eqs next_byte_Cons is_ws_def)
  then show ?thesis using assms(1,2) unfolding skips_def by (auto simp: is_ws_def)
qed

lemma skips_number:
  assumes "ds \<noteq> []" and "list_all number_byte ds"
  shows "skips e ds"
proof -
  obtain b r where ds: "ds = b # r" using assms(1) by (cases ds) auto
  note nb = number_byte_start[of b]
  have "dropWhile number_byte (r @ c # u) = c # u" if "delimiter c" for c u
    using assms(2) ds delimiter_stops[OF that] by (simp add: dropWhile_append3 list_all_iff)
  then have "skip_value (Suc 0) e (ds @ c # u) = Inr (c # u)" if "delimiter c" for c u
    using that assms(2) ds nb by (simp add: skip_eqs next_byte_Cons)
  moreover have "b \<notin> {CHR '','', CHR '':'', CHR '']'', CHR ''}''}"
    using assms(2) ds by (auto simp: number_byte_def num_byte_def is_digit_def)
  ultimately show ?thesis using assms(2) ds nb unfolding skips_def by auto
qed

lemma skips_render: "json_ok v \<Longrightarrow> skips e (render v)"
proof (induction v rule: render.induct)
  case (5 s)
  have "skip_value (Suc 0) e (jstr s @ c # u) = Inr (c # u)" for c u by (rule skip_string)
  then show ?case unfolding skips_def by (auto simp: jstr_def is_ws_def)
next
  case (6 vs)
  then have "\<forall>x\<in>set (map render vs). passes e (CHR '']'') x" by (auto simp: list_all_iff intro!: skips_passes)
  from skips_container[OF this, of "CHR ''[''"] show ?case by simp
next
  case (7 ms)
  then have "\<forall>x\<in>set (map (\<lambda>(k, v). jstr k @ CHR '':'' # render v) ms). passes e (CHR ''}'') x"
    by (auto simp: list_all_iff intro!: member_passes)
  from skips_container[OF this, of "CHR ''{''"] show ?case by simp
next
  case 1
  show ?case by (rule skips_flat[of _ "CHR ''n''" "''ull''"]) (simp_all add: lower_byte_def)
next
  case 2
  show ?case by (rule skips_flat[of _ "CHR ''t''" "''rue''"]) (simp_all add: lower_byte_def)
next
  case 3
  show ?case by (rule skips_flat[of _ "CHR ''f''" "''alse''"]) (simp_all add: lower_byte_def)
next
  case (4 ds)
  then show ?case using skips_number[of ds e] by simp
qed

section \<open>Properties\<close>

text \<open>C14. Skipping the value of an unknown key always ends, within fuel linear in the unread input,
  for malformed and truncated bodies too; and a well-formed value, however deeply nested and whatever
  its strings hold, is skipped exactly: the parse goes on at the delimiter after it.\<close>

theorem skipJSONValue_total_and_exact:
  "skipJSONValue e s \<noteq> Inl CeFuel \<and>
   (json_ok v \<and> delimiter c \<longrightarrow> skipJSONValue e (render v @ c # t) = Inr (c # t))"
proof (intro conjI impI)
  show "skipJSONValue e s \<noteq> Inl CeFuel" by (rule skipJSONValue_not_fuel)
  assume "json_ok v \<and> delimiter c"
  then obtain f where "skip_value f e (render v @ c # t) = Inr (c # t)"
    using skips_render[of v e] unfolding skips_def by blast
  then show "skipJSONValue e (render v @ c # t) = Inr (c # t)" by (rule skipJSONValue_any)
qed

theorem skipJSONValue_total_and_exact_witness:
  "skipJSONValue CleanEOF (render (JObj [(''a]'', JArr [JNum ''-1.5e3'', JStr ''}'', JNull])]) @ ''}'') = Inr ''}''"
  using skipJSONValue_total_and_exact[of CleanEOF "[]" "JObj [(''a]'', JArr [JNum ''-1.5e3'', JStr ''}'', JNull])]" "CHR ''}''" "[]"]
  by (simp add: delimiter_def number_byte_def num_byte_def is_digit_def)

end
