(* ===== verification/Wire.thy ===== *)
theory Wire
  imports Base64
begin

text \<open>
  Package \<open>wire\<close>: the Envelope v1 shapes and the byte-ceiling arithmetic. An optional (pointer)
  field is an \<open>option\<close>: \<open>None\<close> is the omitted form and \<open>Some []\<close> the present-but-empty one.
  The JSON encoding itself is \<open>encoding/json\<close>; the hand-written decoder of the receive side is
  modelled in its own theory.
\<close>

section \<open>Shapes\<close>

record item =
  item_kind :: string
  item_name :: "string option"
  item_uti :: "string option"
  item_mime :: "string option"
  item_bytesB64 :: "string option"
  item_text :: "string option"

record envelope =
  env_version :: int
  env_sender :: string
  env_items :: "item list"
  env_channel :: "string option"

record clip_response =
  resp_ok :: bool
  resp_saved :: "string list"
  resp_count :: nat

record send_request =
  sr_channel :: string
  sr_kind :: string
  sr_file :: "string option"
  sr_text :: "string option"

record agent_item =
  ai_type :: string
  ai_sender :: string
  ai_path :: "string option"
  ai_text :: "string option"

text \<open>The routing channels (package \<open>ingest\<close>); an absent channel is the clipboard's.\<close>

definition ChannelClipboard :: string where
  "ChannelClipboard = ''clipboard''"

definition ChannelAgent :: string where
  "ChannelAgent = ''agent''"

definition EmptyString :: "string option" where
  "EmptyString = Some []"

definition Ptr :: "string \<Rightarrow> string option" where
  "Ptr s = Some s"

section \<open>Byte ceilings\<close>

definition DefaultMaxBytes :: int where
  "DefaultMaxBytes = 52428800"

definition HardCeiling :: "int \<Rightarrow> int" where
  "HardCeiling maxBytes = wrap64 (quot (wrap64 (maxBytes * 4)) 3 + 64 * 1024)"

definition HardCeilingHeaderBytes :: int where
  "HardCeilingHeaderBytes = 64 * 1024"

definition is_b64_ws :: "char \<Rightarrow> bool" where
  "is_b64_ws c \<longleftrightarrow> c = CHR '' '' \<or> c = CHR 0x09 \<or> c = CHR 0x0A \<or> c = CHR 0x0D"

fun count_b64 :: "string \<Rightarrow> int \<Rightarrow> int \<Rightarrow> int \<times> int" where
  "count_b64 [] chars pad = (chars, pad)"
| "count_b64 (c # cs) chars pad =
     (if c = pad_char then count_b64 cs chars (pad + 1)
      else if is_b64_ws c then count_b64 cs chars pad
      else count_b64 cs (chars + 1) pad)"

definition DecodedLength :: "string \<Rightarrow> int" where
  "DecodedLength b64 =
     (let (chars, pad) = count_b64 b64 0 0;
          groups = quot (chars + pad) 4;
          decoded = groups * 3 - pad
      in if decoded < 0 then 0 else decoded)"

lemma HardCeiling_exact:
  assumes "0 \<le> m" and "m < 2 ^ 61"
  shows "HardCeiling m = m * 4 div 3 + 65536"
proof -
  have "wrap64 (m * 4) = m * 4" using assms by (intro wrap64_id) auto
  moreover have "wrap64 (m * 4 div 3 + 65536) = m * 4 div 3 + 65536"
    using assms by (intro wrap64_id) auto
  ultimately show ?thesis using assms by (simp add: HardCeiling_def quot_nonneg)
qed

text \<open>How the counting loop sees text: whitespace counts for nothing, wherever it stands.\<close>

lemma count_b64_value:
  "count_b64 s chars pad =
     (chars + int (length (filter (\<lambda>c. c \<noteq> pad_char \<and> \<not> is_b64_ws c) s)), pad + int (count_list s pad_char))"
  by (induction s arbitrary: chars pad) auto

lemma count_b64_spread:
  "filter (\<lambda>c. \<not> is_b64_ws c) s = t \<Longrightarrow> count_b64 s chars pad = count_b64 t chars pad"
proof (induction s arbitrary: t chars pad)
  case (Cons c cs)
  have "\<not> is_b64_ws pad_char" by (simp add: is_b64_ws_def)
  then show ?case using Cons.prems by (cases "is_b64_ws c") (auto simp: Cons.IH[OF refl])
qed simp

definition pads :: "nat \<Rightarrow> nat" where
  "pads n = (3 - n mod 3) mod 3"

lemma pads_eq: "(n + 2) div 3 * 3 = n + pads n"
proof -
  obtain q r where n: "n = 3 * q + r" "r < 3"
    using mult_div_mod_eq[of 3 n] by (metis mod_less_divisor zero_less_numeral)
  then have m: "n mod 3 = r" by simp
  from n(2) consider "r = 0" | "r = 1" | "r = 2" by linarith
  then show ?thesis by cases (simp_all add: m pads_def, simp_all add: n)
qed

lemma alphabet_no_ws: "c \<in> set b64_alphabet \<Longrightarrow> \<not> is_b64_ws c"
proof -
  have "list_all (\<lambda>c. \<not> is_b64_ws c) b64_alphabet" by code_simp
  then show "c \<in> set b64_alphabet \<Longrightarrow> \<not> is_b64_ws c" by (simp add: list_all_iff)
qed

lemma b64_encode_no_ws: "c \<in> set (b64_encode bs) \<Longrightarrow> \<not> is_b64_ws c"
  using b64_encode_chars[of c bs] alphabet_no_ws by (auto simp: is_b64_ws_def)

lemma filter_count: "length (filter (\<lambda>c. c \<noteq> x) t) + count_list t x = length t"
  by (induction t) auto

lemma b64_encode_chars_count:
  "length (filter (\<lambda>c. c \<noteq> pad_char \<and> \<not> is_b64_ws c) (b64_encode bs)) + count_list (b64_encode bs) pad_char
     = (length bs + 2) div 3 * 4"
proof -
  have "filter (\<lambda>c. c \<noteq> pad_char \<and> \<not> is_b64_ws c) (b64_encode bs) = filter (\<lambda>c. c \<noteq> pad_char) (b64_encode bs)"
    by (rule filter_cong) (auto dest: b64_encode_no_ws)
  then show ?thesis
    using filter_count[of pad_char "b64_encode bs"] by (simp add: length_b64_encode)
qed

lemma b64_encode_pads: "count_list (b64_encode bs) pad_char = pads (length bs)"
proof (induction bs rule: b64_encode.induct)
  case (2 a)
  have "code a div 4 < 64" using code_lt[of a] by linarith
  then show ?case by (simp add: b64_char_no_pad pads_def)
next
  case (3 a b)
  have "(code a * 256 + code b) div 1024 < 64" using code_lt[of a] code_lt[of b] by linarith
  then show ?case by (simp add: Let_def b64_char_no_pad pads_def)
next
  case (4 a b c r)
  from b64_encode_three[of a b c r] obtain v where l: "v div 262144 < 64"
    and e: "b64_encode (a # b # c # r) =
      [b64_char (v div 262144), b64_char (v div 4096 mod 64), b64_char (v div 64 mod 64), b64_char (v mod 64)]
      @ b64_encode r" by blast
  have "count_list (b64_encode (a # b # c # r)) pad_char = pads (length r)"
    unfolding e using "4.IH"[OF refl] l by (simp add: b64_char_no_pad)
  moreover have "length (a # b # c # r) mod 3 = length r mod 3" by simp
  ultimately show ?case by (simp only: pads_def)
qed (simp add: pads_def)

lemma DecodedLength_encode_aux:
  assumes "filter (\<lambda>c. \<not> is_b64_ws c) s = b64_encode bs"
  shows "DecodedLength s = int (length bs)"
proof -
  let ?e = "b64_encode bs"
  let ?k = "length (filter (\<lambda>c. c \<noteq> pad_char \<and> \<not> is_b64_ws c) ?e)"
  have c: "count_b64 s 0 0 = (int ?k, int (pads (length bs)))"
    using count_b64_spread[OF assms, of 0 0]
    by (simp add: count_b64_value[of ?e] b64_encode_pads)
  have "?k + pads (length bs) = (length bs + 2) div 3 * 4"
    using b64_encode_chars_count[of bs] by (simp add: b64_encode_pads)
  then have k: "int ?k + int (pads (length bs)) = int ((length bs + 2) div 3) * 4" by linarith
  have "int ((length bs + 2) div 3) * 3 = int (length bs) + int (pads (length bs))"
    using pads_eq[of "length bs"] by linarith
  then show ?thesis by (simp only: DecodedLength_def c k Let_def prod.case) (simp add: quot_nonneg)
qed

lemma b64_length_bound: "length (b64_encode bs) * 3 \<le> length bs * 4 + 8"
  by (simp add: length_b64_encode)

lemma b64_fits: "int (length (b64_encode bs)) \<le> int (length bs) * 4 div 3 + 3"
  unfolding length_b64_encode by presburger

lemma b64_fits_all:
  "int (sum_list (map (length \<circ> b64_encode) ps)) \<le> int (sum_list (map length ps)) * 4 div 3 + 3 * int (length ps)"
proof (induction ps)
  case (Cons p ps)
  have "int (length p) * 4 div 3 + int (sum_list (map length ps)) * 4 div 3
      \<le> int (length p + sum_list (map length ps)) * 4 div 3"
    by (simp add: distrib_right)
  with Cons b64_fits[of p] show ?case by simp
qed simp

section \<open>Properties\<close>

text \<open>The raw-wire ceiling admits every envelope whose decoded payloads are within the cap:
  the base64 of any payloads of at most \<open>m\<close> bytes in total, with JSON overhead that leaves three
  bytes of slack per item in the 64 KB allowance, is at most \<open>HardCeiling m\<close>; and the ceiling of
  the default cap is the literal 69970602.\<close>

lemma HardCeiling_admits_capped_payloads:
  assumes "0 \<le> m" and "m < 2 ^ 61"
    and "int (sum_list (map length ps)) \<le> m" and "oh + 3 * int (length ps) \<le> 65536"
  shows "int (sum_list (map (length \<circ> b64_encode) ps)) + oh \<le> HardCeiling m \<and>
         HardCeiling DefaultMaxBytes = 69970602"
proof -
  have "int (sum_list (map length ps)) * 4 div 3 \<le> m * 4 div 3"
    using assms(3) by (intro zdiv_mono1) auto
  moreover have "HardCeiling DefaultMaxBytes = 69970602"
    using HardCeiling_exact[of DefaultMaxBytes] by (simp add: DefaultMaxBytes_def)
  ultimately show ?thesis
    using b64_fits_all[of ps] assms(4) HardCeiling_exact[OF assms(1,2)] by linarith
qed

lemma HardCeiling_admits_capped_payloads_witness:
  "int (sum_list (map (length \<circ> b64_encode) [''abcd'', ''xyz''])) + 65530 \<le> HardCeiling 7"
  using HardCeiling_admits_capped_payloads[of 7 "[''abcd'', ''xyz'']" 65530] by simp

text \<open>The sender's pre-flight length is exact and the receiver's stream inverts the
  sender's encoding: \<open>DecodedLength\<close> of the base64 of a payload, with any whitespace spread
  through it, is the payload's length, and the streaming decoder returns the payload.\<close>

lemma base64_preflight_and_roundtrip:
  assumes "filter (\<lambda>c. \<not> is_b64_ws c) s = b64_encode bs"
  shows "DecodedLength s = int (length bs) \<and> b64_stream [] (b64_encode bs) = (bs, B64Done)"
  using DecodedLength_encode_aux[OF assms] b64_stream_encode by simp

lemma base64_preflight_and_roundtrip_witness:
  "DecodedLength ''QU JD RA=='' = int (length ''ABCD'')"
  using base64_preflight_and_roundtrip[of "''QU JD RA==''" "''ABCD''"]
  by (simp add: is_b64_ws_def b64_char_def b64_alphabet_def Let_def)

end
