(* ===== verification/ClipParse.thy ===== *)
theory ClipParse
  imports JsonRead Wire
begin

text \<open>
  The streaming envelope parser of \<open>clip.go\<close>: the walk over the envelope, its items and their
  fields, and \<open>bytesB64\<close> decoded straight into a scratch file by the library's base64 decoder on top
  of the JSON string reader. The scratch files are part of the state and are returned on every
  path. The members of both kinds of object are read by the same steps (\<open>next_member\<close>).
\<close>

section \<open>The base64 decoder over the string reader\<close>

text \<open>\<open>newlineFilteringReader.Read\<close>: drop CR and LF; a window of nothing else is read again, and its
  error is then lost.\<close>

function filter_read :: "read_end \<Rightarrow> nat \<Rightarrow> jsr \<Rightarrow> string \<times> jerr option \<times> jsr" where
  "filter_read e k st =
     (let (bs, err, st1) = jsr_read e (Suc k) st in
      if bs = [] then ([], err, st1)
      else if filter not_newline bs \<noteq> [] then (filter not_newline bs, err, st1)
      else filter_read e k st1)"
  by pat_completeness auto
termination
proof (relation "measure (\<lambda>(e, k, st). weight st)", goal_cases)
  case (2 e k st p bs q err st1)
  then have r: "jsr_read e (Suc k) st = (bs, err, st1)" by simp
  from jsr_read_spec[OF r] have "length bs + weight st1 \<le> weight st" by simp
  with 2 show ?case by (cases bs) auto
qed simp

declare filter_read.simps [simp del]

lemma filter_read_weight:
  "filter_read e k st = (bs, err, st') \<Longrightarrow> (err = None \<longrightarrow> bs \<noteq> []) \<and> length bs + weight st' \<le> weight st"
proof (induction e k st rule: filter_read.induct)
  case (1 e k st)
  obtain b1 e1 s1 where r: "jsr_read e (Suc k) st = (b1, e1, s1)" by (metis prod_cases3)
  have w: "length b1 + weight s1 \<le> weight st" "e1 = None \<Longrightarrow> b1 \<noteq> []" using jsr_read_spec[OF r] by auto
  have "length (filter not_newline b1) \<le> length b1" by simp
  then have f: "length (filter not_newline b1) + weight s1 \<le> weight st" using w by linarith
  show ?case
  proof (cases "b1 \<noteq> [] \<and> filter not_newline b1 = []")
    case True
    then have "filter_read e k st = filter_read e k s1" using r by (subst filter_read.simps) simp
    then show ?thesis using "1.IH"[OF r[symmetric] refl refl] "1.prems" True w by auto
  next
    case False
    then show ?thesis using "1.prems" r w f by (subst (asm) filter_read.simps) (auto split: if_splits)
  qed
qed

text \<open>\<open>decoder.Read\<close>'s refill of its 1024-byte buffer, and the stream of its chunks.\<close>

function dec_refill :: "read_end \<Rightarrow> string \<Rightarrow> jerr option \<Rightarrow> jsr \<Rightarrow> string \<times> jerr option \<times> jsr" where
  "dec_refill e buf rerr st =
     (if length buf < 4 \<and> rerr = None
      then (let (bs, err, st1) = filter_read e (1023 - length buf) st in dec_refill e (buf @ bs) err st1)
      else (buf, rerr, st))"
  by pat_completeness auto
termination
proof (relation "measure (\<lambda>(e, buf, rerr, st). weight st + (if rerr = None then 1 else 0))", goal_cases)
  case (2 e buf rerr st p bs q err st1)
  then have r: "filter_read e (1023 - length buf) st = (bs, err, st1)" by simp
  from filter_read_weight[OF r] 2(1) show ?case by (cases bs) auto
qed simp

declare dec_refill.simps [simp del]

lemma dec_refill_weight:
  "dec_refill e buf rerr st = (buf', rerr', st') \<Longrightarrow> length buf' + weight st' \<le> length buf + weight st"
proof (induction e buf rerr st rule: dec_refill.induct)
  case (1 e buf rerr st)
  show ?case
  proof (cases "length buf < 4 \<and> rerr = None")
    case True
    obtain bs err st1 where r: "filter_read e (1023 - length buf) st = (bs, err, st1)" by (metis prod_cases3)
    have "dec_refill e (buf @ bs) err st1 = (buf', rerr', st')"
      using "1.prems" True r by (subst (asm) dec_refill.simps) simp
    from "1.IH"[OF True r[symmetric] refl refl this] filter_read_weight[OF r] show ?thesis by simp
  next
    case False
    then show ?thesis using "1.prems" by (subst (asm) dec_refill.simps) auto
  qed
qed

text \<open>The outcome of the copy: done, a corrupt character, a partial quantum at the end of the
  string, or an error of the string reader.\<close>

datatype dec_end = DecDone | DecCorrupt | DecPartial | DecReader jerr

function dec_stream :: "read_end \<Rightarrow> string \<Rightarrow> jerr option \<Rightarrow> jsr \<Rightarrow> string \<times> dec_end \<times> jsr" where
  "dec_stream e buf rerr st =
     (let (buf', rerr', st') = dec_refill e buf rerr st in
      if length buf' < 4
      then ([], (case rerr' of
                   Some x \<Rightarrow> if x = JEOF then (if buf' = [] then DecDone else DecPartial) else DecReader x
                 | None \<Rightarrow> DecDone), st')
      else let nr = length buf' div 4 * 4; (out, ok) = b64_chunk (take nr buf') in
        if ok then prepend out (dec_stream e (drop nr buf') rerr' st') else (out, DecCorrupt, st'))"
  by pat_completeness auto
termination
proof (relation "measure (\<lambda>(e, buf, rerr, st). length buf + weight st)", goal_cases)
  case (2 e buf rerr st p buf' q rerr' st' nr r out ok)
  then have "dec_refill e buf rerr st = (buf', rerr', st')" by simp
  from dec_refill_weight[OF this] have "length buf' + weight st' \<le> length buf + weight st" .
  moreover have "4 \<le> nr" using 2 by auto
  ultimately show ?case using 2 by auto
qed simp

declare dec_stream.simps [simp del]

section \<open>Scratch files\<close>

text \<open>The calls on the scratch directory: whether it can be resolved, whether the \<open>n\<close>-th creation
  works and with which random name, and how many bytes its file can take.\<close>

record scratch_env =
  se_dir_ok :: bool
  se_create_ok :: "nat \<Rightarrow> bool"
  se_name :: "nat \<Rightarrow> string"
  se_room :: "nat \<Rightarrow> nat option"
  se_close_ok :: "nat \<Rightarrow> bool"

record scratch =
  sc_files :: "(string \<times> string) list"
  sc_next :: nat

definition dec_error :: "dec_end \<Rightarrow> clip_error option" where
  "dec_error d =
     (case d of
        DecDone \<Rightarrow> None
      | DecCorrupt \<Rightarrow> Some CeMalformed
      | DecPartial \<Rightarrow> Some CeUnexpectedEOF
      | DecReader x \<Rightarrow> Some (if x = JBad then CeMalformed else jerr_error x))"

text \<open>The path of the scratch file (empty when none was made), an error, the unread input.\<close>

definition streamBase64ToTemp ::
  "read_end \<Rightarrow> scratch_env \<Rightarrow> scratch \<Rightarrow> string \<Rightarrow> string \<times> clip_error option \<times> string \<times> scratch" where
  "streamBase64ToTemp e env sc s =
     (let n = sc_next sc; path = se_name env n in
      if \<not> se_dir_ok env then ([], Some CeScratch, s, sc)
      else if \<not> se_create_ok env n then ([], Some CeScratch, s, sc\<lparr>sc_next := Suc n\<rparr>)
      else
        let (out, d, st) = dec_stream e [] None (newJSONStringReader s);
            full = (case se_room env n of None \<Rightarrow> False | Some k \<Rightarrow> k < length out);
            written = (case se_room env n of None \<Rightarrow> out | Some k \<Rightarrow> take k out);
            sc' = \<lparr>sc_files = sc_files sc @ [(path, written)], sc_next = Suc n\<rparr>
        in if full then (path, Some CeScratch, js_rest st, sc')
           else (case dec_error d of
               Some x \<Rightarrow> (path, Some x, js_rest st, sc')
             | None \<Rightarrow> (path, if se_close_ok env n then None else Some CeScratch, js_rest st, sc')))"

section \<open>Members\<close>

text \<open>The next member of an object: its key, with the input at its value, or the end of the object.\<close>

definition next_member :: "read_end \<Rightarrow> bool \<Rightarrow> string \<Rightarrow> (string option \<times> string) parsed" where
  "next_member e first s =
     bind_result (next_byte e s) (\<lambda>(b, s1).
       if b = CHR ''}'' then Inr (None, s1)
       else
         bind_result
           (if first then Inr (b, s1) else if b \<noteq> CHR '','' then Inl CeMalformed else next_byte e s1)
           (\<lambda>(b2, s2).
             if b2 \<noteq> quote then Inl CeMalformed
             else bind_result (readShortJSONString e s2) (\<lambda>(key, s3).
               bind_result (skipWSThen e (CHR '':'') s3) (\<lambda>s4. Inr (Some key, s4)))))"

lemma next_member_length [shrink]: "next_member e first s = Inr (k, s') \<Longrightarrow> length s' < length s"
  by (fastforce simp: next_member_def split: if_splits
      dest!: next_byte_length skipWSThen_length readShort_length)

record parsed_item =
  pi_kind :: string
  pi_name :: string
  pi_uti :: string
  pi_mime :: string
  pi_text :: string
  pi_tmpPath :: string

record parsed_envelope =
  pe_version :: int
  pe_channel :: string
  pe_items :: "parsed_item list"

definition empty_item :: parsed_item where
  "empty_item = \<lparr>pi_kind = [], pi_name = [], pi_uti = [], pi_mime = [], pi_text = [], pi_tmpPath = []\<rparr>"

text \<open>The value of one item member. A null leaves an optional field as it is.\<close>

definition set_field ::
  "(string \<times> string) parsed \<Rightarrow> (string \<Rightarrow> parsed_item) \<Rightarrow> parsed_item \<Rightarrow> scratch \<Rightarrow> string parsed \<times> parsed_item \<times> scratch" where
  "set_field r upd p sc = (case r of Inl x \<Rightarrow> (Inl x, p, sc) | Inr (v, s1) \<Rightarrow> (Inr s1, upd v, sc))"

definition set_optional ::
  "(string option \<times> string) parsed \<Rightarrow> (string \<Rightarrow> parsed_item) \<Rightarrow> parsed_item \<Rightarrow> scratch \<Rightarrow> string parsed \<times> parsed_item \<times> scratch" where
  "set_optional r upd p sc =
     (case r of
        Inl x \<Rightarrow> (Inl x, p, sc)
      | Inr (None, s1) \<Rightarrow> (Inr s1, p, sc)
      | Inr (Some v, s1) \<Rightarrow> (Inr s1, upd v, sc))"

definition item_payload ::
  "read_end \<Rightarrow> scratch_env \<Rightarrow> parsed_item \<Rightarrow> scratch \<Rightarrow> string \<Rightarrow> string parsed \<times> parsed_item \<times> scratch" where
  "item_payload e env p sc s =
     (case tryConsumeNull e s of
        Inl x \<Rightarrow> (Inl x, p, sc)
      | Inr (True, s1) \<Rightarrow> (Inr s1, p, sc)
      | Inr (False, s1) \<Rightarrow>
          (case skipWSThen e quote s1 of
             Inl x \<Rightarrow> (Inl x, p, sc)
           | Inr s2 \<Rightarrow>
               (case streamBase64ToTemp e env sc s2 of
                  (tmp, Some x, s3, sc') \<Rightarrow> (Inl x, p\<lparr>pi_tmpPath := tmp\<rparr>, sc')
                | (tmp, None, s3, sc') \<Rightarrow> (Inr s3, p\<lparr>pi_tmpPath := tmp\<rparr>, sc'))))"

definition item_member ::
  "read_end \<Rightarrow> scratch_env \<Rightarrow> string \<Rightarrow> parsed_item \<Rightarrow> scratch \<Rightarrow> string \<Rightarrow> string parsed \<times> parsed_item \<times> scratch" where
  "item_member e env key p sc s =
     (if key = ''kind'' then set_field (readJSONStringValue e s) (\<lambda>v. p\<lparr>pi_kind := v\<rparr>) p sc
      else if key = ''name'' then set_optional (readJSONStringOrNull e s) (\<lambda>v. p\<lparr>pi_name := v\<rparr>) p sc
      else if key = ''uti'' then set_optional (readJSONStringOrNull e s) (\<lambda>v. p\<lparr>pi_uti := v\<rparr>) p sc
      else if key = ''mime'' then set_optional (readJSONStringOrNull e s) (\<lambda>v. p\<lparr>pi_mime := v\<rparr>) p sc
      else if key = ''text'' then set_optional (readJSONStringOrNull e s) (\<lambda>v. p\<lparr>pi_text := v\<rparr>) p sc
      else if key = ''bytesB64'' then item_payload e env p sc s
      else (skipJSONValue e s, p, sc))"

lemma dec_stream_weight: "dec_stream e buf rerr st = (out, d, st') \<Longrightarrow> weight st' \<le> length buf + weight st"
proof (induction e buf rerr st arbitrary: out rule: dec_stream.induct)
  case (1 e buf rerr st)
  obtain b1 r1 s1 where r: "dec_refill e buf rerr st = (b1, r1, s1)" by (metis prod_cases3)
  have w: "length b1 + weight s1 \<le> length buf + weight st" using dec_refill_weight[OF r] .
  obtain o1 ok where c: "b64_chunk (take (length b1 div 4 * 4) b1) = (o1, ok)" by fastforce
  show ?case
  proof (cases "length b1 < 4 \<or> \<not> ok")
    case True
    then have "st' = s1" using "1.prems" r c by (subst (asm) dec_stream.simps) (auto simp: Let_def split: if_splits)
    then show ?thesis using w by simp
  next
    case False
    then have "dec_stream e buf rerr st = prepend o1 (dec_stream e (drop (length b1 div 4 * 4) b1) r1 s1)"
      using r c by (subst dec_stream.simps) (simp add: Let_def)
    then obtain o2 where "dec_stream e (drop (length b1 div 4 * 4) b1) r1 s1 = (o2, d, st')"
      using "1.prems" by (cases "dec_stream e (drop (length b1 div 4 * 4) b1) r1 s1") (auto simp: prepend_def)
    with "1.IH"[OF r[symmetric] refl refl _ refl c[symmetric]] False
    have "weight st' \<le> length (drop (length b1 div 4 * 4) b1) + weight s1" by simp
    also have "\<dots> \<le> length b1 + weight s1" by simp
    finally show ?thesis using w by simp
  qed
qed

lemma stream_length: "streamBase64ToTemp e env sc s = (p, err, s', sc') \<Longrightarrow> length s' \<le> length s + 1"
proof -
  assume a: "streamBase64ToTemp e env sc s = (p, err, s', sc')"
  obtain out d st where d: "dec_stream e [] None (newJSONStringReader s) = (out, d, st)" by (metis prod_cases3)
  have "length (js_rest st) \<le> length s + 1"
    using dec_stream_weight[OF d] by (simp add: weight_def newJSONStringReader_def split: if_splits)
  then show ?thesis using a d
    by (auto simp: streamBase64ToTemp_def Let_def split: if_splits option.splits)
qed

lemma item_payload_length: "item_payload e env p sc s = (Inr s', p', sc') \<Longrightarrow> length s' \<le> length s"
  by (fastforce simp: item_payload_def split: sum.splits prod.splits bool.splits option.splits
      dest!: tryConsumeNull_length skipWSThen_length stream_length)

lemma item_member_length [shrink]: "item_member e env key p sc s = (Inr s', p', sc') \<Longrightarrow> length s' \<le> length s"
  by (fastforce simp: item_member_def set_field_def set_optional_def split: if_splits sum.splits prod.splits option.splits
      dest!: readJSONStringValue_length readJSONStringOrNull_length skipJSONValue_length item_payload_length)

section \<open>Items\<close>

function item_loop ::
  "read_end \<Rightarrow> scratch_env \<Rightarrow> bool \<Rightarrow> parsed_item \<Rightarrow> scratch \<Rightarrow> string \<Rightarrow> string parsed \<times> parsed_item \<times> scratch" where
  "item_loop e env first p sc s =
     (case next_member e first s of
        Inl x \<Rightarrow> (Inl x, p, sc)
      | Inr (None, s1) \<Rightarrow> (Inr s1, p, sc)
      | Inr (Some key, s1) \<Rightarrow>
          (case item_member e env key p sc s1 of
             (Inl x, p', sc') \<Rightarrow> (Inl x, p', sc')
           | (Inr s2, p', sc') \<Rightarrow> item_loop e env False p' sc' s2))"
  by pat_completeness auto
termination
  by (relation "measure (\<lambda>(e, env, first, p, sc, s). length s)")
    (auto dest!: next_member_length item_member_length[OF sym])

declare item_loop.simps [simp del]

text \<open>The item, the scratch path it holds (to be removed later, also after an error).\<close>

definition parseOneItem ::
  "read_end \<Rightarrow> scratch_env \<Rightarrow> scratch \<Rightarrow> string \<Rightarrow> string parsed \<times> parsed_item \<times> scratch" where
  "parseOneItem e env sc s =
     (case skipWSThen e (CHR ''{'') s of
        Inl x \<Rightarrow> (Inl x, empty_item, sc)
      | Inr s1 \<Rightarrow> item_loop e env True empty_item sc s1)"

definition add_tmp :: "parsed_item \<Rightarrow> string list \<Rightarrow> string list" where
  "add_tmp p tmps = (if pi_tmpPath p \<noteq> [] then tmps @ [pi_tmpPath p] else tmps)"

lemma item_loop_length: "item_loop e env first p sc s = (Inr s', p', sc') \<Longrightarrow> length s' < length s"
proof (induction e env first p sc s rule: item_loop.induct)
  case (1 e env first p sc s)
  obtain k s1 where n: "next_member e first s = Inr (k, s1)" using "1.prems"
    by (subst (asm) item_loop.simps) (auto split: sum.splits)
  have l: "length s1 < length s" using next_member_length[OF n] .
  show ?case
  proof (cases k)
    case None
    then show ?thesis using "1.prems" n l by (subst (asm) item_loop.simps) simp
  next
    case (Some key)
    obtain r p1 sc1 where m: "item_member e env key p sc s1 = (r, p1, sc1)" by (metis prod_cases3)
    then obtain s2 where r: "r = Inr s2" using "1.prems" n Some by (subst (asm) item_loop.simps) (auto split: sum.splits)
    then have "item_loop e env False p1 sc1 s2 = (Inr s', p', sc')"
      using "1.prems" n Some m by (subst (asm) item_loop.simps) simp
    from "1.IH"[OF n refl Some m[symmetric] r refl this] item_member_length[OF m[unfolded r]] l show ?thesis by simp
  qed
qed

lemma parseOneItem_length [shrink]: "parseOneItem e env sc s = (Inr s', p, sc') \<Longrightarrow> length s' < length s"
  by (auto simp: parseOneItem_def split: sum.splits dest!: item_loop_length skipWSThen_length)

function items_loop ::
  "read_end \<Rightarrow> scratch_env \<Rightarrow> parsed_item list \<Rightarrow> string list \<Rightarrow> scratch \<Rightarrow> string \<Rightarrow>
   (parsed_item list \<times> string) parsed \<times> string list \<times> scratch" where
  "items_loop e env items tmps sc s =
     (case parseOneItem e env sc s of
        (Inl x, p, sc1) \<Rightarrow> (Inl x, add_tmp p tmps, sc1)
      | (Inr s1, p, sc1) \<Rightarrow>
          (case next_byte e s1 of
             Inl x \<Rightarrow> (Inl x, add_tmp p tmps, sc1)
           | Inr (b, s2) \<Rightarrow>
               if b = CHR '']'' then (Inr (items @ [p], s2), add_tmp p tmps, sc1)
               else if b \<noteq> CHR '','' then (Inl CeMalformed, add_tmp p tmps, sc1)
               else items_loop e env (items @ [p]) (add_tmp p tmps) sc1 s2))"
  by pat_completeness auto
termination
  by (relation "measure (\<lambda>(e, env, items, tmps, sc, s). length s)")
    (auto dest!: parseOneItem_length[OF sym] next_byte_length)

declare items_loop.simps [simp del]

definition parseItemsStreaming ::
  "read_end \<Rightarrow> scratch_env \<Rightarrow> scratch \<Rightarrow> string \<Rightarrow> (parsed_item list \<times> string) parsed \<times> string list \<times> scratch" where
  "parseItemsStreaming e env sc s =
     (case skipWSThen e (CHR ''['') s of
        Inl x \<Rightarrow> (Inl x, [], sc)
      | Inr s1 \<Rightarrow>
          (case next_byte e s1 of
             Inl x \<Rightarrow> (Inl x, [], sc)
           | Inr (b, s2) \<Rightarrow>
               if b = CHR '']'' then (Inr ([], s2), [], sc)
               else items_loop e env [] [] sc (b # s2)))"

lemma items_loop_length: "items_loop e env items tmps sc s = (Inr (its, s'), tmps', sc') \<Longrightarrow> length s' < length s"
proof (induction e env items tmps sc s rule: items_loop.induct)
  case (1 e env items tmps sc s)
  obtain r p sc1 where p: "parseOneItem e env sc s = (r, p, sc1)" by (metis prod_cases3)
  then obtain s1 where r: "r = Inr s1" using "1.prems" by (subst (asm) items_loop.simps) (auto split: sum.splits)
  obtain b s2 where n: "next_byte e s1 = Inr (b, s2)"
    using "1.prems" p r by (subst (asm) items_loop.simps) (auto split: sum.splits)
  have l: "length s1 < length s" "length s2 < length s1"
    using parseOneItem_length[OF p[unfolded r]] next_byte_length[OF n] by simp_all
  show ?case
  proof (cases "b = CHR '']'' \<or> b \<noteq> CHR '',''")
    case True
    then show ?thesis using "1.prems" p r n l by (subst (asm) items_loop.simps) (auto split: if_splits)
  next
    case False
    then have "items_loop e env (items @ [p]) (add_tmp p tmps) sc1 s2 = (Inr (its, s'), tmps', sc')"
      using "1.prems" p r n by (subst (asm) items_loop.simps) simp
    from "1.IH"[OF p[symmetric] r refl n refl _ _ this] False l show ?thesis by simp
  qed
qed

lemma parseItems_length [shrink]: "parseItemsStreaming e env sc s = (Inr (its, s'), tmps, sc') \<Longrightarrow> length s' \<le> length s"
  by (fastforce simp: parseItemsStreaming_def split: sum.splits if_splits prod.splits
      dest!: items_loop_length skipWSThen_length next_byte_length)

section \<open>The envelope\<close>

definition empty_envelope :: parsed_envelope where
  "empty_envelope = \<lparr>pe_version = 0, pe_channel = [], pe_items = []\<rparr>"

text \<open>The value of one envelope member: the envelope, the scratch paths of its items.\<close>

definition envelope_member ::
  "read_end \<Rightarrow> scratch_env \<Rightarrow> string \<Rightarrow> parsed_envelope \<Rightarrow> scratch \<Rightarrow> string \<Rightarrow>
   (parsed_envelope \<times> string) parsed \<times> string list \<times> scratch" where
  "envelope_member e env key pe sc s =
     (if key = ''version'' then
        (bind_result (readJSONNumber e s) (\<lambda>(n, s1). Inr (pe\<lparr>pe_version := n\<rparr>, s1)), [], sc)
      else if key = ''sender'' then
        (bind_result (readJSONStringValue e s) (\<lambda>(v, s1). Inr (pe, s1)), [], sc)
      else if key = ''channel'' then
        (bind_result (readJSONStringOrNull e s) (\<lambda>(v, s1).
           Inr (case v of None \<Rightarrow> pe | Some c \<Rightarrow> pe\<lparr>pe_channel := c\<rparr>, s1)), [], sc)
      else if key = ''items'' then
        (let (r, tmps, sc') = parseItemsStreaming e env sc s
         in (bind_result r (\<lambda>(its, s1). Inr (pe\<lparr>pe_items := its\<rparr>, s1)), tmps, sc'))
      else (bind_result (skipJSONValue e s) (\<lambda>s1. Inr (pe, s1)), [], sc))"

lemma envelope_member_length [shrink]:
  "envelope_member e env key pe sc s = (Inr (pe', s'), tmps, sc') \<Longrightarrow> length s' \<le> length s"
  by (fastforce simp: envelope_member_def Let_def split: if_splits prod.splits
      dest!: readJSONStringValue_length readJSONStringOrNull_length skipJSONValue_length parseItems_length readJSONNumber_length)

function envelope_loop ::
  "read_end \<Rightarrow> scratch_env \<Rightarrow> bool \<Rightarrow> parsed_envelope \<Rightarrow> string list \<Rightarrow> scratch \<Rightarrow> string \<Rightarrow>
   (parsed_envelope \<times> string) parsed \<times> string list \<times> scratch" where
  "envelope_loop e env first pe tmps sc s =
     (case next_member e first s of
        Inl x \<Rightarrow> (Inl x, tmps, sc)
      | Inr (None, s1) \<Rightarrow> (Inr (pe, s1), tmps, sc)
      | Inr (Some key, s1) \<Rightarrow>
          (case envelope_member e env key pe sc s1 of
             (Inl x, ts, sc') \<Rightarrow> (Inl x, tmps @ ts, sc')
           | (Inr (pe', s2), ts, sc') \<Rightarrow> envelope_loop e env False pe' (tmps @ ts) sc' s2))"
  by pat_completeness auto
termination
  by (relation "measure (\<lambda>(e, env, first, pe, tmps, sc, s). length s)")
    (auto dest!: next_member_length envelope_member_length[OF sym])

declare envelope_loop.simps [simp del]

definition parseEnvelopeStreaming ::
  "read_end \<Rightarrow> scratch_env \<Rightarrow> scratch \<Rightarrow> string \<Rightarrow> (parsed_envelope \<times> string) parsed \<times> string list \<times> scratch" where
  "parseEnvelopeStreaming e env sc s =
     (case expectByte e (CHR ''{'') s of
        Inl x \<Rightarrow> (Inl x, [], sc)
      | Inr s1 \<Rightarrow> envelope_loop e env True empty_envelope [] sc s1)"

section \<open>The decoder on a well-formed string\<close>

lemma jsr_read_take:
  assumes "jsr_read e (Suc k) st = (bs, err, st')" and "remaining e st = (all, None, r)"
  shows "if all = [] then bs = [] \<and> err = Some JEOF \<and> js_rest st' = r
    else err = None \<and> bs = take (Suc k) all \<and> remaining e st' = (drop (Suc k) all, None, r)"
proof -
  note sp = jsr_read_spec[OF assms(1) zero_less_Suc]
  show ?thesis
  proof (cases err)
    case None
    obtain all' er r' where d: "remaining e st' = (all', er, r')" by (metis prod_cases3)
    have m: "all = bs @ all'" "er = None" "r' = r" "bs \<noteq> []" "length bs < Suc k \<longrightarrow> all' = []" "length bs \<le> Suc k"
      using sp None assms(2) d by (auto simp: prepend_def)
    show ?thesis
    proof (cases "length bs = Suc k")
      case True
      then show ?thesis using m d None by simp
    next
      case False
      then have "length bs < Suc k" using m(6) by simp
      then show ?thesis using m d None by simp
    qed
  next
    case (Some x)
    then show ?thesis using sp assms(2) by (cases x) auto
  qed
qed

text \<open>A read either extends the buffer as \<open>b64_refill\<close> does, or finds the end.\<close>

lemma filter_read_refill:
  assumes "filter_read e k st = (bs, err, st')" and "remaining e st = (all, None, r)"
    and "length buf < 4" and "Suc k = 1024 - length buf"
  shows "(err = None \<and> (\<exists>all'. b64_refill buf all = b64_refill (buf @ bs) all' \<and> remaining e st' = (all', None, r))) \<or>
    (err = Some JEOF \<and> bs = [] \<and> b64_refill buf all = (buf, []) \<and> js_rest st' = r)"
  using assms
proof (induction e k st arbitrary: all rule: filter_read.induct)
  case (1 e k st)
  obtain b1 e1 s1 where rd: "jsr_read e (Suc k) st = (b1, e1, s1)" by (metis prod_cases3)
  note t = jsr_read_take[OF rd "1.prems"(2)]
  show ?case
  proof (cases "all = []")
    case True
    then have "bs = [] \<and> err = Some JEOF \<and> js_rest st' = r" using "1.prems"(1) t rd by (subst (asm) filter_read.simps) auto
    moreover have "b64_refill buf [] = (buf, [])" by (subst b64_refill.simps) simp
    ultimately show ?thesis using True by simp
  next
    case False
    then have e1: "e1 = None" "b1 = take (Suc k) all" "remaining e s1 = (drop (Suc k) all, None, r)" "b1 \<noteq> []" using t by auto
    have step: "b64_refill buf all = b64_refill (buf @ filter not_newline b1) (drop (Suc k) all)"
      using False "1.prems"(3,4) e1(2) by (subst b64_refill.simps) simp
    show ?thesis
    proof (cases "filter not_newline b1 = []")
      case True
      then have f: "filter_read e k s1 = (bs, err, st')" using "1.prems"(1) rd e1(4) by (subst (asm) filter_read.simps) simp
      have "b64_refill buf all = b64_refill buf (drop (Suc k) all)" using step True by simp
      then show ?thesis using "1.IH"[OF rd[symmetric] refl refl e1(4) _ f e1(3) "1.prems"(3,4)] True by simp
    next
      case False
      then have "bs = filter not_newline b1" "err = None" "st' = s1"
        using "1.prems"(1) rd e1(1,4) by (subst (asm) filter_read.simps, auto)+
      then show ?thesis using step e1(3) by auto
    qed
  qed
qed

lemma dec_refill_value:
  assumes "remaining e st = (all, None, r)" and "dec_refill e buf None st = (buf', rerr', st')"
  shows "\<exists>all'. b64_refill buf all = (buf', all') \<and>
    (rerr' = None \<and> remaining e st' = (all', None, r) \<and> 4 \<le> length buf' \<or> rerr' = Some JEOF \<and> all' = [] \<and> js_rest st' = r)"
  using assms
proof (induction "weight st" arbitrary: buf st all rule: less_induct)
  case less
  show ?case
  proof (cases "length buf < 4")
    case False
    then have "buf' = buf" "rerr' = None" "st' = st" using less.prems(2) by (subst (asm) dec_refill.simps, simp)+
    moreover have "b64_refill buf all = (buf, all)" using False by (subst b64_refill.simps) simp
    ultimately show ?thesis using less.prems(1) False by simp
  next
    case True
    obtain bs err s1 where f: "filter_read e (1023 - length buf) st = (bs, err, s1)" by (metis prod_cases3)
    then have d: "dec_refill e (buf @ bs) err s1 = (buf', rerr', st')"
      using less.prems(2) True by (subst (asm) dec_refill.simps) simp
    have k: "Suc (1023 - length buf) = 1024 - length buf" using True by simp
    from filter_read_refill[OF f less.prems(1) True k]
    consider (more) all' where "err = None" "b64_refill buf all = b64_refill (buf @ bs) all'" "remaining e s1 = (all', None, r)"
      | (fin) "err = Some JEOF" "bs = []" "b64_refill buf all = (buf, [])" "js_rest s1 = r" by blast
    then show ?thesis
    proof cases
      case more
      have "weight s1 < weight st" using filter_read_weight[OF f] more(1) by (cases bs) auto
      from less.hyps[OF this more(3)] d more(1,2) show ?thesis by simp
    next
      case fin
      then have "buf' = buf" "rerr' = Some JEOF" "st' = s1" using d by (subst (asm) dec_refill.simps, simp)+
      then show ?thesis using fin by simp
    qed
  qed
qed

definition dec_of :: "b64_end \<Rightarrow> dec_end" where
  "dec_of d = (case d of B64Done \<Rightarrow> DecDone | B64Corrupt \<Rightarrow> DecCorrupt | B64Partial \<Rightarrow> DecPartial)"

text \<open>The stream over the reader is the stream over the string, and the whole string is consumed.\<close>

lemma dec_stream_value:
  assumes "rerr = None \<and> remaining e st = (all, None, r) \<or> rerr = Some JEOF \<and> all = [] \<and> js_rest st = r"
    and "b64_stream buf all = (out, d)"
  shows "\<exists>st'. dec_stream e buf rerr st = (out, dec_of d, st') \<and> (d \<noteq> B64Corrupt \<longrightarrow> js_rest st' = r)"
  using assms
proof (induction buf all arbitrary: rerr st out d rule: b64_stream.induct)
  case (1 buf all)
  obtain buf' rerr' st' where rf: "dec_refill e buf rerr st = (buf', rerr', st')" by (metis prod_cases3)
  obtain all' where br: "b64_refill buf all = (buf', all')"
    and dis: "rerr' = None \<and> remaining e st' = (all', None, r) \<and> 4 \<le> length buf' \<or> rerr' = Some JEOF \<and> all' = [] \<and> js_rest st' = r"
  proof (cases "rerr = None")
    case True
    then show thesis using dec_refill_value[of e st all r buf buf' rerr' st'] "1.prems"(1) rf that by auto
  next
    case False
    then have "all = []" "rerr = Some JEOF" "js_rest st = r" using "1.prems"(1) by auto
    moreover from this have "buf' = buf" "rerr' = rerr" "st' = st" using rf by (subst (asm) dec_refill.simps, simp)+
    moreover have "b64_refill buf [] = (buf, [])" by (subst b64_refill.simps) simp
    ultimately show thesis using that by simp
  qed
  let ?nr = "length buf' div 4 * 4"
  show ?case
  proof (cases "length buf' < 4")
    case True
    then have "rerr' = Some JEOF" "js_rest st' = r" using dis by auto
    moreover have "out = []" "d = (if buf' = [] then B64Done else B64Partial)"
      using "1.prems"(2) br True by (subst (asm) b64_stream.simps, simp)+
    ultimately show ?thesis using rf True by (subst dec_stream.simps) (simp add: dec_of_def)
  next
    case False
    obtain o1 ok where c: "b64_chunk (take ?nr buf') = (o1, ok)" by fastforce
    show ?thesis
    proof (cases ok)
      case ok: True
      obtain o2 d2 where bs: "b64_stream (drop ?nr buf') all' = (o2, d2)" by fastforce
      have od: "out = o1 @ o2" "d = d2"
        using "1.prems"(2) br False c ok bs by (subst (asm) b64_stream.simps, simp add: Let_def)+
      from "1.IH"[OF br[symmetric] refl False refl c[symmetric] refl ok _ bs, of rerr' st'] dis
      obtain st2 where "dec_stream e (drop ?nr buf') rerr' st' = (o2, dec_of d2, st2)" "d2 \<noteq> B64Corrupt \<longrightarrow> js_rest st2 = r"
        by auto
      then show ?thesis using rf False c ok od by (subst dec_stream.simps) (simp add: Let_def prepend_def)
    next
      case False
      then show ?thesis using "1.prems"(2) br rf c \<open>\<not> length buf' < 4\<close>
        by (subst dec_stream.simps, subst (asm) b64_stream.simps) (simp add: Let_def dec_of_def)
    qed
  qed
qed

lemma dec_stream_new:
  assumes "unescape e s = (tx, None, r)" and "b64_stream [] tx = (out, d)"
  shows "\<exists>st'. dec_stream e [] None (newJSONStringReader s) = (out, dec_of d, st') \<and> (d \<noteq> B64Corrupt \<longrightarrow> js_rest st' = r)"
  using dec_stream_value[of None e "newJSONStringReader s" tx r "[]" out d] assms by (simp add: remaining_new)

section \<open>What the sender writes\<close>

text \<open>\<open>MarshalEnvelope\<close>: \<open>json.Marshal\<close> of the envelope, fields in struct order, nil optionals left out.\<close>

definition jmember :: "string \<Rightarrow> string \<Rightarrow> string" where
  "jmember key v = quote # key @ quote # CHR '':'' # v"

definition jopt :: "string \<Rightarrow> string option \<Rightarrow> string" where
  "jopt key v = (case v of None \<Rightarrow> [] | Some x \<Rightarrow> CHR '','' # jmember key (jstr x))"

definition marshal_item :: "item \<Rightarrow> string" where
  "marshal_item it =
     CHR ''{'' # jmember ''kind'' (jstr (item_kind it)) @ jopt ''name'' (item_name it) @ jopt ''uti'' (item_uti it) @
     jopt ''mime'' (item_mime it) @ jopt ''bytesB64'' (item_bytesB64 it) @ jopt ''text'' (item_text it) @ ''}''"

definition marshal_int :: "int \<Rightarrow> string" where
  "marshal_int n = (if n < 0 then CHR ''-'' # decimal (nat (- n)) else decimal (nat n))"

definition MarshalEnvelope :: "envelope \<Rightarrow> string" where
  "MarshalEnvelope env =
     CHR ''{'' # jmember ''version'' (marshal_int (env_version env)) @ CHR '','' # jmember ''sender'' (jstr (env_sender env)) @
     CHR '','' # jmember ''items'' (CHR ''['' # join_with (CHR '','') (map marshal_item (env_items env)) @ '']'') @
     jopt ''channel'' (env_channel env) @ ''}''"

section \<open>What the parser makes of it\<close>

definition coerced :: "string option \<Rightarrow> string" where
  "coerced v = (case v of None \<Rightarrow> [] | Some x \<Rightarrow> utf8_coerce x)"

definition parsed_of :: "scratch_env \<Rightarrow> scratch \<Rightarrow> item \<Rightarrow> parsed_item" where
  "parsed_of env sc it =
     \<lparr>pi_kind = utf8_coerce (item_kind it), pi_name = coerced (item_name it), pi_uti = coerced (item_uti it),
      pi_mime = coerced (item_mime it), pi_text = coerced (item_text it),
      pi_tmpPath = (case item_bytesB64 it of None \<Rightarrow> [] | Some _ \<Rightarrow> se_name env (sc_next sc))\<rparr>"

definition payload_of :: "item \<Rightarrow> string option" where
  "payload_of it = map_option (\<lambda>b. fst (b64_stream [] b)) (item_bytesB64 it)"

definition scratch_of :: "scratch_env \<Rightarrow> scratch \<Rightarrow> item \<Rightarrow> scratch" where
  "scratch_of env sc it =
     (case payload_of it of
        None \<Rightarrow> sc
      | Some d \<Rightarrow> \<lparr>sc_files = sc_files sc @ [(se_name env (sc_next sc), d)], sc_next = Suc (sc_next sc)\<rparr>)"

fun expect :: "scratch_env \<Rightarrow> scratch \<Rightarrow> item list \<Rightarrow> parsed_item list \<times> scratch" where
  "expect env sc [] = ([], sc)"
| "expect env sc (it # its) =
     (let (ps, sc') = expect env (scratch_of env sc it) its in (parsed_of env sc it # ps, sc'))"

definition tmp_paths :: "parsed_item list \<Rightarrow> string list" where
  "tmp_paths ps = filter (\<lambda>p. p \<noteq> []) (map pi_tmpPath ps)"

definition scratch_ok :: "scratch_env \<Rightarrow> bool" where
  "scratch_ok env \<longleftrightarrow> se_dir_ok env \<and> (\<forall>n. se_create_ok env n \<and> se_close_ok env n \<and> se_room env n = None \<and> se_name env n \<noteq> [])"

definition sendable :: "item \<Rightarrow> bool" where
  "sendable it \<longleftrightarrow> (\<forall>b. item_bytesB64 it = Some b \<longrightarrow> b \<in> range b64_encode)"

definition plain_key :: "string \<Rightarrow> bool" where
  "plain_key k \<longleftrightarrow> (\<forall>c\<in>set k. c \<noteq> quote \<and> c \<noteq> backslash)"

lemma readShort_plain [reads]: "plain_key k \<Longrightarrow> readShortJSONString e (k @ quote # t) = Inr (k, t)"
  by (simp add: readShortJSONString_eq plain_key_def unescape_plain)

lemma next_member_first [reads]: "plain_key k \<Longrightarrow> next_member e True (jmember k v @ t) = Inr (Some k, v @ t)"
  by (simp add: next_member_def jmember_def reads skipWSThen_def)

lemma next_member_more [reads]: "plain_key k \<Longrightarrow> next_member e False (CHR '','' # jmember k v @ t) = Inr (Some k, v @ t)"
  by (simp add: next_member_def jmember_def reads skipWSThen_def)

lemma next_member_end [reads]: "next_member e f (CHR ''}'' # t) = Inr (None, t)"
  by (simp add: next_member_def reads)

lemma readValue_jstr [reads]: "readJSONStringValue e (jstr v @ t) = Inr (utf8_coerce v, t)"
  by (simp add: readJSONStringValue_def jstr_def skipWSThen_def reads readShortJSONString_eq unescape_marshal)

lemma readOrNull_jstr [reads]: "readJSONStringOrNull e (jstr v @ t) = Inr (Some (utf8_coerce v), t)"
proof -
  have "tryConsumeNull e (jstr v @ t) = Inr (False, jstr v @ t)"
    by (simp add: tryConsumeNull_def jstr_def reads)
  then show ?thesis by (simp add: readJSONStringOrNull_def reads)
qed

lemma coerce_b64: "utf8_coerce (b64_encode d) = b64_encode d"
proof (rule utf8_coerce_valid, rule valid_utf8_ascii, rule ballI)
  fix c assume "c \<in> set (b64_encode d)"
  moreover have "list_all (\<lambda>c. code c < 128) (pad_char # b64_alphabet)" by code_simp
  ultimately show "code c < 128" using b64_encode_chars[of c d] by (auto simp: list_all_iff)
qed

lemma item_payload_jstr:
  assumes "scratch_ok env"
  shows "item_payload e env p sc (jstr (b64_encode d) @ t) =
    (Inr t, p\<lparr>pi_tmpPath := se_name env (sc_next sc)\<rparr>,
     \<lparr>sc_files = sc_files sc @ [(se_name env (sc_next sc), d)], sc_next = Suc (sc_next sc)\<rparr>)"
proof -
  have u: "unescape e (marshal_string (b64_encode d) @ quote # t) = (b64_encode d, None, t)"
    using unescape_marshal[of e "b64_encode d" t] by (simp add: coerce_b64)
  from dec_stream_new[OF u b64_stream_encode] obtain st where
    "dec_stream e [] None (newJSONStringReader (marshal_string (b64_encode d) @ quote # t)) = (d, DecDone, st)" "js_rest st = t"
    by (auto simp: dec_of_def)
  then have "streamBase64ToTemp e env sc (marshal_string (b64_encode d) @ quote # t) =
    (se_name env (sc_next sc), None, t,
     \<lparr>sc_files = sc_files sc @ [(se_name env (sc_next sc), d)], sc_next = Suc (sc_next sc)\<rparr>)"
    using assms by (simp add: streamBase64ToTemp_def scratch_ok_def dec_error_def Let_def)
  moreover have "tryConsumeNull e (jstr (b64_encode d) @ t) = Inr (False, jstr (b64_encode d) @ t)"
    by (simp add: tryConsumeNull_def jstr_def reads)
  ultimately show ?thesis by (simp add: item_payload_def jstr_def skipWSThen_def reads)
qed

text \<open>One optional member of an item.\<close>

lemma item_loop_opt:
  assumes "plain_key k" and "\<And>x. v = Some x \<Longrightarrow> item_member e env k p sc (jstr x @ t) = (Inr t, p', sc')"
    and "v = None \<Longrightarrow> p' = p \<and> sc' = sc"
  shows "item_loop e env False p sc (jopt k v @ t) = item_loop e env False p' sc' t"
proof (cases v)
  case None
  then show ?thesis using assms(3) by (simp add: jopt_def)
next
  case (Some x)
  have "next_member e False (jopt k v @ t) = Inr (Some k, jstr x @ t)"
    using assms(1) Some by (simp add: jopt_def reads)
  then show ?thesis using assms(2)[OF Some] by (subst item_loop.simps) simp
qed

lemma parseOneItem_marshal:
  assumes ok: "scratch_ok env" and it: "sendable it"
  shows "parseOneItem e env sc (marshal_item it @ t) = (Inr t, parsed_of env sc it, scratch_of env sc it)"
proof -
  let ?p1 = "empty_item\<lparr>pi_kind := utf8_coerce (item_kind it)\<rparr>"
  let ?p2 = "?p1\<lparr>pi_name := coerced (item_name it)\<rparr>"
  let ?p3 = "?p2\<lparr>pi_uti := coerced (item_uti it)\<rparr>"
  let ?p4 = "?p3\<lparr>pi_mime := coerced (item_mime it)\<rparr>"
  let ?p5 = "?p4\<lparr>pi_tmpPath := (case item_bytesB64 it of None \<Rightarrow> [] | Some _ \<Rightarrow> se_name env (sc_next sc))\<rparr>"
  let ?p6 = "?p5\<lparr>pi_text := coerced (item_text it)\<rparr>"
  let ?sc = "scratch_of env sc it"
  let ?t6 = "CHR ''}'' # t"
  let ?t5 = "jopt ''text'' (item_text it) @ ?t6"
  let ?t4 = "jopt ''bytesB64'' (item_bytesB64 it) @ ?t5"
  let ?t3 = "jopt ''mime'' (item_mime it) @ ?t4"
  let ?t2 = "jopt ''uti'' (item_uti it) @ ?t3"
  let ?t1 = "jopt ''name'' (item_name it) @ ?t2"
  have pk: "plain_key ''kind''" "plain_key ''name''" "plain_key ''uti''" "plain_key ''mime''" "plain_key ''bytesB64''" "plain_key ''text''"
    by (simp_all add: plain_key_def)
  note ms = item_member_def set_field_def set_optional_def reads coerced_def
  have "parseOneItem e env sc (marshal_item it @ t) =
      item_loop e env True empty_item sc (jmember ''kind'' (jstr (item_kind it)) @ ?t1)"
    by (simp add: parseOneItem_def marshal_item_def skipWSThen_def reads)
  also have "\<dots> = item_loop e env False ?p1 sc ?t1"
    by (subst item_loop.simps) (simp add: pk ms)
  also have "\<dots> = item_loop e env False ?p2 sc ?t2"
    by (rule item_loop_opt[OF pk(2)]) (simp_all add: ms empty_item_def)
  also have "\<dots> = item_loop e env False ?p3 sc ?t3"
    by (rule item_loop_opt[OF pk(3)]) (simp_all add: ms empty_item_def)
  also have "\<dots> = item_loop e env False ?p4 sc ?t4"
    by (rule item_loop_opt[OF pk(4)]) (simp_all add: ms empty_item_def)
  also have "\<dots> = item_loop e env False ?p5 ?sc ?t5"
  proof (rule item_loop_opt[OF pk(5)])
    fix x assume x: "item_bytesB64 it = Some x"
    then obtain d where d: "x = b64_encode d" using it by (auto simp: sendable_def)
    have "scratch_of env sc it = \<lparr>sc_files = sc_files sc @ [(se_name env (sc_next sc), d)], sc_next = Suc (sc_next sc)\<rparr>"
      by (simp add: scratch_of_def payload_of_def x d b64_stream_encode)
    then show "item_member e env ''bytesB64'' ?p4 sc (jstr x @ ?t5) = (Inr ?t5, ?p5, ?sc)"
      using item_payload_jstr[OF ok, of e ?p4 sc d ?t5] by (simp add: item_member_def x d)
  qed (simp add: scratch_of_def payload_of_def empty_item_def)
  also have "\<dots> = item_loop e env False ?p6 ?sc ?t6"
    by (rule item_loop_opt[OF pk(6)]) (simp_all add: ms empty_item_def)
  also have "\<dots> = (Inr t, ?p6, ?sc)" by (subst item_loop.simps) (simp add: reads)
  also have "?p6 = parsed_of env sc it" by (simp add: parsed_of_def empty_item_def)
  finally show ?thesis .
qed

lemma tmp_paths_simps [simp]: "tmp_paths [] = []" "tmp_paths (ps @ [p]) = add_tmp p (tmp_paths ps)"
  "tmp_paths (p # ps) = add_tmp p [] @ tmp_paths ps"
  by (simp_all add: tmp_paths_def add_tmp_def)

lemma add_tmp_append: "add_tmp p tmps = tmps @ add_tmp p []"
  by (simp add: add_tmp_def)

lemma items_loop_marshal:
  assumes ok: "scratch_ok env"
  shows "its \<noteq> [] \<Longrightarrow> \<forall>it\<in>set its. sendable it \<Longrightarrow> expect env sc its = (ps, sc') \<Longrightarrow>
    items_loop e env acc tmps sc (join_with (CHR '','') (map marshal_item its) @ CHR '']'' # t) =
      (Inr (acc @ ps, t), tmps @ tmp_paths ps, sc')"
proof (induction its arbitrary: acc tmps sc ps)
  case (Cons it its)
  obtain ps1 where ps: "expect env (scratch_of env sc it) its = (ps1, sc')" "ps = parsed_of env sc it # ps1"
    using Cons.prems(3) by (auto split: prod.splits)
  note one = parseOneItem_marshal[OF ok, of it e sc]
  show ?case
  proof (cases "its = []")
    case True
    then show ?thesis using Cons.prems(2) ps one
      by (subst items_loop.simps) (simp add: reads add_tmp_append[of _ tmps])
  next
    case False
    then have j: "join_with (CHR '','') (map marshal_item (it # its)) =
        marshal_item it @ CHR '','' # join_with (CHR '','') (map marshal_item its)"
      by (cases its) auto
    have "items_loop e env acc tmps sc (join_with (CHR '','') (map marshal_item (it # its)) @ CHR '']'' # t) =
        items_loop e env (acc @ [parsed_of env sc it]) (add_tmp (parsed_of env sc it) tmps) (scratch_of env sc it)
          (join_with (CHR '','') (map marshal_item its) @ CHR '']'' # t)"
      unfolding j using Cons.prems(2) one by (subst items_loop.simps) (simp add: reads)
    also have "\<dots> = (Inr (acc @ ps, t), tmps @ tmp_paths ps, sc')"
      using Cons.IH[OF False _ ps(1)] Cons.prems(2) ps(2) by (simp add: add_tmp_append[of _ tmps])
    finally show ?thesis .
  qed
qed simp

lemma marshal_item_Cons: "\<exists>r. marshal_item it = CHR ''{'' # r"
  by (simp add: marshal_item_def)

lemma parseItems_marshal:
  assumes ok: "scratch_ok env" and its: "\<forall>it\<in>set its. sendable it" and ex: "expect env sc its = (ps, sc')"
  shows "parseItemsStreaming e env sc (CHR ''['' # join_with (CHR '','') (map marshal_item its) @ CHR '']'' # t) =
      (Inr (ps, t), tmp_paths ps, sc')"
proof (cases "its = []")
  case True
  then show ?thesis using ex by (simp add: parseItemsStreaming_def skipWSThen_def reads)
next
  case False
  then obtain it its' where "its = it # its'" by (cases its) auto
  then obtain r where "join_with (CHR '','') (map marshal_item its) = CHR ''{'' # r"
    using marshal_item_Cons[of it] by (cases its') auto
  then show ?thesis using items_loop_marshal[OF ok False its ex, of e "[]" "[]" t]
    by (simp add: parseItemsStreaming_def skipWSThen_def reads)
qed

text \<open>The version number.\<close>

lemma num_loop_digits: "\<forall>c\<in>set ds. num_byte c \<Longrightarrow> num_loop e (ds @ CHR '','' # t) = Inr (ds, CHR '','' # t)"
  by (induction ds) (simp_all add: num_byte_def is_digit_def)

lemma read_version:
  assumes "- (2 ^ 63) \<le> n" and "n < 2 ^ 63"
  shows "readJSONNumber e (marshal_int n @ CHR '','' # t) = Inr (n, CHR '','' # t)"
proof -
  let ?m = "marshal_int n"
  have b: "\<forall>c\<in>set ?m. num_byte c" using decimal_digits by (auto simp: marshal_int_def num_byte_def)
  obtain c r where cr: "?m = c # r" by (cases ?m) (auto simp: marshal_int_def split: if_splits)
  have "\<not> is_ws c" using b cr by (auto simp: num_byte_def is_ws_def is_digit_def)
  then have w: "skipWS e (?m @ CHR '','' # t) = Inr (?m @ CHR '','' # t)" by (simp add: cr)
  have "atoi ?m = Some n"
  proof (cases "n < 0")
    case True
    have "atoi_digits (decimal (nat (- n))) = Some (nat (- n))"
      by (auto simp: atoi_digits_def list_all_iff decimal_digits)
    then show ?thesis using True assms by (simp add: marshal_int_def atoi_def)
  next
    case False
    then show ?thesis using assms atoi_decimal[of "nat n"] by (simp add: marshal_int_def nat_less_iff)
  qed
  then show ?thesis using w num_loop_digits[OF b] cr by (simp add: readJSONNumber_def)
qed

lemma envelope_loop_step:
  assumes "next_member e first s = Inr (Some k, s1)" and "envelope_member e env k pe sc s1 = (Inr (pe', s2), ts, sc')"
  shows "envelope_loop e env first pe tmps sc s = envelope_loop e env False pe' (tmps @ ts) sc' s2"
  using assms by (subst envelope_loop.simps) simp

lemma parse_envelope_marshal:
  assumes ok: "scratch_ok env" and its: "\<forall>it\<in>set (env_items en). sendable it"
    and v: "- (2 ^ 63) \<le> env_version en" "env_version en < 2 ^ 63"
    and ex: "expect env sc (env_items en) = (ps, sc')"
  shows "parseEnvelopeStreaming e env sc (MarshalEnvelope en @ t) =
    (Inr (\<lparr>pe_version = env_version en, pe_channel = coerced (env_channel en), pe_items = ps\<rparr>, t), tmp_paths ps, sc')"
proof -
  let ?p1 = "empty_envelope\<lparr>pe_version := env_version en\<rparr>"
  let ?p2 = "?p1\<lparr>pe_items := ps\<rparr>"
  let ?p3 = "?p2\<lparr>pe_channel := coerced (env_channel en)\<rparr>"
  let ?fin = "CHR ''}'' # t"
  let ?t3 = "jopt ''channel'' (env_channel en) @ ?fin"
  let ?items = "CHR ''['' # join_with (CHR '','') (map marshal_item (env_items en)) @ CHR '']'' # ?t3"
  let ?t2 = "CHR '','' # jmember ''items'' ?items"
  let ?t1 = "CHR '','' # jmember ''sender'' (jstr (env_sender en) @ ?t2)"
  let ?t0 = "jmember ''version'' (marshal_int (env_version en) @ ?t1)"
  have jm: "jmember k v @ u = jmember k (v @ u)" for k v u by (simp add: jmember_def)
  have pk: "plain_key ''version''" "plain_key ''sender''" "plain_key ''items''" "plain_key ''channel''"
    by (simp_all add: plain_key_def)
  have nm: "next_member e True (jmember k v) = Inr (Some k, v)" "next_member e False (CHR '','' # jmember k v) = Inr (Some k, v)"
    if "plain_key k" for k v
    using next_member_first[OF that, of e v "[]"] next_member_more[OF that, of e v "[]"] by simp_all
  have "parseEnvelopeStreaming e env sc (MarshalEnvelope en @ t) = envelope_loop e env True empty_envelope [] sc ?t0"
    by (simp add: parseEnvelopeStreaming_def MarshalEnvelope_def expectByte_def reads jm)
  also have "\<dots> = envelope_loop e env False ?p1 [] sc ?t1"
    using envelope_loop_step[OF nm(1)[OF pk(1)], of env empty_envelope sc "marshal_int (env_version en) @ ?t1"]
    by (simp add: envelope_member_def read_version[OF v])
  also have "\<dots> = envelope_loop e env False ?p1 [] sc ?t2"
    using envelope_loop_step[OF nm(2)[OF pk(2)], of env ?p1 sc "jstr (env_sender en) @ ?t2"]
    by (simp add: envelope_member_def reads)
  also have "\<dots> = envelope_loop e env False ?p2 (tmp_paths ps) sc' ?t3"
    using envelope_loop_step[OF nm(2)[OF pk(3)], of env ?p1 sc ?items] parseItems_marshal[OF ok its ex, of e ?t3]
    by (simp add: envelope_member_def)
  also have "\<dots> = envelope_loop e env False ?p3 (tmp_paths ps) sc' ?fin"
  proof (cases "env_channel en")
    case None
    then show ?thesis by (simp add: jopt_def coerced_def empty_envelope_def)
  next
    case (Some c)
    then show ?thesis using envelope_loop_step[OF nm(2)[OF pk(4)], of env ?p2 sc' "jstr c @ ?fin"]
      by (simp add: envelope_member_def reads jopt_def coerced_def jm)
  qed
  also have "\<dots> = (Inr (?p3, t), tmp_paths ps, sc')" by (subst envelope_loop.simps) (simp add: reads)
  finally show ?thesis by (simp add: empty_envelope_def)
qed

text \<open>The metadata of an item and the payloads of a list of items, without reference to the files.\<close>

definition meta_of :: "item \<Rightarrow> parsed_item" where
  "meta_of it =
     \<lparr>pi_kind = utf8_coerce (item_kind it), pi_name = coerced (item_name it), pi_uti = coerced (item_uti it),
      pi_mime = coerced (item_mime it), pi_text = coerced (item_text it), pi_tmpPath = []\<rparr>"

definition payloads :: "item list \<Rightarrow> string list" where
  "payloads its = concat (map (\<lambda>it. case payload_of it of None \<Rightarrow> [] | Some d \<Rightarrow> [d]) its)"

lemma payloads_simps [simp]:
  "payloads [] = []" "payload_of it = None \<Longrightarrow> payloads (it # its) = payloads its"
  "payload_of it = Some d \<Longrightarrow> payloads (it # its) = d # payloads its"
  by (simp_all add: payloads_def)

lemma expect_facts:
  assumes "scratch_ok env" and "expect env sc its = (ps, sc')"
  shows "map (\<lambda>p. p\<lparr>pi_tmpPath := []\<rparr>) ps = map meta_of its \<and>
    sc_files sc' = sc_files sc @ zip (tmp_paths ps) (payloads its) \<and> length (tmp_paths ps) = length (payloads its) \<and>
    tmp_paths ps = map (se_name env) [sc_next sc..<sc_next sc + length (payloads its)] \<and>
    sc_next sc' = sc_next sc + length (payloads its)"
  using assms(2)
proof (induction its arbitrary: sc ps)
  case Nil
  then show ?case by simp
next
  case (Cons it its)
  obtain ps1 where ps: "expect env (scratch_of env sc it) its = (ps1, sc')" "ps = parsed_of env sc it # ps1"
    using Cons.prems by (auto split: prod.splits)
  have nn: "se_name env n \<noteq> []" for n using assms(1) by (simp add: scratch_ok_def)
  show ?case
  proof (cases "item_bytesB64 it")
    case None
    then have "payload_of it = None" by (simp add: payload_of_def)
    then show ?thesis using Cons.IH[OF ps(1)] ps(2) None
      by (simp add: scratch_of_def parsed_of_def meta_of_def add_tmp_def)
  next
    case (Some b)
    then obtain d where d: "payload_of it = Some d" by (simp add: payload_of_def)
    have r: "[n..<Suc (n + k)] = n # [Suc n..<Suc (n + k)]" for n k :: nat by (rule upt_conv_Cons) simp
    show ?thesis using Cons.IH[OF ps(1)] ps(2) nn Some d
      by (simp add: scratch_of_def parsed_of_def meta_of_def add_tmp_def r del: upt_Suc)
  qed
qed

section \<open>Properties\<close>

text \<open>C9. The streaming parser reads back what the sender marshals: for every envelope with any
  version, sender, channel and items, whose payloads are base64 as the sender writes it, and whatever
  follows in the body, it returns the version, the channel and each item's fields (strings with
  invalid UTF-8 replaced), and exactly one new scratch file per payload that holds the payload's
  bytes, in order.\<close>

theorem clip_envelope_roundtrip:
  assumes "scratch_ok env" and "\<forall>it\<in>set (env_items en). sendable it"
    and "- (2 ^ 63) \<le> env_version en" and "env_version en < 2 ^ 63"
  shows "\<exists>ps sc'. parseEnvelopeStreaming e env sc (MarshalEnvelope en @ t) =
      (Inr (\<lparr>pe_version = env_version en, pe_channel = coerced (env_channel en), pe_items = ps\<rparr>, t), tmp_paths ps, sc') \<and>
    map (\<lambda>p. p\<lparr>pi_tmpPath := []\<rparr>) ps = map meta_of (env_items en) \<and>
    sc_files sc' = sc_files sc @ zip (tmp_paths ps) (payloads (env_items en)) \<and>
    length (tmp_paths ps) = length (payloads (env_items en))"
proof -
  obtain ps sc' where ex: "expect env sc (env_items en) = (ps, sc')" by fastforce
  show ?thesis using parse_envelope_marshal[OF assms ex] expect_facts[OF assms(1) ex] by blast
qed

definition witness_scratch :: scratch_env where
  "witness_scratch = \<lparr>se_dir_ok = True, se_create_ok = (\<lambda>n. True), se_name = (\<lambda>n. ''/t/'' @ decimal n),
     se_room = (\<lambda>n. None), se_close_ok = (\<lambda>n. True)\<rparr>"

definition witness_envelope :: envelope where
  "witness_envelope = \<lparr>env_version = 1, env_sender = ''mac'', env_items =
     [\<lparr>item_kind = ''file'', item_name = Some ''a.bin'', item_uti = None, item_mime = None,
       item_bytesB64 = Some (b64_encode ''payload''), item_text = None\<rparr>], env_channel = None\<rparr>"

lemma witness_scratch_ok: "scratch_ok witness_scratch"
  by (simp add: scratch_ok_def witness_scratch_def)

theorem clip_envelope_roundtrip_witness:
  "\<exists>ps sc'. parseEnvelopeStreaming CleanEOF witness_scratch \<lparr>sc_files = [], sc_next = 0\<rparr> (MarshalEnvelope witness_envelope) =
      (Inr (\<lparr>pe_version = 1, pe_channel = [], pe_items = ps\<rparr>, []), tmp_paths ps, sc') \<and>
    map snd (sc_files sc') = [''payload'']"
proof -
  have "payloads (env_items witness_envelope) = [''payload'']"
    using b64_stream_encode[of "''payload''"] by (simp add: witness_envelope_def payloads_def payload_of_def del: b64_encode.simps)
  moreover have "sendable (hd (env_items witness_envelope))" by (auto simp: witness_envelope_def sendable_def simp del: b64_encode.simps)
  ultimately show ?thesis
    using clip_envelope_roundtrip[OF witness_scratch_ok, of witness_envelope CleanEOF "\<lparr>sc_files = [], sc_next = 0\<rparr>" "[]"]
    by (fastforce simp: witness_envelope_def coerced_def)
qed

end
