(* ===== verification/Fs.thy ===== *)
theory Fs
  imports GoStd "HOL-Library.AList"
begin

text \<open>
  The file system the store works on, and \<open>fsutil.go\<close> of package \<open>store\<close>. The regular files are
  an association list from absolute paths to contents; directories are not modelled (the code
  recreates them before every write and the open reports the true error). A content is raw bytes
  or the JSON text of a value, which is represented by the value. What the operating system may
  refuse is an explicit environment: each write names the step that fails.
\<close>

section \<open>Files\<close>

record recent =
  rc_path :: string
  rc_sender :: string
  rc_time :: nat

record journal_record =
  jr_type :: string
  jr_sender :: string
  jr_path :: string
  jr_hasText :: bool
  jr_text :: string

datatype content = FBytes string | FRecents "recent list" | FJournal journal_record

type_synonym fs = "(string \<times> content) list"

definition fs_put :: "string \<Rightarrow> content \<Rightarrow> fs \<Rightarrow> fs" where
  "fs_put p c fs = AList.update p c fs"

definition fs_remove :: "string \<Rightarrow> fs \<Rightarrow> fs" where
  "fs_remove p fs = AList.delete p fs"

text \<open>\<open>os.Rename\<close> of an existing file; the destination is replaced.\<close>

definition fs_rename :: "string \<Rightarrow> string \<Rightarrow> fs \<Rightarrow> fs" where
  "fs_rename src dest fs =
     (case map_of fs src of None \<Rightarrow> fs | Some c \<Rightarrow> fs_put dest c (fs_remove src fs))"

lemma map_of_put [simp]: "map_of (fs_put p c fs) = (map_of fs)(p \<mapsto> c)"
  by (simp add: fs_put_def update_conv')

lemma map_of_remove [simp]: "map_of (fs_remove p fs) = (map_of fs)(p := None)"
  by (simp add: fs_remove_def delete_conv')

lemma finite_files: "finite {p. map_of fs p \<noteq> None}"
  using finite_dom_map_of[of fs] by (simp add: dom_def)

section \<open>Atomic writes\<close>

datatype store_error =
  StEscape | StRead | StOpen | StCopy | StSync | StClose | StRename | StMkdir

text \<open>The step of a write that fails; \<open>CopyFails n\<close> is a full disk after \<open>n\<close> bytes.\<close>

datatype write_fault = WriteOk | OpenFails | CopyFails nat | SyncFails | CloseFails | RenameFails

record write_env =
  we_hex :: string
  we_fault :: write_fault

text \<open>A payload reader: the bytes it yields, and whether it ends in an error.\<close>

record source =
  src_data :: string
  src_fails :: bool

definition temp_path :: "write_env \<Rightarrow> string \<Rightarrow> string" where
  "temp_path env dest = path_join (path_dir dest) (''.clipbeam-tmp-'' @ we_hex env)"

definition writeAtomicFsync ::
  "write_env \<Rightarrow> fs \<Rightarrow> string \<Rightarrow> source \<Rightarrow> (store_error, int) result \<times> fs" where
  "writeAtomicFsync env fs dest src =
     (let tmp = temp_path env dest in
      if we_fault env = OpenFails then (Inl StOpen, fs)
      else
        let opened = fs_put tmp (FBytes []) fs;
            disk_full = (case we_fault env of CopyFails n \<Rightarrow> n < length (src_data src) | _ \<Rightarrow> False);
            copied = fs_put tmp (FBytes (src_data src)) opened
        in if disk_full then (Inl StCopy, fs_remove tmp opened)
           else if src_fails src then (Inl StRead, fs_remove tmp copied)
           else if we_fault env = SyncFails then (Inl StSync, fs_remove tmp copied)
           else if we_fault env = CloseFails then (Inl StClose, fs_remove tmp copied)
           else if we_fault env = RenameFails then (Inl StRename, fs_remove tmp copied)
           else (Inr (int (length (src_data src))), fs_rename tmp dest copied))"

text \<open>\<open>writeBytesAtomic\<close>: one \<open>Write\<close> of the whole content.\<close>

definition writeBytesAtomic ::
  "write_env \<Rightarrow> fs \<Rightarrow> string \<Rightarrow> content \<Rightarrow> (store_error, unit) result \<times> fs" where
  "writeBytesAtomic env fs dest data =
     (let tmp = temp_path env dest in
      if we_fault env = OpenFails then (Inl StOpen, fs)
      else
        let opened = fs_put tmp (FBytes []) fs;
            written = fs_put tmp data opened
        in (case we_fault env of
              CopyFails n \<Rightarrow> (Inl StCopy, fs_remove tmp opened)
            | SyncFails \<Rightarrow> (Inl StSync, fs_remove tmp written)
            | CloseFails \<Rightarrow> (Inl StClose, fs_remove tmp written)
            | RenameFails \<Rightarrow> (Inl StRename, fs_remove tmp written)
            | _ \<Rightarrow> (Inr (), fs_rename tmp dest written)))"

text \<open>The two outcomes of a write whose temporary name is fresh: the destination holds the whole
  new content and nothing else has changed, or nothing at all has changed.\<close>

lemma writeAtomicFsync_ok:
  assumes "map_of fs (temp_path env dest) = None" and "temp_path env dest \<noteq> dest"
    and "writeAtomicFsync env fs dest src = (Inr n, fs')"
  shows "n = int (length (src_data src)) \<and> \<not> src_fails src \<and>
         map_of fs' = (map_of fs)(dest \<mapsto> FBytes (src_data src))"
  using assms by (auto simp: writeAtomicFsync_def Let_def fs_rename_def fun_upd_idem fun_upd_twist
      split: if_splits write_fault.splits)

lemma writeAtomicFsync_fail:
  assumes "map_of fs (temp_path env dest) = None"
    and "writeAtomicFsync env fs dest src = (Inl e, fs')"
  shows "map_of fs' = map_of fs"
  using assms by (auto simp: writeAtomicFsync_def Let_def fun_upd_idem split: if_splits write_fault.splits)

lemma writeBytesAtomic_ok:
  assumes "map_of fs (temp_path env dest) = None" and "temp_path env dest \<noteq> dest"
    and "writeBytesAtomic env fs dest data = (Inr u, fs')"
  shows "map_of fs' = (map_of fs)(dest \<mapsto> data)"
  using assms by (auto simp: writeBytesAtomic_def Let_def fs_rename_def fun_upd_idem fun_upd_twist
      split: if_splits write_fault.splits)

lemma writeBytesAtomic_fail:
  assumes "map_of fs (temp_path env dest) = None"
    and "writeBytesAtomic env fs dest data = (Inl e, fs')"
  shows "map_of fs' = map_of fs"
  using assms by (auto simp: writeBytesAtomic_def Let_def fun_upd_idem split: if_splits write_fault.splits)

section \<open>Paths of the temporary files\<close>

lemma path_dir_abs:
  assumes "\<forall>e\<in>set es. leaf_elem e" and "leaf_elem x"
  shows "path_dir (abs_dir (es @ [x])) = abs_dir es"
proof -
  have "slash \<notin> set x" using assms(2) by (simp add: leaf_elem_def)
  then have l: "last_index (abs_dir (es @ [x])) slash = Some (if es = [] then 0 else length (abs_dir es))"
    using last_index_append[of slash x "abs_dir es"] last_index_append[of slash x "[]"]
    by (simp add: abs_dir_snoc)
  have s: "split_on slash (abs_dir es @ [slash]) = [] # (if es = [] then [[]] else es) @ [[]]"
    using split_on_abs_dir[OF assms(1), of "[]"] by simp
  have f: "fold (clean_step True) (split_on slash (abs_dir es @ [slash])) [] = rev es"
    using assms(1) unfolding s by (simp add: clean_step_def fold_clean_elems)
  have p: "has_prefix (abs_dir es @ [slash]) ''/''" by (simp add: abs_dir_def has_prefix_def)
  have c: "path_clean (abs_dir es @ [slash]) = abs_dir es"
    by (simp only: path_clean_def Let_def p f if_True rev_rev_ident) (simp add: abs_dir_def)
  show ?thesis
  proof (cases "es = []")
    case True
    have "path_clean ''/'' = ''/''" by code_simp
    then show ?thesis using True l by (simp add: path_dir_def abs_dir_snoc abs_dir_def)
  next
    case False
    then have "take (Suc (length (abs_dir es))) (abs_dir (es @ [x])) = abs_dir es @ [slash]"
      by (simp add: abs_dir_snoc)
    then show ?thesis using False l c by (simp add: path_dir_def)
  qed
qed

definition hex_ok :: "write_env \<Rightarrow> bool" where
  "hex_ok env \<longleftrightarrow> slash \<notin> set (we_hex env)"

lemma temp_path_abs:
  assumes "\<forall>e\<in>set es. leaf_elem e" and "leaf_elem x" and "hex_ok env"
  shows "temp_path env (abs_dir (es @ [x])) = abs_dir (es @ [''.clipbeam-tmp-'' @ we_hex env])"
proof -
  have "leaf_elem (''.clipbeam-tmp-'' @ we_hex env)" using assms(3) by (simp add: leaf_elem_def hex_ok_def)
  then show ?thesis using assms by (simp add: temp_path_def path_dir_abs path_join_abs_dir)
qed

lemma abs_dir_leaf_inj: "abs_dir (es @ [x]) = abs_dir (es @ [y]) \<longleftrightarrow> x = y"
  by (simp add: abs_dir_snoc)

end
