(* ===== verification/Journal.thy ===== *)
theory Journal
  imports Fs Wire Steps "HOL-Library.List_Lexorder"
begin

text \<open>
  The durable agent journal (\<open>agentjournal.go\<close> of package \<open>store\<close>): one JSON file per item under
  the \<open>journal\<close> directory, named by the clock's nanoseconds and a sequence number. A drain lists
  the names sorted byte-wise, claims the first by a rename and returns its item. What concurrent
  processes and the operating system do is an environment per round of the drain's loop.
\<close>

section \<open>Writing\<close>

definition takenPrefix :: string where
  "takenPrefix = ''.taken-''"

definition journalDir :: "string \<Rightarrow> string" where
  "journalDir agentInboxDir = path_join agentInboxDir ''journal''"

text \<open>\<open>Sprintf("%d-%020d.json", nanos, seq)\<close>.\<close>

definition journal_name :: "nat \<Rightarrow> nat \<Rightarrow> string" where
  "journal_name nanos sq = decimal nanos @ ''-'' @ zero_pad 20 (decimal sq) @ ''.json''"

text \<open>\<open>json.Marshal\<close> of a record coerces its strings to valid UTF-8.\<close>

definition marshal_record :: "journal_record \<Rightarrow> content" where
  "marshal_record r =
     FJournal \<lparr>jr_type = utf8_coerce (jr_type r), jr_sender = utf8_coerce (jr_sender r),
       jr_path = utf8_coerce (jr_path r), jr_hasText = jr_hasText r, jr_text = utf8_coerce (jr_text r)\<rparr>"

record journal_env =
  je_mkdir_fails :: bool
  je_nanos :: nat
  je_seq :: nat
  je_write :: write_env

definition writeAgentJournal ::
  "journal_env \<Rightarrow> fs \<Rightarrow> string \<Rightarrow> string \<Rightarrow> string \<Rightarrow> string \<Rightarrow> bool \<Rightarrow> string \<Rightarrow> (store_error, unit) result \<times> fs" where
  "writeAgentJournal env fs agentInboxDir atype sender path hasText text =
     (let dir = journalDir agentInboxDir in
      if je_mkdir_fails env then (Inl StMkdir, fs)
      else
        let rec = \<lparr>jr_type = atype, jr_sender = sender, jr_path = path, jr_hasText = hasText, jr_text = text\<rparr>;
            name = journal_name (je_nanos env) (je_seq env)
        in writeBytesAtomic (je_write env) fs (path_join dir name) (marshal_record rec))"

section \<open>Draining\<close>

definition recordToAgentItem :: "journal_record \<Rightarrow> agent_item" where
  "recordToAgentItem rec =
     \<lparr>ai_type = jr_type rec, ai_sender = jr_sender rec,
      ai_path = (if jr_path rec \<noteq> [] then Some (jr_path rec) else None),
      ai_text = (if jr_hasText rec then Some (jr_text rec) else None)\<rparr>"

text \<open>The names of the files directly in a directory.\<close>

definition entry_of :: "string \<Rightarrow> string \<Rightarrow> string option" where
  "entry_of dir p =
     (if has_prefix p (dir @ ''/'') \<and> slash \<notin> set (drop (length dir + 1) p)
      then Some (drop (length dir + 1) p) else None)"

definition dir_entries :: "fs \<Rightarrow> string \<Rightarrow> string list" where
  "dir_entries fs dir = List.map_filter (entry_of dir) (remdups (map fst fs))"

definition is_record_name :: "string \<Rightarrow> bool" where
  "is_record_name n \<longleftrightarrow> \<not> has_prefix n takenPrefix \<and> has_suffix n ''.json''"

definition listJournalRecords :: "fs \<Rightarrow> string \<Rightarrow> string list" where
  "listJournalRecords fs dir = sort (filter is_record_name (dir_entries fs dir))"

record drain_env =
  de_ctx_done :: bool
  de_others :: "fs \<Rightarrow> fs"
  de_readdir_fails :: bool
  de_rename_fails :: "string \<Rightarrow> bool"
  de_read_fails :: "string \<Rightarrow> bool"

text \<open>One listed name: claim it by a rename, read it, and remove the claim; a claimed record that
  cannot be read or parsed is dropped.\<close>

datatype claim = Lost | Dropped | Claimed agent_item

definition drain_one :: "drain_env \<Rightarrow> string \<Rightarrow> string \<Rightarrow> fs \<Rightarrow> claim \<times> fs" where
  "drain_one env dir name fs =
     (let src = path_join dir name; claimed = path_join dir (takenPrefix @ name) in
      if de_rename_fails env name \<or> map_of fs src = None then (Lost, fs)
      else let fs1 = fs_rename src claimed fs in
        if de_read_fails env name then (Dropped, fs_remove claimed fs1)
        else (case map_of fs1 claimed of
            Some (FJournal rec) \<Rightarrow> (Claimed (recordToAgentItem rec), fs_remove claimed fs1)
          | _ \<Rightarrow> (Dropped, fs_remove claimed fs1)))"

text \<open>The pass over the listed names. \<open>None\<close>: every candidate was lost.\<close>

fun drain_scan :: "drain_env \<Rightarrow> string \<Rightarrow> string list \<Rightarrow> fs \<Rightarrow> agent_item option \<times> fs" where
  "drain_scan env dir [] fs = (None, fs)"
| "drain_scan env dir (name # names) fs =
     (case drain_one env dir name fs of
        (Claimed it, fs1) \<Rightarrow> (Some it, fs1)
      | (_, fs1) \<Rightarrow> drain_scan env dir names fs1)"

datatype drain_result = DrainCtxErr | DrainDirErr | DrainEmpty | DrainItem agent_item

text \<open>The re-listing loop, \<open>fuel\<close> rounds of it; \<open>env k\<close> is what happens in round \<open>k\<close>. \<open>None\<close>: it has
  not returned yet.\<close>

fun DrainAgentDisk :: "nat \<Rightarrow> (nat \<Rightarrow> drain_env) \<Rightarrow> nat \<Rightarrow> string \<Rightarrow> fs \<Rightarrow> (drain_result \<times> fs) option" where
  "DrainAgentDisk 0 env k inbox fs = None"
| "DrainAgentDisk (Suc fuel) env k inbox fs =
     (let dir = journalDir inbox; fs1 = de_others (env k) fs in
      if de_ctx_done (env k) then Some (DrainCtxErr, fs1)
      else if de_readdir_fails (env k) then Some (DrainDirErr, fs1)
      else let names = listJournalRecords fs1 dir in
        if names = [] then Some (DrainEmpty, fs1)
        else (case drain_scan (env k) dir names fs1 of
            (Some it, fs2) \<Rightarrow> Some (DrainItem it, fs2)
          | (None, fs2) \<Rightarrow> DrainAgentDisk fuel env (Suc k) inbox fs2))"

section \<open>Journal keys\<close>

text \<open>A record's key, ordered by time and then by sequence number: the FIFO order.\<close>

datatype jkey = JKey (key_nanos: nat) (key_seq: nat)

instantiation jkey :: linorder
begin

definition less_eq_jkey :: "jkey \<Rightarrow> jkey \<Rightarrow> bool" where
  "less_eq_jkey a b \<longleftrightarrow> key_nanos a < key_nanos b \<or> (key_nanos a = key_nanos b \<and> key_seq a \<le> key_seq b)"

definition less_jkey :: "jkey \<Rightarrow> jkey \<Rightarrow> bool" where
  "less_jkey a b \<longleftrightarrow> key_nanos a < key_nanos b \<or> (key_nanos a = key_nanos b \<and> key_seq a < key_seq b)"

instance
  by intro_classes (auto simp: less_eq_jkey_def less_jkey_def intro: jkey.expand)

end

definition key_name :: "jkey \<Rightarrow> string" where
  "key_name k = journal_name (key_nanos k) (key_seq k)"

text \<open>Keys whose names have a fixed width: the clock has 19 digits (from September 2001 to
  November 2286) and the sequence number at most 20.\<close>

definition key_ok :: "jkey \<Rightarrow> bool" where
  "key_ok k \<longleftrightarrow> 10 ^ 18 \<le> key_nanos k \<and> key_nanos k < 10 ^ 19 \<and> key_seq k < 10 ^ 20"

lemma length_decimal_ge: "10 ^ k \<le> n \<Longrightarrow> k < length (decimal n)"
proof (induction k arbitrary: n)
  case (Suc k)
  have "10 * 1 \<le> 10 * (10::nat) ^ k" by (intro mult_le_mono2) simp
  then have "10 \<le> n" using Suc.prems unfolding power_Suc by linarith
  moreover have "10 ^ k \<le> n div 10" using Suc.prems by (simp add: less_eq_div_iff_mult_less_eq mult.commute)
  ultimately show ?case using Suc.IH[of "n div 10"] by (subst decimal.simps) simp
qed simp

lemma dec_value_Cons: "dec_value (c # cs) = digit_val c * 10 ^ length cs + dec_value cs"
proof (induction cs rule: rev_induct)
  case (snoc d cs)
  have "dec_value (c # cs @ [d]) = dec_value (c # cs) * 10 + digit_val d"
    using dec_value_snoc[of "c # cs" d] by simp
  then show ?case using snoc by (simp add: algebra_simps)
qed (simp add: dec_value_def)

lemma dec_value_less: "\<forall>c\<in>set s. is_digit c \<Longrightarrow> dec_value s < 10 ^ length s"
proof (induction s)
  case (Cons c s)
  then have "dec_value s < 10 ^ length s" and "digit_val c \<le> 9"
    using digit_val_less[of c] by (auto simp: less_Suc_eq_le[symmetric])
  then have "digit_val c * 10 ^ length s + dec_value s < 9 * 10 ^ length s + 10 ^ length s"
    by (intro add_le_less_mono mult_le_mono1)
  then show ?case by (simp add: dec_value_Cons)
qed (simp add: dec_value_def)

lemma digit_val_mono: "is_digit a \<Longrightarrow> is_digit b \<Longrightarrow> a < b \<longleftrightarrow> digit_val a < digit_val b"
  by (auto simp: is_digit_iff digit_val_def less_char_def)

lemma digit_val_inj: "is_digit a \<Longrightarrow> is_digit b \<Longrightarrow> digit_val a = digit_val b \<longleftrightarrow> a = b"
  by (metis digit_char_digit_val)

text \<open>On digit strings of one length, byte order is numeric order.\<close>

lemma digits_order:
  assumes "length s = length t" and "\<forall>c\<in>set s. is_digit c" and "\<forall>c\<in>set t. is_digit c"
  shows "(s < t \<longleftrightarrow> dec_value s < dec_value t) \<and> (s = t \<longleftrightarrow> dec_value s = dec_value t)"
  using assms
proof (induction s t rule: list_induct2)
  case (Cons a s b t)
  let ?m = "10 ^ length s"
  have ih: "(s < t \<longleftrightarrow> dec_value s < dec_value t) \<and> (s = t \<longleftrightarrow> dec_value s = dec_value t)"
    using Cons by simp
  have d: "is_digit a" "is_digit b" using Cons.prems by simp_all
  have l: "dec_value s < ?m" "dec_value t < ?m"
    using dec_value_less[of s] dec_value_less[of t] Cons by auto
  have lt: "x * ?m + u < y * ?m + v" if "x < y" "u < ?m" for x y u v :: nat
  proof -
    have "x * ?m + u < Suc x * ?m" using that by simp
    also have "\<dots> \<le> y * ?m" using that by (intro mult_le_mono1) simp
    finally show ?thesis by simp
  qed
  have va: "dec_value (a # s) = digit_val a * ?m + dec_value s"
    and vb: "dec_value (b # t) = digit_val b * ?m + dec_value t"
    using Cons.hyps by (simp_all add: dec_value_Cons)
  consider "digit_val a < digit_val b" | "digit_val a = digit_val b" | "digit_val b < digit_val a" by linarith
  then show ?case
  proof cases
    case 1
    then have "a < b" "dec_value (a # s) < dec_value (b # t)"
      using d digit_val_mono lt[of _ _ "dec_value s" "dec_value t"] l unfolding va vb by blast+
    then show ?thesis by auto
  next
    case 2
    then have "a = b" using d digit_val_inj by simp
    then show ?thesis using ih unfolding va vb by simp
  next
    case 3
    then have "b < a" "dec_value (b # t) < dec_value (a # s)"
      using d digit_val_mono lt[of _ _ "dec_value t" "dec_value s"] l unfolding va vb by blast+
    then show ?thesis by auto
  qed
qed simp

lemma append_less: "length s = length s' \<Longrightarrow> s @ t < s' @ t' \<longleftrightarrow> s < s' \<or> (s = s' \<and> t < t')"
  for s s' :: string
  by (induction s s' rule: list_induct2) auto

lemma zero_pad_digits: "c \<in> set (zero_pad w (decimal n)) \<Longrightarrow> is_digit c"
proof -
  have "is_digit (CHR ''0'')" by (simp add: is_digit_iff)
  then show "c \<in> set (zero_pad w (decimal n)) \<Longrightarrow> is_digit c" by (auto simp: zero_pad_def dest: decimal_digits)
qed

lemma key_widths:
  "key_ok k \<Longrightarrow> length (decimal (key_nanos k)) = 19 \<and> length (zero_pad 20 (decimal (key_seq k))) = 20"
  using length_decimal_ge[of 18 "key_nanos k"] length_decimal_le[of "key_nanos k" 19]
    length_decimal_le[of "key_seq k" 20] length_zero_pad[of "decimal (key_seq k)" 20]
  by (simp add: key_ok_def)

lemma key_name_order:
  assumes "key_ok a" and "key_ok b"
  shows "(key_name a < key_name b \<longleftrightarrow> a < b) \<and> (key_name a = key_name b \<longleftrightarrow> a = b)"
proof -
  let ?n = "\<lambda>k. decimal (key_nanos k)" and ?s = "\<lambda>k. zero_pad 20 (decimal (key_seq k))"
  note w = key_widths[OF assms(1)] key_widths[OF assms(2)]
  have n: "(?n a < ?n b \<longleftrightarrow> key_nanos a < key_nanos b) \<and> (?n a = ?n b \<longleftrightarrow> key_nanos a = key_nanos b)"
    using digits_order[of "?n a" "?n b"] w decimal_digits by simp
  have s: "(?s a < ?s b \<longleftrightarrow> key_seq a < key_seq b) \<and> (?s a = ?s b \<longleftrightarrow> key_seq a = key_seq b)"
    using digits_order[of "?s a" "?s b"] w zero_pad_digits by simp
  have "key_name a < key_name b \<longleftrightarrow> ?n a < ?n b \<or> (?n a = ?n b \<and> ?s a < ?s b)"
    using w append_less[of "?n a" "?n b"] append_less[of "?s a" "?s b"]
    by (auto simp: key_name_def journal_name_def)
  moreover have "key_name a = key_name b \<longleftrightarrow> ?n a = ?n b \<and> ?s a = ?s b"
    using w by (simp add: key_name_def journal_name_def)
  ultimately show ?thesis using n s by (auto simp: less_jkey_def intro: jkey.expand)
qed

lemma key_name_record: "key_ok k \<Longrightarrow> is_record_name (key_name k) \<and> leaf_elem (key_name k)"
proof -
  assume "key_ok k"
  obtain c r where c: "decimal (key_nanos k) = c # r" by (cases "decimal (key_nanos k)") auto
  then have "is_digit c" using decimal_digits[of c "key_nanos k"] by simp
  then have cd: "c \<noteq> CHR ''.''" by (auto simp: is_digit_iff)
  have "slash \<notin> set (decimal n)" "slash \<notin> set (zero_pad w (decimal n))" for n w
    using decimal_digits[of slash n] zero_pad_digits[of slash w n] by (auto simp: is_digit_iff)
  then have "slash \<notin> set (key_name k)" by (simp add: key_name_def journal_name_def)
  moreover have "key_name k = c # r @ ''-'' @ zero_pad 20 (decimal (key_seq k)) @ ''.json''"
    by (simp add: key_name_def journal_name_def c)
  moreover have "has_suffix (key_name k) ''.json''"
    using has_suffix_append[of "decimal (key_nanos k) @ ''-'' @ zero_pad 20 (decimal (key_seq k))" "''.json''"]
    by (simp add: key_name_def journal_name_def)
  ultimately show ?thesis
    using cd by (auto simp: is_record_name_def leaf_elem_def takenPrefix_def has_prefix_def)
qed

section \<open>The journal as a priority queue\<close>

text \<open>The abstract view of the files: a finite map from keys to records.\<close>

definition journal_abs :: "fs \<Rightarrow> string \<Rightarrow> jkey \<Rightarrow> journal_record option" where
  "journal_abs fs dir k =
     (if key_ok k then (case map_of fs (path_join dir (key_name k)) of Some (FJournal r) \<Rightarrow> Some r | _ \<Rightarrow> None)
      else None)"

definition journal_wf :: "fs \<Rightarrow> string \<Rightarrow> bool" where
  "journal_wf fs dir \<longleftrightarrow>
     (\<forall>n. leaf_elem n \<longrightarrow> is_record_name n \<longrightarrow> map_of fs (path_join dir n) \<noteq> None \<longrightarrow>
        (\<exists>k r. key_ok k \<and> n = key_name k \<and> map_of fs (path_join dir n) = Some (FJournal r)))"

definition quiet :: "drain_env \<Rightarrow> bool" where
  "quiet env \<longleftrightarrow> \<not> de_ctx_done env \<and> (\<forall>fs. de_others env fs = fs) \<and> \<not> de_readdir_fails env \<and>
     (\<forall>n. \<not> de_rename_fails env n \<and> \<not> de_read_fails env n)"

text \<open>An absolute directory other than the root.\<close>

definition dir_ok :: "string \<Rightarrow> bool" where
  "dir_ok dir \<longleftrightarrow> (\<exists>es. es \<noteq> [] \<and> (\<forall>e\<in>set es. leaf_elem e) \<and> dir = abs_dir es)"

lemma dir_ok_join: "dir_ok dir \<Longrightarrow> leaf_elem n \<Longrightarrow> path_join dir n = dir @ ''/'' @ n"
  by (auto simp: dir_ok_def path_join_abs_dir abs_dir_snoc)

lemma dir_ok_inj: "dir_ok dir \<Longrightarrow> leaf_elem m \<Longrightarrow> leaf_elem n \<Longrightarrow> path_join dir m = path_join dir n \<longleftrightarrow> m = n"
  by (simp add: dir_ok_join)

lemma dir_ok_child: "dir_ok dir \<Longrightarrow> leaf_elem n \<Longrightarrow> dir_ok (path_join dir n)"
proof -
  assume "dir_ok dir" and n: "leaf_elem n"
  then obtain es where "es \<noteq> []" "\<forall>e\<in>set es. leaf_elem e" "dir = abs_dir es" by (auto simp: dir_ok_def)
  then show ?thesis
    using n unfolding dir_ok_def by (intro exI[of _ "es @ [n]"]) (simp add: path_join_abs_dir)
qed

lemma dir_ok_journalDir: "dir_ok inbox \<Longrightarrow> dir_ok (journalDir inbox)"
  unfolding journalDir_def by (rule dir_ok_child) (simp_all add: leaf_elem_def)

lemma taken_elem: "leaf_elem n \<Longrightarrow> leaf_elem (takenPrefix @ n) \<and> \<not> is_record_name (takenPrefix @ n)"
  by (auto simp: leaf_elem_def takenPrefix_def is_record_name_def has_prefix_def)

lemma entry_of_iff: "entry_of dir p = Some n \<longleftrightarrow> p = dir @ ''/'' @ n \<and> slash \<notin> set n"
  by (auto simp: entry_of_def has_prefix_iff)

lemma dir_entries_iff: "n \<in> set (dir_entries fs dir) \<longleftrightarrow> slash \<notin> set n \<and> map_of fs (dir @ ''/'' @ n) \<noteq> None"
proof -
  have "n \<in> set (dir_entries fs dir) \<longleftrightarrow> (\<exists>p \<in> fst ` set fs. entry_of dir p = Some n)"
    unfolding dir_entries_def map_filter_def by (force simp: image_iff)
  also have "\<dots> \<longleftrightarrow> slash \<notin> set n \<and> dir @ ''/'' @ n \<in> fst ` set fs"
    unfolding entry_of_iff by auto
  finally show ?thesis by (simp add: map_of_eq_None_iff)
qed

lemma record_name_leaf: "is_record_name n \<Longrightarrow> slash \<notin> set n \<Longrightarrow> leaf_elem n"
  by (auto simp: is_record_name_def leaf_elem_def has_suffix_def)

text \<open>What a listing of a well-formed journal contains.\<close>

lemma listing_iff:
  assumes "dir_ok dir" and "journal_wf fs dir"
  shows "n \<in> set (listJournalRecords fs dir) \<longleftrightarrow> (\<exists>k. n = key_name k \<and> journal_abs fs dir k \<noteq> None)"
proof
  assume "n \<in> set (listJournalRecords fs dir)"
  then have r: "is_record_name n" "slash \<notin> set n" "map_of fs (dir @ ''/'' @ n) \<noteq> None"
    by (auto simp: listJournalRecords_def dir_entries_iff)
  then have "leaf_elem n" using record_name_leaf by simp
  then obtain k r where "key_ok k" "n = key_name k" "map_of fs (path_join dir n) = Some (FJournal r)"
    using assms r dir_ok_join unfolding journal_wf_def by metis
  then show "\<exists>k. n = key_name k \<and> journal_abs fs dir k \<noteq> None" by (auto simp: journal_abs_def)
next
  assume "\<exists>k. n = key_name k \<and> journal_abs fs dir k \<noteq> None"
  then obtain k where k: "n = key_name k" "key_ok k" "map_of fs (path_join dir n) \<noteq> None"
    by (auto simp: journal_abs_def split: if_splits option.splits content.splits)
  then show "n \<in> set (listJournalRecords fs dir)"
    using key_name_record[of k] dir_ok_join[OF assms(1), of n]
    by (auto simp: listJournalRecords_def dir_entries_iff leaf_elem_def)
qed

lemma journal_abs_key: "journal_abs fs dir k = Some r \<Longrightarrow> key_ok k \<and> map_of fs (path_join dir (key_name k)) = Some (FJournal r)"
  by (auto simp: journal_abs_def split: if_splits option.splits content.splits)

lemma finite_journal: "dir_ok dir \<Longrightarrow> journal_wf fs dir \<Longrightarrow> finite (dom (journal_abs fs dir))"
proof -
  assume a: "dir_ok dir" "journal_wf fs dir"
  have "key_name ` dom (journal_abs fs dir) \<subseteq> set (listJournalRecords fs dir)"
    using listing_iff[OF a] by auto
  moreover have "inj_on key_name (dom (journal_abs fs dir))"
    using key_name_order by (intro inj_onI) (auto dest!: journal_abs_key)
  ultimately show ?thesis by (meson List.finite_set finite_imageD finite_subset)
qed

text \<open>Claiming one record on a quiet system.\<close>

lemma drain_one_effect:
  assumes dir: "dir_ok dir" and n: "leaf_elem n" "is_record_name n" and env: "\<not> de_rename_fails env n" "\<not> de_read_fails env n"
    and stored: "map_of fs (path_join dir n) = Some (FJournal r)"
  shows "\<exists>fs'. drain_one env dir n fs = (Claimed (recordToAgentItem r), fs') \<and>
     map_of fs' = (map_of fs)(path_join dir n := None, path_join dir (takenPrefix @ n) := None)"
proof -
  let ?c = "path_join dir (takenPrefix @ n)"
  have "map_of (fs_rename (path_join dir n) ?c fs) = (map_of fs)(path_join dir n := None, ?c \<mapsto> FJournal r)"
    by (simp add: fs_rename_def stored)
  then show ?thesis using env stored by (simp add: drain_one_def Let_def)
qed

lemma key_leaf: "key_ok k \<Longrightarrow> leaf_elem (key_name k)" and key_rec: "key_ok k \<Longrightarrow> is_record_name (key_name k)"
  using key_name_record by blast+

lemma taken_other:
  assumes "dir_ok dir" and "leaf_elem n" and "leaf_elem m" and "is_record_name m"
  shows "path_join dir (takenPrefix @ n) \<noteq> path_join dir m"
proof
  assume "path_join dir (takenPrefix @ n) = path_join dir m"
  then have "takenPrefix @ n = m" using dir_ok_inj[OF assms(1) _ assms(3)] taken_elem[OF assms(2)] by blast
  then show False using taken_elem[OF assms(2)] assms(4) by simp
qed

lemma journal_view_remove:
  assumes dir: "dir_ok dir" and k: "key_ok k"
    and fs': "map_of fs' = (map_of fs)(path_join dir (key_name k) := None, path_join dir (takenPrefix @ key_name k) := None)"
  shows "journal_abs fs' dir = (journal_abs fs dir)(k := None)"
    and "journal_wf fs dir \<Longrightarrow> journal_wf fs' dir"
proof -
  note n = key_name_record[OF k]
  note t = taken_other[OF dir key_leaf[OF k]]
  show "journal_abs fs' dir = (journal_abs fs dir)(k := None)"
  proof
    fix j
    show "journal_abs fs' dir j = ((journal_abs fs dir)(k := None)) j"
    proof (cases "key_ok j \<and> j \<noteq> k")
      case True
      then have "path_join dir (key_name j) \<noteq> path_join dir (key_name k)"
        using dir_ok_inj[OF dir key_leaf key_leaf] k key_name_order by blast
      then show ?thesis using True t[of "key_name j"] key_name_record[of j] by (simp add: journal_abs_def fs')
    next
      case False
      then consider "j = k" | "j \<noteq> k" "\<not> key_ok j" by blast
      then show ?thesis by cases (simp_all add: journal_abs_def fs')
    qed
  qed
  show "journal_wf fs' dir" if "journal_wf fs dir"
    unfolding journal_wf_def
  proof (intro allI impI)
    fix m
    assume m: "leaf_elem m" "is_record_name m" "map_of fs' (path_join dir m) \<noteq> None"
    then have "map_of fs' (path_join dir m) = map_of fs (path_join dir m)" by (auto simp: fs' split: if_splits)
    then show "\<exists>k r. key_ok k \<and> m = key_name k \<and> map_of fs' (path_join dir m) = Some (FJournal r)"
      using that[unfolded journal_wf_def, rule_format, OF m(1,2)] m(3) by simp
  qed
qed

lemma journal_view_put:
  assumes dir: "dir_ok dir" and k: "key_ok k" and wf: "journal_wf fs dir"
    and fs': "map_of fs' = (map_of fs)(path_join dir (key_name k) \<mapsto> FJournal r)"
  shows "journal_abs fs' dir = (journal_abs fs dir)(k \<mapsto> r) \<and> journal_wf fs' dir"
proof
  show "journal_abs fs' dir = (journal_abs fs dir)(k \<mapsto> r)"
  proof
    fix j
    have "path_join dir (key_name j) \<noteq> path_join dir (key_name k)" if "key_ok j" "j \<noteq> k"
      using that dir_ok_inj[OF dir key_leaf key_leaf] k key_name_order by blast
    then show "journal_abs fs' dir j = ((journal_abs fs dir)(k \<mapsto> r)) j"
      using k by (cases "j = k") (auto simp: journal_abs_def fs')
  qed
  show "journal_wf fs' dir"
    unfolding journal_wf_def
  proof (intro allI impI)
    fix m
    assume m: "leaf_elem m" "is_record_name m" "map_of fs' (path_join dir m) \<noteq> None"
    show "\<exists>k r. key_ok k \<and> m = key_name k \<and> map_of fs' (path_join dir m) = Some (FJournal r)"
    proof (cases "m = key_name k")
      case True
      then show ?thesis using k by (intro exI[of _ k] exI[of _ r]) (simp add: fs')
    next
      case False
      then have "path_join dir m \<noteq> path_join dir (key_name k)" using dir_ok_inj[OF dir m(1) key_leaf[OF k]] by simp
      then show ?thesis using m wf unfolding journal_wf_def by (auto simp: fs')
    qed
  qed
qed

lemma hd_sort_least: "xs \<noteq> [] \<Longrightarrow> hd (sort xs) \<in> set xs \<and> (\<forall>x\<in>set xs. hd (sort xs) \<le> x)"
  for xs :: "'a::linorder list"
proof -
  assume "xs \<noteq> []"
  then obtain y ys where s: "sort xs = y # ys" by (metis list.exhaust set_empty set_sort)
  have "set (y # ys) = set xs" using s by (metis set_sort)
  moreover have "\<forall>x\<in>set ys. y \<le> x" using sorted_sort[of xs] s by simp
  ultimately show ?thesis using s by auto
qed

section \<open>Concurrent drainers\<close>

text \<open>
  Several processes drain one journal. A step is a listing or one claim (its rename decides
  who wins; the read and the removal that follow touch only the claimed name); the listings
  may be stale. \<open>dr_got\<close> records what was handed out, with the record's name.
\<close>

record drainers =
  dr_fs :: fs
  dr_todo :: "nat \<Rightarrow> string list"
  dr_got :: "(string \<times> agent_item) list"

inductive drainer_step :: "string \<Rightarrow> drainers \<Rightarrow> drainers \<Rightarrow> bool" for dir :: string where
  ListNames:
    "drainer_step dir s (s\<lparr>dr_todo := (dr_todo s)(p := listJournalRecords (dr_fs s) dir)\<rparr>)"
| ClaimName:
    "dr_todo s p = n # ns \<Longrightarrow> drain_one env dir n (dr_fs s) = (Claimed it, fs1) \<Longrightarrow>
     drainer_step dir s (s\<lparr>dr_fs := fs1, dr_todo := (dr_todo s)(p := []), dr_got := dr_got s @ [(n, it)]\<rparr>)"
| LoseName:
    "dr_todo s p = n # ns \<Longrightarrow> drain_one env dir n (dr_fs s) = (c, fs1) \<Longrightarrow> (\<forall>it. c \<noteq> Claimed it) \<Longrightarrow>
     drainer_step dir s (s\<lparr>dr_fs := fs1, dr_todo := (dr_todo s)(p := ns)\<rparr>)"

definition drainers_init :: "fs \<Rightarrow> drainers \<Rightarrow> bool" where
  "drainers_init fs0 s \<longleftrightarrow> s = \<lparr>dr_fs = fs0, dr_todo = (\<lambda>p. []), dr_got = []\<rparr>"

definition record_at :: "fs \<Rightarrow> string \<Rightarrow> string \<Rightarrow> journal_record option" where
  "record_at fs dir n = (case map_of fs (path_join dir n) of Some (FJournal r) \<Rightarrow> Some r | _ \<Rightarrow> None)"

definition drainers_inv :: "string \<Rightarrow> fs \<Rightarrow> drainers \<Rightarrow> bool" where
  "drainers_inv dir fs0 s \<longleftrightarrow>
     distinct (map fst (dr_got s)) \<and>
     (\<forall>p. \<forall>n\<in>set (dr_todo s p). leaf_elem n \<and> is_record_name n) \<and>
     (\<forall>n it. (n, it) \<in> set (dr_got s) \<longrightarrow> leaf_elem n \<and> is_record_name n \<and>
        map_of (dr_fs s) (path_join dir n) = None \<and>
        (\<exists>r. record_at fs0 dir n = Some r \<and> it = recordToAgentItem r)) \<and>
     (\<forall>n. leaf_elem n \<longrightarrow> is_record_name n \<longrightarrow> map_of (dr_fs s) (path_join dir n) \<noteq> None \<longrightarrow>
        map_of (dr_fs s) (path_join dir n) = map_of fs0 (path_join dir n))"

lemma listing_names: "n \<in> set (listJournalRecords fs dir) \<Longrightarrow> leaf_elem n \<and> is_record_name n"
  using record_name_leaf by (auto simp: listJournalRecords_def dir_entries_iff)

text \<open>What one claim does to the names of records: at most the claimed one disappears.\<close>

lemma drain_one_files:
  assumes dir: "dir_ok dir" and n: "leaf_elem n" "is_record_name n" and m: "leaf_elem m" "is_record_name m"
    and one: "drain_one env dir n fs = (c, fs1)"
  shows "map_of fs1 (path_join dir m) = None \<or> map_of fs1 (path_join dir m) = map_of fs (path_join dir m)"
    and "c = Claimed it \<Longrightarrow> (\<exists>r. record_at fs dir n = Some r \<and> it = recordToAgentItem r) \<and> map_of fs1 (path_join dir n) = None"
proof -
  have "fs1 = fs \<or> (\<exists>c0. map_of fs (path_join dir n) = Some c0 \<and>
      map_of fs1 = (map_of fs)(path_join dir n := None, path_join dir (takenPrefix @ n) := None))"
    using one by (auto simp: drain_one_def Let_def fs_rename_def split: if_splits option.splits content.splits)
  then show "map_of fs1 (path_join dir m) = None \<or> map_of fs1 (path_join dir m) = map_of fs (path_join dir m)"
    by auto
  assume c: "c = Claimed it"
  then obtain r where "map_of fs (path_join dir n) = Some (FJournal r)" "it = recordToAgentItem r"
    and "map_of fs1 = (map_of fs)(path_join dir n := None, path_join dir (takenPrefix @ n) := None)"
    using one by (auto simp: drain_one_def Let_def fs_rename_def split: if_splits option.splits content.splits)
  then show "(\<exists>r. record_at fs dir n = Some r \<and> it = recordToAgentItem r) \<and> map_of fs1 (path_join dir n) = None"
    by (simp add: record_at_def)
qed

lemma drainers_inv_step:
  assumes dir: "dir_ok dir" and inv: "drainers_inv dir fs0 s" and "drainer_step dir s s'"
  shows "drainers_inv dir fs0 s'"
  using assms(3)
proof (cases rule: drainer_step.cases)
  case (ListNames p)
  then show ?thesis using inv listing_names unfolding drainers_inv_def by auto
next
  case (ClaimName p n ns env it fs1)
  have n: "leaf_elem n" "is_record_name n" using inv ClaimName(2) unfolding drainers_inv_def by (metis list.set_intros(1))+
  note old = drain_one_files(1)[OF dir n _ _ ClaimName(3)]
  note new = drain_one_files(2)[OF dir n n ClaimName(3) refl]
  have rec0: "record_at fs0 dir n = record_at (dr_fs s) dir n"
    using inv n new unfolding drainers_inv_def record_at_def by (metis option.case(1) option.distinct(1))
  have fresh: "n \<notin> fst ` set (dr_got s)"
    using inv new unfolding drainers_inv_def by (force simp: record_at_def)
  let ?s = "s\<lparr>dr_fs := fs1, dr_todo := (dr_todo s)(p := []), dr_got := dr_got s @ [(n, it)]\<rparr>"
  have "distinct (map fst (dr_got ?s))" using inv fresh by (auto simp: drainers_inv_def)
  moreover have "\<forall>q. \<forall>m\<in>set (dr_todo ?s q). leaf_elem m \<and> is_record_name m"
    using inv by (auto simp: drainers_inv_def)
  moreover have "leaf_elem m \<and> is_record_name m \<and> map_of (dr_fs ?s) (path_join dir m) = None \<and>
      (\<exists>r. record_at fs0 dir m = Some r \<and> i = recordToAgentItem r)" if mi: "(m, i) \<in> set (dr_got ?s)" for m i
  proof (cases "(m, i) = (n, it)")
    case True
    then show ?thesis using n new rec0 by simp
  next
    case False
    then have got: "(m, i) \<in> set (dr_got s)" using mi by auto
    then have "leaf_elem m \<and> is_record_name m \<and> map_of (dr_fs s) (path_join dir m) = None \<and>
      (\<exists>r. record_at fs0 dir m = Some r \<and> i = recordToAgentItem r)"
      using inv unfolding drainers_inv_def by blast
    then show ?thesis using old[of m] by auto
  qed
  moreover have "map_of (dr_fs ?s) (path_join dir m) = map_of fs0 (path_join dir m)"
    if "leaf_elem m" "is_record_name m" "map_of (dr_fs ?s) (path_join dir m) \<noteq> None" for m
    using inv old[OF that(1,2)] that by (auto simp: drainers_inv_def)
  ultimately show ?thesis unfolding drainers_inv_def ClaimName(1) by (intro conjI allI impI) (blast | assumption)+
next
  case (LoseName p n ns env c fs1)
  have n: "leaf_elem n" "is_record_name n" using inv LoseName(2) unfolding drainers_inv_def by (metis list.set_intros(1))+
  note old = drain_one_files(1)[OF dir n _ _ LoseName(3)]
  let ?s = "s\<lparr>dr_fs := fs1, dr_todo := (dr_todo s)(p := ns)\<rparr>"
  have "leaf_elem m \<and> is_record_name m" if "m \<in> set (dr_todo ?s q)" for q m
  proof (cases "q = p")
    case True
    then have "m \<in> set (dr_todo s p)" using that LoseName(2) by simp
    then show ?thesis using inv unfolding drainers_inv_def by blast
  next
    case False
    then have "m \<in> set (dr_todo s q)" using that by simp
    then show ?thesis using inv unfolding drainers_inv_def by blast
  qed
  moreover have "map_of fs1 (path_join dir m) = None" if "(m, i) \<in> set (dr_got s)" for m i
  proof -
    have "leaf_elem m \<and> is_record_name m \<and> map_of (dr_fs s) (path_join dir m) = None"
      using inv that unfolding drainers_inv_def by blast
    then show ?thesis using old[of m] by auto
  qed
  moreover have "map_of fs1 (path_join dir m) = map_of fs0 (path_join dir m)"
    if "leaf_elem m" "is_record_name m" "map_of fs1 (path_join dir m) \<noteq> None" for m
    using inv old[OF that(1,2)] that by (auto simp: drainers_inv_def)
  ultimately show ?thesis using inv unfolding drainers_inv_def LoseName(1) by simp
qed

lemma drainers_inv_init: "drainers_init fs0 s \<Longrightarrow> drainers_inv dir fs0 s"
  by (simp add: drainers_init_def drainers_inv_def)

interpretation journal_drainers: invariant_system
  "\<lambda>s. dir_ok dir \<and> drainers_init fs0 s" "drainer_step dir" "\<lambda>s. dir_ok dir \<and> drainers_inv dir fs0 s" for dir fs0
  by unfold_locales (use drainers_inv_init drainers_inv_step in blast)+

lemma journal_write_insert:
  assumes "dir_ok inbox" and "key_ok (JKey (je_nanos env) (je_seq env))" and "hex_ok (je_write env)"
    and "journal_wf fs (journalDir inbox)"
    and "map_of fs (path_join (journalDir inbox) (''.clipbeam-tmp-'' @ we_hex (je_write env))) = None"
    and "writeAgentJournal env fs inbox atype sender path hasText text = (res, fs')"
  shows "journal_wf fs' (journalDir inbox) \<and>
    (case res of
       Inl e \<Rightarrow> journal_abs fs' (journalDir inbox) = journal_abs fs (journalDir inbox)
     | Inr u \<Rightarrow> journal_abs fs' (journalDir inbox) =
         (journal_abs fs (journalDir inbox))(JKey (je_nanos env) (je_seq env) \<mapsto>
           \<lparr>jr_type = utf8_coerce atype, jr_sender = utf8_coerce sender, jr_path = utf8_coerce path,
            jr_hasText = hasText, jr_text = utf8_coerce text\<rparr>))"
proof -
  let ?k = "JKey (je_nanos env) (je_seq env)" and ?dir = "journalDir inbox"
  let ?dest = "path_join ?dir (key_name ?k)"
  have dir: "dir_ok ?dir" using dir_ok_journalDir[OF assms(1)] .
  then obtain es where es: "es \<noteq> []" "\<forall>e\<in>set es. leaf_elem e" "?dir = abs_dir es" by (auto simp: dir_ok_def)
  have te: "leaf_elem (''.clipbeam-tmp-'' @ we_hex (je_write env))"
    using assms(3) by (simp add: leaf_elem_def hex_ok_def)
  have t: "temp_path (je_write env) ?dest = path_join ?dir (''.clipbeam-tmp-'' @ we_hex (je_write env))"
    using temp_path_abs[OF es(2) key_leaf[OF assms(2)] assms(3)] es te key_leaf[OF assms(2)]
    by (simp add: path_join_abs_dir)
  have ne: "temp_path (je_write env) ?dest \<noteq> ?dest"
  proof
    assume "temp_path (je_write env) ?dest = ?dest"
    then have "key_name ?k = ''.clipbeam-tmp-'' @ we_hex (je_write env)"
      using t dir_ok_inj[OF dir te key_leaf[OF assms(2)]] by simp
    moreover have "hd (key_name ?k) \<noteq> CHR ''.''"
    proof -
      obtain c r where c: "decimal (je_nanos env) = c # r" by (cases "decimal (je_nanos env)") auto
      then have "is_digit c" using decimal_digits[of c "je_nanos env"] by simp
      then show ?thesis by (auto simp: key_name_def journal_name_def c is_digit_iff)
    qed
    ultimately show False by simp
  qed
  show ?thesis
  proof (cases "je_mkdir_fails env")
    case True
    then show ?thesis using assms by (auto simp: writeAgentJournal_def Let_def)
  next
    case False
    let ?r = "\<lparr>jr_type = utf8_coerce atype, jr_sender = utf8_coerce sender, jr_path = utf8_coerce path,
            jr_hasText = hasText, jr_text = utf8_coerce text\<rparr>"
    have tmp: "map_of fs (temp_path (je_write env) ?dest) = None" unfolding t by (rule assms(5))
    have w: "writeBytesAtomic (je_write env) fs ?dest (FJournal ?r) = (res, fs')"
      using assms(6) False by (simp add: writeAgentJournal_def Let_def marshal_record_def key_name_def)
    show ?thesis
    proof (cases res)
      case (Inl e)
      have "map_of fs' = map_of fs" by (rule writeBytesAtomic_fail[OF tmp w[unfolded Inl]])
      then show ?thesis using Inl assms(4) by (auto simp: journal_wf_def journal_abs_def)
    next
      case (Inr u)
      have "map_of fs' = (map_of fs)(?dest \<mapsto> FJournal ?r)"
        by (rule writeBytesAtomic_ok[OF tmp ne w[unfolded Inr]])
      from journal_view_put[OF dir assms(2,4) this] Inr show ?thesis by simp
    qed
  qed
qed

lemma drain_pop_min:
  assumes "dir_ok inbox" and "journal_wf fs (journalDir inbox)" and "quiet (env k)"
  shows "(\<forall>j. journal_abs fs (journalDir inbox) j = None) \<and> DrainAgentDisk (Suc fuel) env k inbox fs = Some (DrainEmpty, fs) \<or>
    (\<exists>j r fs'. journal_abs fs (journalDir inbox) j = Some r \<and>
       (\<forall>i. journal_abs fs (journalDir inbox) i \<noteq> None \<longrightarrow> j \<le> i) \<and>
       DrainAgentDisk (Suc fuel) env k inbox fs = Some (DrainItem (recordToAgentItem r), fs') \<and>
       journal_wf fs' (journalDir inbox) \<and>
       journal_abs fs' (journalDir inbox) = (journal_abs fs (journalDir inbox))(j := None))"
proof -
  let ?dir = "journalDir inbox"
  have dir: "dir_ok ?dir" using dir_ok_journalDir[OF assms(1)] .
  note q = assms(3)[unfolded quiet_def]
  define names where "names = listJournalRecords fs ?dir"
  show ?thesis
  proof (cases "names = []")
    case True
    then have "\<forall>j. journal_abs fs ?dir j = None"
      using listing_iff[OF dir assms(2)] unfolding names_def by force
    moreover have "DrainAgentDisk (Suc fuel) env k inbox fs = Some (DrainEmpty, fs)"
      using q True by (simp add: names_def Let_def)
    ultimately show ?thesis by blast
  next
    case False
    then obtain n ns where nn: "names = n # ns" by (cases names) auto
    have n: "n \<in> set names" using nn by simp
    then obtain j where j: "n = key_name j" "journal_abs fs ?dir j \<noteq> None"
      using listing_iff[OF dir assms(2)] unfolding names_def by blast
    then obtain r where r: "journal_abs fs ?dir j = Some r" by auto
    note jk = journal_abs_key[OF r]
    have least: "\<forall>m\<in>set names. n \<le> m"
      using hd_sort_least[of "filter is_record_name (dir_entries fs ?dir)"] nn
      unfolding names_def listJournalRecords_def by (metis list.sel(1) list.distinct(1) set_sort sort_key_simps(1))
    have min: "j \<le> i" if "journal_abs fs ?dir i \<noteq> None" for i
    proof -
      have "key_name i \<in> set names" using listing_iff[OF dir assms(2)] that unfolding names_def by blast
      then have "key_name j \<le> key_name i" using least j by blast
      moreover have "key_ok i" using that journal_abs_key by fastforce
      ultimately show ?thesis using key_name_order[of i j] jk by (metis leD leI)
    qed
    have "\<exists>fs'. drain_one (env k) ?dir n fs = (Claimed (recordToAgentItem r), fs') \<and>
        map_of fs' = (map_of fs)(path_join ?dir n := None, path_join ?dir (takenPrefix @ n) := None)"
      unfolding j(1)
      by (rule drain_one_effect[OF dir]) (use jk key_leaf key_rec q in auto)
    then obtain fs' where one: "drain_one (env k) ?dir n fs = (Claimed (recordToAgentItem r), fs')"
      and eff: "map_of fs' = (map_of fs)(path_join ?dir (key_name j) := None, path_join ?dir (takenPrefix @ key_name j) := None)"
      unfolding j(1) by blast
    have "DrainAgentDisk (Suc fuel) env k inbox fs = Some (DrainItem (recordToAgentItem r), fs')"
      using q nn one by (simp add: names_def Let_def)
    then show ?thesis
      using r min journal_view_remove[OF dir conjunct1[OF jk] eff] assms(2) by blast
  qed
qed

section \<open>Properties\<close>

text \<open>A successful journal write inserts exactly the record under its key, and a failed one
  changes nothing, in the abstract view of the journal as a map from keys to records.\<close>

lemma journal_write_refines_insert:
  assumes "dir_ok inbox" and "key_ok (JKey (je_nanos env) (je_seq env))" and "hex_ok (je_write env)"
    and "journal_wf fs (journalDir inbox)"
    and "map_of fs (path_join (journalDir inbox) (''.clipbeam-tmp-'' @ we_hex (je_write env))) = None"
    and "writeAgentJournal env fs inbox atype sender path hasText text = (res, fs')"
  shows "journal_wf fs' (journalDir inbox) \<and>
    (case res of
       Inl e \<Rightarrow> journal_abs fs' (journalDir inbox) = journal_abs fs (journalDir inbox)
     | Inr u \<Rightarrow> journal_abs fs' (journalDir inbox) =
         (journal_abs fs (journalDir inbox))(JKey (je_nanos env) (je_seq env) \<mapsto>
           \<lparr>jr_type = utf8_coerce atype, jr_sender = utf8_coerce sender, jr_path = utf8_coerce path,
            jr_hasText = hasText, jr_text = utf8_coerce text\<rparr>))"
  by (rule journal_write_insert[OF assms])

text \<open>The concrete inputs of the witnesses.\<close>

definition witness_env :: journal_env where
  "witness_env = \<lparr>je_mkdir_fails = False, je_nanos = 1700000000000000000, je_seq = 1,
     je_write = \<lparr>we_hex = ''00ff'', we_fault = WriteOk\<rparr>\<rparr>"

lemma witness_dir: "dir_ok ''/h/inbox''"
  unfolding dir_ok_def by (intro exI[of _ "[''h'', ''inbox'']"]) (simp add: leaf_elem_def abs_dir_def)

lemma journal_write_refines_insert_witness:
  "journal_abs (snd (writeAgentJournal witness_env [] ''/h/inbox'' ''text'' [] [] True ''hi'')) (journalDir ''/h/inbox'')
     (JKey 1700000000000000000 1) =
   Some \<lparr>jr_type = utf8_coerce ''text'', jr_sender = utf8_coerce [], jr_path = utf8_coerce [],
     jr_hasText = True, jr_text = utf8_coerce ''hi''\<rparr>"
proof -
  obtain res fs' where w: "writeAgentJournal witness_env [] ''/h/inbox'' ''text'' [] [] True ''hi'' = (res, fs')"
    by fastforce
  have r: "res = Inr ()" using w
    by (auto simp: writeAgentJournal_def witness_env_def writeBytesAtomic_def Let_def)
  have e: "JKey (je_nanos witness_env) (je_seq witness_env) = JKey 1700000000000000000 1"
    by (simp add: witness_env_def)
  have k: "key_ok (JKey (je_nanos witness_env) (je_seq witness_env))" by (simp add: key_ok_def witness_env_def)
  have h: "hex_ok (je_write witness_env)" by (simp add: hex_ok_def witness_env_def)
  have wf: "journal_wf [] (journalDir ''/h/inbox'')" by (simp add: journal_wf_def)
  show ?thesis using journal_write_refines_insert[OF witness_dir k h wf _ w] unfolding w r e by simp
qed

text \<open>C12. A drain is a pop of the oldest record: on a quiet system it returns the item of the
  record with the least key (time, then sequence) and removes exactly that record; on an empty
  journal it returns no item.\<close>

theorem drain_refines_pop_min:
  assumes "dir_ok inbox" and "journal_wf fs (journalDir inbox)" and "quiet (env k)"
  shows "(\<forall>j. journal_abs fs (journalDir inbox) j = None) \<and> DrainAgentDisk (Suc fuel) env k inbox fs = Some (DrainEmpty, fs) \<or>
    (\<exists>j r fs'. journal_abs fs (journalDir inbox) j = Some r \<and>
       (\<forall>i. journal_abs fs (journalDir inbox) i \<noteq> None \<longrightarrow> j \<le> i) \<and>
       DrainAgentDisk (Suc fuel) env k inbox fs = Some (DrainItem (recordToAgentItem r), fs') \<and>
       journal_wf fs' (journalDir inbox) \<and>
       journal_abs fs' (journalDir inbox) = (journal_abs fs (journalDir inbox))(j := None))"
  by (rule drain_pop_min[where env = env and k = k, OF assms])

definition quiet_env :: drain_env where
  "quiet_env = \<lparr>de_ctx_done = False, de_others = (\<lambda>fs. fs), de_readdir_fails = False,
     de_rename_fails = (\<lambda>n. False), de_read_fails = (\<lambda>n. False)\<rparr>"

theorem drain_refines_pop_min_witness:
  "DrainAgentDisk 1 (\<lambda>k. quiet_env) 0 ''/h/inbox'' [] = Some (DrainEmpty, [])"
proof -
  have "journal_wf [] (journalDir ''/h/inbox'')" by (simp add: journal_wf_def)
  moreover have "quiet ((\<lambda>k. quiet_env) 0)" by (simp add: quiet_def quiet_env_def)
  ultimately have "DrainAgentDisk (Suc 0) (\<lambda>k. quiet_env) 0 ''/h/inbox'' [] = Some (DrainEmpty, []) \<or>
    (\<exists>j r. journal_abs [] (journalDir ''/h/inbox'') j = Some r)"
    using drain_refines_pop_min[OF witness_dir, of "[]" "\<lambda>k. quiet_env" 0 0] by blast
  moreover have "journal_abs [] (journalDir ''/h/inbox'') j = None" for j by (simp add: journal_abs_def)
  ultimately show ?thesis by (simp only: One_nat_def) auto
qed



text \<open>If the renames keep failing (a journal directory that cannot be written), a drain of a
  non-empty journal never returns before its context ends: it lists and tries again for ever.\<close>

lemma drain_spins_on_failed_renames:
  assumes "listJournalRecords fs (journalDir inbox) \<noteq> []"
    and "\<And>k. \<not> de_ctx_done (env k) \<and> \<not> de_readdir_fails (env k) \<and> de_others (env k) fs = fs \<and>
           (\<forall>n. de_rename_fails (env k) n)"
  shows "DrainAgentDisk fuel env k inbox fs = None"
proof (induction fuel arbitrary: k)
  case (Suc fuel)
  have "drain_scan (env k) (journalDir inbox) names fs = (None, fs)" for names
    by (induction names) (use assms(2)[of k] in \<open>simp_all add: drain_one_def\<close>)
  then show ?case using assms(1) assms(2)[of k] Suc by (simp add: Let_def)
qed simp

lemma drain_spins_on_failed_renames_witness:
  "DrainAgentDisk 5 (\<lambda>k. quiet_env\<lparr>de_rename_fails := (\<lambda>n. True)\<rparr>) 0 ''/h/inbox''
     [(''/h/inbox/journal/1-2.json'', FBytes [])] = None"
proof -
  have "listJournalRecords [(''/h/inbox/journal/1-2.json'', FBytes [])] (journalDir ''/h/inbox'') \<noteq> []"
    by code_simp
  from drain_spins_on_failed_renames[OF this, of "\<lambda>k. quiet_env\<lparr>de_rename_fails := (\<lambda>n. True)\<rparr>" 5 0]
  show ?thesis by (simp add: quiet_env_def)
qed

end
