(* ===== verification/Sanitize.thy ===== *)
theory Sanitize
  imports GoStd
begin

text \<open>
  Package \<open>sanitize\<close>: the file-name sanitizer. Names are byte strings; the rune loop of
  \<open>CleanLeaf\<close> runs over \<open>runes\<close>. The clock (\<open>time.Now\<close>) and \<open>filepath.EvalSymlinks\<close> are
  parameters: the first is a broken-down UTC time, the second a function that returns the
  resolved directory or fails.
\<close>

section \<open>Constants and the allowlist\<close>

definition KindImage :: string where "KindImage = ''image''"
definition KindFile :: string where "KindFile = ''file''"
definition KindText :: string where "KindText = ''text''"

datatype path_error = ErrPathEscape

definition NameMaxBytes :: nat where
  "NameMaxBytes = 200"

definition allowed :: "nat \<Rightarrow> bool" where
  "allowed r \<longleftrightarrow>
     (65 \<le> r \<and> r \<le> 90) \<or> (97 \<le> r \<and> r \<le> 122) \<or> (48 \<le> r \<and> r \<le> 57) \<or>
     r = 32 \<or> r = 46 \<or> r = 95 \<or> r = 45"

section \<open>The clock\<close>

record utc_time =
  t_year :: nat
  t_month :: nat
  t_day :: nat
  t_hour :: nat
  t_minute :: nat
  t_second :: nat
  t_milli :: nat

text \<open>\<open>Format("20060102-150405.000")\<close>.\<close>

definition format_stamp :: "utc_time \<Rightarrow> string" where
  "format_stamp t =
     zero_pad 4 (decimal (t_year t)) @ zero_pad 2 (decimal (t_month t)) @ zero_pad 2 (decimal (t_day t)) @
     ''-'' @ zero_pad 2 (decimal (t_hour t)) @ zero_pad 2 (decimal (t_minute t)) @
     zero_pad 2 (decimal (t_second t)) @ ''.'' @ zero_pad 3 (decimal (t_milli t))"

fun replace_first :: "char \<Rightarrow> char \<Rightarrow> string \<Rightarrow> string" where
  "replace_first c d [] = []"
| "replace_first c d (x # xs) = (if x = c then d # xs else x # replace_first c d xs)"

definition UTCTimestamp :: "utc_time \<Rightarrow> string" where
  "UTCTimestamp t = replace_first (CHR ''.'') (CHR ''-'') (format_stamp t)"

definition TextFileName :: "utc_time \<Rightarrow> string" where
  "TextFileName now = ''clipbeam-'' @ UTCTimestamp now @ ''.txt''"

section \<open>Extensions\<close>

definition utiExt :: "string \<Rightarrow> string option" where
  "utiExt uti =
     (if uti = ''public.png'' then Some ''png''
      else if uti = ''public.jpeg'' then Some ''jpeg''
      else if uti = ''public.tiff'' then Some ''tiff''
      else if uti = ''com.compuserve.gif'' then Some ''gif''
      else if uti = ''public.heic'' \<or> uti = ''public.heif'' then Some ''heic''
      else if uti = ''com.microsoft.bmp'' then Some ''bmp''
      else if uti = ''public.plain-text'' \<or> uti = ''public.utf8-plain-text'' \<or> uti = ''public.text''
        then Some ''txt''
      else if uti = ''com.adobe.pdf'' then Some ''pdf''
      else if uti = ''public.zip-archive'' \<or> uti = ''com.pkware.zip-archive'' then Some ''zip''
      else None)"

definition FallbackExt :: "string \<Rightarrow> string \<Rightarrow> string" where
  "FallbackExt kind uti =
     (case utiExt uti of
        Some ext \<Rightarrow> ext
      | None \<Rightarrow>
          if kind = KindImage then ''png''
          else if kind = KindFile then ''bin''
          else [])"

definition FallbackName :: "utc_time \<Rightarrow> string \<Rightarrow> string \<Rightarrow> string" where
  "FallbackName now kind uti =
     (let base = ''clipbeam-'' @ UTCTimestamp now;
          ext = FallbackExt kind uti
      in if ext \<noteq> [] then base @ ''.'' @ ext else base)"

definition PathExtension :: "string \<Rightarrow> string" where
  "PathExtension name =
     (let leaf = path_base name in
      case last_index leaf (CHR ''.'') of
        None \<Rightarrow> []
      | Some dot \<Rightarrow> if dot = 0 \<or> dot = length leaf - 1 then [] else drop (dot + 1) leaf)"

definition DeletingPathExtension :: "string \<Rightarrow> string" where
  "DeletingPathExtension name =
     (let ext = PathExtension name in
      if ext = [] then name else take (length name - length ext - 1) name)"

section \<open>Length cap\<close>

text \<open>The loop of \<open>truncateBytes\<close>: drop trailing bytes until the last rune decodes.\<close>

function trunc_loop :: "string \<Rightarrow> string" where
  "trunc_loop b =
     (if b = [] then []
      else let (r, size) = decode_last_rune b in
        if r \<noteq> rune_error \<or> 1 < size then b else trunc_loop (take (length b - 1) b))"
  by pat_completeness auto
termination
  by (relation "measure length") (auto simp: length_greater_0_conv[symmetric] simp del: length_greater_0_conv)

declare trunc_loop.simps [simp del]

definition truncateBytes :: "string \<Rightarrow> nat \<Rightarrow> string" where
  "truncateBytes s maxBytes = (if length s \<le> maxBytes then s else trunc_loop (take maxBytes s))"

definition CapLength :: "utc_time \<Rightarrow> string \<Rightarrow> nat \<Rightarrow> string" where
  "CapLength now name maxBytes =
     (if length name \<le> maxBytes then name
      else let ext = PathExtension name;
               base = DeletingPathExtension name;
               dotExt = (if ext \<noteq> [] then ''.'' @ ext else [])
           in if maxBytes \<le> length dotExt then truncateBytes name maxBytes
              else let result = truncateBytes base (maxBytes - length dotExt) @ dotExt
                   in if result = [] then ''clipbeam-'' @ UTCTimestamp now else result)"

section \<open>The sanitizer\<close>

definition CleanLeaf :: "utc_time \<Rightarrow> string \<Rightarrow> string \<Rightarrow> string \<Rightarrow> string" where
  "CleanLeaf now raw kind uti =
     (let leaf = path_base raw;
          mapped = map (\<lambda>r. if allowed r then byte r else CHR ''_'') (runes leaf);
          trimmed = trim_cutset mapped [CHR '' '', CHR 0x09];
          cleaned = (if trimmed = [] \<or> trimmed = ''.'' \<or> trimmed = ''..'' \<or> has_prefix trimmed ''.''
                     then FallbackName now kind uti else trimmed)
      in CapLength now cleaned NameMaxBytes)"

definition evalDir :: "(string \<Rightarrow> string option) \<Rightarrow> string \<Rightarrow> string" where
  "evalDir evalSymlinks dir =
     (case evalSymlinks dir of Some resolved \<Rightarrow> resolved | None \<Rightarrow> path_clean dir)"

definition SafeLeaf ::
  "(string \<Rightarrow> string option) \<Rightarrow> utc_time \<Rightarrow> string \<Rightarrow> string \<Rightarrow> string \<Rightarrow> string \<Rightarrow> (path_error, string) result" where
  "SafeLeaf evalSymlinks now raw kind uti saveDir =
     (let cleaned = CleanLeaf now raw kind uti;
          resolvedDir = evalDir evalSymlinks saveDir;
          candidate = path_join resolvedDir cleaned;
          dirPrefix = (if has_suffix resolvedDir ''/'' then resolvedDir else resolvedDir @ ''/'')
      in if has_prefix candidate dirPrefix then Inr cleaned else Inl ErrPathEscape)"

section \<open>Collision names\<close>

text \<open>The digit loop of \<open>itoa\<close>: the buffer is filled from its end.\<close>

fun itoa_loop :: "nat \<Rightarrow> string \<Rightarrow> string" where
  "itoa_loop n buf = (if 0 < n then itoa_loop (n div 10) (byte (48 + n mod 10) # buf) else buf)"

declare itoa_loop.simps [simp del]

definition itoa :: "int \<Rightarrow> string" where
  "itoa n =
     (if n = 0 then ''0''
      else let neg = n < 0;
               m = (if neg then wrap64 (- n) else n);
               buf = itoa_loop (nat m) []
           in if neg then CHR ''-'' # buf else buf)"

definition CollisionName :: "string \<Rightarrow> int \<Rightarrow> string" where
  "CollisionName leaf n =
     (let ext = PathExtension leaf;
          base = DeletingPathExtension leaf
      in if ext = [] then base @ '' ('' @ itoa n @ '')''
         else base @ '' ('' @ itoa n @ '').'' @ ext)"

section \<open>Lemmas\<close>

lemma itoa_loop_decimal: "0 < n \<Longrightarrow> itoa_loop n buf = decimal n @ buf"
proof (induction n arbitrary: buf rule: decimal.induct)
  case (1 n)
  show ?case
  proof (cases "n < 10")
    case True
    then show ?thesis using 1
      by (subst itoa_loop.simps, subst itoa_loop.simps) (simp add: decimal.simps[of n] digit_char_def)
  next
    case False
    then have "0 < n div 10" by simp
    with False 1 show ?thesis
      by (subst itoa_loop.simps, subst decimal.simps) (simp add: digit_char_def)
  qed
qed

lemma decimal_0: "decimal 0 = ''0''"
  by code_simp

lemma itoa_decimal: "0 \<le> n \<Longrightarrow> itoa n = decimal (nat n)"
  by (auto simp: itoa_def itoa_loop_decimal Let_def decimal_0)

text \<open>Names whose bytes are all ASCII: every byte is its own rune.\<close>

definition ascii :: "string \<Rightarrow> bool" where
  "ascii s \<longleftrightarrow> (\<forall>c\<in>set s. code c < 128)"

definition allowed_char :: "char \<Rightarrow> bool" where
  "allowed_char c \<longleftrightarrow> allowed (code c)"

lemma allowed_less: "allowed r \<Longrightarrow> r < 128"
  by (auto simp: allowed_def)

lemma allowed_char_byte: "allowed r \<Longrightarrow> allowed_char (byte r)"
  using allowed_less[of r] by (simp add: allowed_char_def)

lemma allowed_ascii: "\<forall>c\<in>set s. allowed_char c \<Longrightarrow> ascii s"
  by (auto simp: ascii_def allowed_char_def allowed_less)

lemma allowed_no_slash: "\<forall>c\<in>set s. allowed_char c \<Longrightarrow> slash \<notin> set s"
  by (auto simp: allowed_char_def allowed_def)

lemma trunc_loop_ascii: "ascii s \<Longrightarrow> trunc_loop s = s"
  by (cases s rule: rev_cases)
    (auto simp: trunc_loop.simps decode_last_rune_def ascii_def rune_error_def)

lemma truncateBytes_ascii: "ascii s \<Longrightarrow> truncateBytes s n = take n s"
  using trunc_loop_ascii[of "take n s"] by (auto simp: truncateBytes_def ascii_def dest: in_set_takeD)

lemma path_base_id:
  assumes "slash \<notin> set s" and "s \<noteq> []"
  shows "path_base s = s"
proof -
  have "last s \<noteq> slash" using assms last_in_set by metis
  then have "trim_right_cutset s ''/'' = s"
    using assms(2) by (cases s rule: rev_cases) (auto simp: trim_right_cutset_def)
  then show ?thesis using assms by (simp add: path_base_def Let_def)
qed

text \<open>A slash-free name is its stem, or its stem, a dot and a non-empty extension.\<close>

lemma extension_split:
  assumes "slash \<notin> set s" and "s \<noteq> []" and "PathExtension s \<noteq> []"
  shows "s = DeletingPathExtension s @ ''.'' @ PathExtension s \<and> DeletingPathExtension s \<noteq> [] \<and>
         CHR ''.'' \<notin> set (PathExtension s)"
proof -
  have b: "path_base s = s" using path_base_id assms by simp
  from assms(3) obtain dot where d: "last_index s (CHR ''.'') = Some dot" "dot \<noteq> 0" "dot \<noteq> length s - 1"
    and e: "PathExtension s = drop (Suc dot) s"
    by (auto simp: PathExtension_def Let_def b split: option.splits if_splits)
  from last_index_SomeD[OF d(1)] have i: "dot < length s" "CHR ''.'' \<notin> set (drop (Suc dot) s)"
    and s: "s = take dot s @ CHR ''.'' # drop (Suc dot) s" by auto
  have "length s - length (drop (Suc dot) s) - 1 = dot" using i(1) by simp
  then have "DeletingPathExtension s = take dot s"
    using assms(3) e by (simp add: DeletingPathExtension_def Let_def)
  then show ?thesis using d(2) i s e by auto
qed

lemma no_extension: "PathExtension s = [] \<Longrightarrow> DeletingPathExtension s = s"
  by (simp add: DeletingPathExtension_def)

text \<open>The cap keeps a slash-free ASCII name's first character and adds no character.\<close>

lemma CapLength_ascii:
  assumes "slash \<notin> set s" and "s \<noteq> []" and "ascii s" and "0 < m"
  shows "length (CapLength now s m) \<le> m \<and> CapLength now s m \<noteq> [] \<and> hd (CapLength now s m) = hd s \<and>
         set (CapLength now s m) \<subseteq> set s"
proof (cases "length s \<le> m")
  case False
  show ?thesis
  proof (cases "PathExtension s = []")
    case True
    then show ?thesis using assms False no_extension[OF True]
      by (auto simp: CapLength_def Let_def truncateBytes_ascii hd_take dest: in_set_takeD)
  next
    case ext: False
    from extension_split[OF assms(1,2) ext] obtain stem e where s: "s = stem @ ''.'' @ e" "stem \<noteq> []"
      and se: "DeletingPathExtension s = stem" "PathExtension s = e" by blast
    have as: "ascii stem" using assms(3) s(1) by (auto simp: ascii_def)
    show ?thesis
    proof (cases "m \<le> Suc (length e)")
      case True
      then have "CapLength now s m = take m s"
        using False ext se assms(3) by (simp add: CapLength_def Let_def truncateBytes_ascii)
      then show ?thesis using assms by (auto simp: hd_take dest: in_set_takeD)
    next
      case budget: False
      then have "CapLength now s m = take (m - Suc (length e)) stem @ ''.'' @ e"
        using False ext se by (simp add: CapLength_def Let_def truncateBytes_ascii[OF as])
      moreover have "0 < m - Suc (length e)" using budget by simp
      ultimately show ?thesis using budget s
        by (auto simp: hd_append hd_take dest: in_set_takeD)
    qed
  qed
qed (use assms in \<open>simp add: CapLength_def\<close>)

lemma allowed_digits: "is_digit c \<Longrightarrow> allowed_char c"
  by (simp add: is_digit_iff allowed_char_def allowed_def)

lemma zero_pad_allowed: "\<forall>c\<in>set (zero_pad w (decimal n)). allowed_char c"
proof -
  have "allowed_char (CHR ''0'')" by (simp add: allowed_char_def allowed_def)
  then show ?thesis by (auto simp: zero_pad_def dest: decimal_digits allowed_digits)
qed

lemma replace_first_subset: "set (replace_first c d s) \<subseteq> insert d (set s)"
  by (induction s) auto

lemma UTCTimestamp_allowed: "\<forall>c\<in>set (UTCTimestamp t). allowed_char c"
proof -
  have d: "allowed_char (CHR ''-'')" "allowed_char (CHR ''.'')" by (simp_all add: allowed_char_def allowed_def)
  have "\<forall>c\<in>set (format_stamp t). allowed_char c"
    unfolding format_stamp_def using zero_pad_allowed d by (simp add: ball_Un)
  then show ?thesis
    using replace_first_subset[of "CHR ''.''" "CHR ''-''" "format_stamp t"] d
    unfolding UTCTimestamp_def by blast
qed

lemma FallbackExt_allowed: "\<forall>c\<in>set (FallbackExt kind uti). allowed_char c"
  by (auto simp: FallbackExt_def utiExt_def allowed_char_def allowed_def split: if_splits option.splits)

lemma FallbackName_allowed: "\<forall>c\<in>set (FallbackName now kind uti). allowed_char c"
  using UTCTimestamp_allowed[of now] FallbackExt_allowed[of kind uti]
  by (auto simp: FallbackName_def Let_def ball_Un) (simp_all add: allowed_char_def allowed_def)

lemma FallbackName_hd: "FallbackName now kind uti \<noteq> [] \<and> hd (FallbackName now kind uti) = CHR ''c''"
  by (simp add: FallbackName_def Let_def)

lemma CleanLeaf_shape:
  "CleanLeaf now raw kind uti \<noteq> [] \<and> hd (CleanLeaf now raw kind uti) \<noteq> CHR ''.'' \<and>
   (\<forall>c\<in>set (CleanLeaf now raw kind uti). allowed_char c) \<and> length (CleanLeaf now raw kind uti) \<le> 200"
proof -
  define mapped where "mapped = map (\<lambda>r. if allowed r then byte r else CHR ''_'') (runes (path_base raw))"
  define trimmed where "trimmed = trim_cutset mapped [CHR '' '', CHR 0x09]"
  define cleaned where "cleaned = (if trimmed = [] \<or> trimmed = ''.'' \<or> trimmed = ''..'' \<or> has_prefix trimmed ''.''
                     then FallbackName now kind uti else trimmed)"
  have "\<forall>c\<in>set mapped. allowed_char c"
    by (auto simp: mapped_def allowed_char_byte) (simp add: allowed_char_def allowed_def)
  then have t: "\<forall>c\<in>set trimmed. allowed_char c"
    using set_trim_cutset[of mapped "[CHR '' '', CHR 0x09]"] unfolding trimmed_def by blast
  have "hd trimmed \<noteq> CHR ''.''" if "trimmed \<noteq> []" "\<not> has_prefix trimmed ''.''"
    using that by (cases trimmed) (auto simp: has_prefix_def)
  then have c: "cleaned \<noteq> []" "hd cleaned \<noteq> CHR ''.''" "\<forall>c\<in>set cleaned. allowed_char c"
    using t FallbackName_hd FallbackName_allowed by (auto simp: cleaned_def)
  have "CleanLeaf now raw kind uti = CapLength now cleaned 200"
    by (simp add: CleanLeaf_def Let_def mapped_def trimmed_def cleaned_def NameMaxBytes_def)
  then show ?thesis
    using CapLength_ascii[of cleaned 200 now] c allowed_no_slash[OF c(3)] allowed_ascii[OF c(3)] by auto
qed

lemma shape_leaf_elem:
  "s \<noteq> [] \<Longrightarrow> hd s \<noteq> CHR ''.'' \<Longrightarrow> \<forall>c\<in>set s. allowed_char c \<Longrightarrow> leaf_elem s"
  using allowed_no_slash[of s] by (auto simp: leaf_elem_def)

lemma CleanLeaf_leaf_elem: "leaf_elem (CleanLeaf now raw kind uti)"
  using CleanLeaf_shape shape_leaf_elem by metis

lemma path_clean_abs_dir:
  assumes "\<forall>e\<in>set es. leaf_elem e"
  shows "path_clean (abs_dir es) = abs_dir es"
proof -
  have "split_on slash (abs_dir es) = [] # (if es = [] then [[]] else es)"
    using assms by (cases "es = []") (auto simp: abs_dir_def leaf_elem_def split_on_join)
  then have "fold (clean_step True) (split_on slash (abs_dir es)) [] = rev es"
    using assms by (auto simp: fold_clean_elems) (simp_all add: clean_step_def)
  moreover have "has_prefix (abs_dir es) ''/''" by (simp add: abs_dir_def has_prefix_def)
  ultimately show ?thesis by (simp add: path_clean_def abs_dir_def)
qed

lemma SafeLeaf_ok:
  assumes "\<forall>e\<in>set es. leaf_elem e" and "evalDir evalSymlinks saveDir = abs_dir es"
  shows "SafeLeaf evalSymlinks now raw kind uti saveDir = Inr (CleanLeaf now raw kind uti)"
proof -
  let ?l = "CleanLeaf now raw kind uti"
  have j: "path_join (abs_dir es) ?l = abs_dir (es @ [?l])"
    using path_join_abs_dir[OF assms(1)] CleanLeaf_leaf_elem by simp
  have "has_suffix (abs_dir es) ''/'' \<longleftrightarrow> es = []"
  proof (cases es rule: rev_cases)
    case (snoc fs e)
    then have "leaf_elem e" using assms(1) by simp
    then have "e \<noteq> []" "slash \<notin> set e" by (auto simp: leaf_elem_def)
    then have "e \<noteq> []" "last e \<noteq> slash" by (auto dest: last_in_set)
    moreover have "has_suffix x ''/'' \<longleftrightarrow> x \<noteq> [] \<and> last x = slash" for x
      by (cases x rule: rev_cases) (auto simp: has_suffix_def)
    ultimately show ?thesis using snoc by (simp add: abs_dir_snoc)
  qed (simp add: abs_dir_def has_suffix_def)
  then have "has_prefix (abs_dir (es @ [?l])) (if has_suffix (abs_dir es) ''/'' then abs_dir es else abs_dir es @ ''/'')"
    by (simp only: abs_dir_snoc) (auto simp: abs_dir_def has_prefix_def)
  then show ?thesis by (simp add: SafeLeaf_def assms(2) j Let_def)
qed

section \<open>Collision names\<close>

lemma CollisionName_inj:
  "0 \<le> m \<Longrightarrow> 0 \<le> n \<Longrightarrow> CollisionName leaf m = CollisionName leaf n \<longleftrightarrow> m = n"
  by (auto simp: CollisionName_def Let_def itoa_decimal decimal_inj)

lemma stem_parts_no_slash:
  assumes "slash \<notin> set s" and "s \<noteq> []"
  shows "slash \<notin> set (PathExtension s) \<and> slash \<notin> set (DeletingPathExtension s) \<and> DeletingPathExtension s \<noteq> []"
proof (cases "PathExtension s = []")
  case True
  with assms no_extension[OF True] show ?thesis by simp
next
  case False
  from extension_split[OF assms False]
  have e: "s = DeletingPathExtension s @ ''.'' @ PathExtension s" and n: "DeletingPathExtension s \<noteq> []" by auto
  have "set s = set (DeletingPathExtension s @ ''.'' @ PathExtension s)" by (subst e) (rule refl)
  with assms(1) n show ?thesis by auto
qed

lemma CollisionName_elem:
  assumes "leaf_elem leaf" and "0 \<le> n"
  shows "leaf_elem (CollisionName leaf n)"
proof -
  have s: "slash \<notin> set (decimal k)" for k
    using decimal_digits[of slash k] by (auto simp: is_digit_iff)
  have "slash \<notin> set (PathExtension leaf)" "slash \<notin> set (DeletingPathExtension leaf)"
    using stem_parts_no_slash assms(1) by (auto simp: leaf_elem_def)
  then have "slash \<notin> set (CollisionName leaf n)"
    using s assms(2) by (simp add: CollisionName_def Let_def itoa_decimal)
  moreover have "3 < length (CollisionName leaf n)"
    using stem_parts_no_slash[of leaf] assms by (auto simp: CollisionName_def Let_def itoa_decimal leaf_elem_def
        neq_Nil_conv length_greater_0_conv[symmetric] simp del: length_greater_0_conv)
  ultimately show ?thesis by (auto simp: leaf_elem_def)
qed

lemma CollisionName_extension:
  assumes "leaf_elem leaf" and "0 \<le> n" and "PathExtension leaf \<noteq> []"
  shows "PathExtension (CollisionName leaf n) = PathExtension leaf"
proof -
  let ?e = "PathExtension leaf" and ?b = "DeletingPathExtension leaf @ '' ('' @ itoa n @ '')''"
  have c: "CollisionName leaf n = ?b @ CHR ''.'' # ?e"
    using assms(3) by (simp add: CollisionName_def Let_def)
  have ne: "CHR ''.'' \<notin> set ?e"
    using extension_split assms by (auto simp: leaf_elem_def)
  have "slash \<notin> set (CollisionName leaf n)"
    using CollisionName_elem[OF assms(1,2)] by (simp add: leaf_elem_def)
  then have "path_base (CollisionName leaf n) = CollisionName leaf n"
    by (rule path_base_id) (simp add: c)
  moreover have "last_index (CollisionName leaf n) (CHR ''.'') = Some (length ?b)"
    unfolding c by (rule last_index_append[OF ne])
  moreover have "length ?b \<noteq> 0" "length ?b \<noteq> length (CollisionName leaf n) - 1"
    using assms(3) unfolding c by simp_all
  moreover have "drop (length x + 1) (x @ y # z) = z" for x z :: string and y by simp
  from this[of ?b "CHR ''.''" ?e] have "drop (length ?b + 1) (CollisionName leaf n) = ?e" unfolding c .
  ultimately show ?thesis
    unfolding PathExtension_def[of "CollisionName leaf n"] Let_def by (simp only: option.case if_False simp_thms)
qed

section \<open>The interface\<close>

text \<open>
  The contract of the \<open>Sanitizer\<close> interface its clients rely on: whatever the raw name, the
  leaf handed out is a proper path element that is not hidden. The store's saves are
  verified against this contract only.
\<close>

locale sanitizer =
  fixes safe_leaf :: "string \<Rightarrow> string \<Rightarrow> string \<Rightarrow> string \<Rightarrow> (path_error, string) result"
  assumes safe_elem: "safe_leaf raw kind uti dir = Inr leaf \<Longrightarrow> leaf_elem leaf"
    and safe_visible: "safe_leaf raw kind uti dir = Inr leaf \<Longrightarrow> hd leaf \<noteq> CHR ''.''"
begin

lemma candidate_elem:
  "safe_leaf raw kind uti dir = Inr leaf \<Longrightarrow> 0 \<le> n \<Longrightarrow> leaf_elem (CollisionName leaf n)"
  by (rule CollisionName_elem[OF safe_elem])

lemma candidate_child:
  assumes "safe_leaf raw kind uti dir = Inr leaf" and "\<forall>e\<in>set es. leaf_elem e"
    and "name = leaf \<or> (\<exists>n\<ge>0. name = CollisionName leaf n)"
  shows "path_join (abs_dir es) name = abs_dir (es @ [name])"
  using assms safe_elem candidate_elem path_join_abs_dir by blast

end

lemma SafeLeaf_Inr: "SafeLeaf ev now raw kind uti dir = Inr leaf \<Longrightarrow> leaf = CleanLeaf now raw kind uti"
  by (auto simp: SafeLeaf_def Let_def split: if_splits)

interpretation default_sanitizer: sanitizer "SafeLeaf ev now" for ev now
  by unfold_locales (use SafeLeaf_Inr CleanLeaf_leaf_elem CleanLeaf_shape in metis)+

section \<open>Properties\<close>

text \<open>Whatever bytes a sender puts in a name, the cleaned leaf is a safe visible file name:
  non-empty, a single path element other than dot and dot-dot, not hidden, of allowlisted
  characters only, and at most 200 bytes long.\<close>

lemma CleanLeaf_safe:
  "leaf_elem (CleanLeaf now raw kind uti) \<and> hd (CleanLeaf now raw kind uti) \<noteq> CHR ''.'' \<and>
   list_all allowed_char (CleanLeaf now raw kind uti) \<and> length (CleanLeaf now raw kind uti) \<le> NameMaxBytes"
  using CleanLeaf_shape[of now raw kind uti] CleanLeaf_leaf_elem[of now raw kind uti]
  by (simp add: list_all_iff NameMaxBytes_def)

text \<open>C1. No name escapes the save directory: for a save directory that resolves to, or when it
  cannot be resolved cleans to, an absolute path, the containment check passes and the
  destination is a direct child of that directory.\<close>

theorem SafeLeaf_contained:
  assumes "\<forall>e\<in>set es. leaf_elem e"
    and "evalSymlinks saveDir = Some (abs_dir es) \<or> (evalSymlinks saveDir = None \<and> saveDir = abs_dir es)"
  shows "\<exists>leaf. SafeLeaf evalSymlinks now raw kind uti saveDir = Inr leaf \<and> leaf_elem leaf \<and>
           path_join (evalDir evalSymlinks saveDir) leaf = abs_dir (es @ [leaf])"
proof -
  have d: "evalDir evalSymlinks saveDir = abs_dir es"
    using assms by (auto simp: evalDir_def path_clean_abs_dir)
  show ?thesis
    using SafeLeaf_ok[OF assms(1) d] CleanLeaf_leaf_elem path_join_abs_dir[OF assms(1)] d by auto
qed

theorem SafeLeaf_contained_witness:
  "\<forall>now. \<exists>leaf. SafeLeaf (\<lambda>d. None) now ''../../etc/passwd'' KindFile [] ''/home/me/ClipBeam'' = Inr leaf \<and>
     leaf_elem leaf \<and>
     path_join (evalDir (\<lambda>d. None) ''/home/me/ClipBeam'') leaf = abs_dir ([''home'', ''me'', ''ClipBeam''] @ [leaf])"
  using SafeLeaf_contained[of "[''home'', ''me'', ''ClipBeam'']" "\<lambda>d. None" "''/home/me/ClipBeam''"]
  by (simp add: leaf_elem_def abs_dir_def)

text \<open>The collision candidates of a name are pairwise different proper leaf names and keep
  its extension, so the search for a free name never tries one twice.\<close>

lemma CollisionName_distinct:
  assumes "leaf_elem leaf" and "0 \<le> m" and "0 \<le> n"
  shows "leaf_elem (CollisionName leaf n) \<and> (CollisionName leaf m = CollisionName leaf n \<longleftrightarrow> m = n) \<and>
         (PathExtension leaf \<noteq> [] \<longrightarrow> PathExtension (CollisionName leaf n) = PathExtension leaf)"
  using assms CollisionName_elem CollisionName_inj CollisionName_extension by blast

lemma CollisionName_distinct_witness:
  "PathExtension (CollisionName ''a.png'' 2) = ''png'' \<and> CollisionName ''a.png'' 2 \<noteq> CollisionName ''a.png'' 3"
proof -
  have "PathExtension ''a.png'' = ''png''" by code_simp
  moreover have "leaf_elem ''a.png''" by (simp add: leaf_elem_def)
  ultimately show ?thesis
    using CollisionName_distinct[of "''a.png''" 2 2] CollisionName_distinct[of "''a.png''" 2 3] by simp
qed

end
