(* ===== verification/Waiters.thy ===== *)
theory Waiters
  imports Steps "HOL-Library.Multiset"
begin

text \<open>
  The long-poll primitives of package \<open>store\<close> (\<open>waiters.go\<close>) and the single-flight slot of
  package \<open>httpd\<close>. A channel of capacity one is an optional buffered value, addressed by an
  id that \<open>make(chan)\<close> draws from a counter. Each locked section and each channel operation of
  the code is one step; the callers are threads with a program counter.
\<close>

section \<open>The agent FIFO\<close>

record 'a fifo =
  queue :: "'a list"
  waiters :: "nat list"
  chans :: "nat \<Rightarrow> 'a option"
  next_chan :: nat

definition fifo_empty :: "'a fifo" where
  "fifo_empty = \<lparr>queue = [], waiters = [], chans = (\<lambda>c. None), next_chan = 0\<rparr>"

text \<open>The hand-off loop of \<open>enqueue\<close>: the front of the queue goes to the front waiter.\<close>

fun handoff :: "nat list \<Rightarrow> 'a list \<Rightarrow> (nat \<Rightarrow> 'a option) \<Rightarrow> nat list \<times> 'a list \<times> (nat \<Rightarrow> 'a option)" where
  "handoff (w # ws) (x # xs) c = handoff ws xs (c(w := Some x))"
| "handoff ws xs c = (ws, xs, c)"

definition enqueue :: "'a list \<Rightarrow> 'a fifo \<Rightarrow> 'a fifo" where
  "enqueue items f =
     (let (ws, q, c) = handoff (waiters f) (queue f @ items) (chans f)
      in f\<lparr>queue := q, waiters := ws, chans := c\<rparr>)"

text \<open>The locked part of \<open>recv\<close>: an item at once, or the id of the channel it parks on.\<close>

definition recv_begin :: "'a fifo \<Rightarrow> ('a + nat) \<times> 'a fifo" where
  "recv_begin f =
     (case queue f of
        x # q \<Rightarrow> (Inl x, f\<lparr>queue := q\<rparr>)
      | [] \<Rightarrow> (Inr (next_chan f),
               f\<lparr>waiters := waiters f @ [next_chan f], next_chan := Suc (next_chan f)\<rparr>))"

definition removeWaiter :: "nat \<Rightarrow> 'a fifo \<Rightarrow> 'a fifo" where
  "removeWaiter ch f = f\<lparr>waiters := remove1 ch (waiters f)\<rparr>"

text \<open>A receive from a channel that has a value, or the non-blocking receive of the
  lost-wakeup guard.\<close>

definition chan_take :: "nat \<Rightarrow> 'a fifo \<Rightarrow> 'a option \<times> 'a fifo" where
  "chan_take ch f = (chans f ch, f\<lparr>chans := (chans f)(ch := None)\<rparr>)"

datatype 'a pc = Idle | Parked nat | Expired nat | Unlisted nat | Returned "'a option"

record 'a fifo_sys =
  sys_fifo :: "'a fifo"
  sys_pc :: "nat \<Rightarrow> 'a pc"
  sys_sent :: "'a list"
  sys_got :: "'a list"

definition fifo_init :: "'a fifo_sys \<Rightarrow> bool" where
  "fifo_init s \<longleftrightarrow> s = \<lparr>sys_fifo = fifo_empty, sys_pc = (\<lambda>t. Idle), sys_sent = [], sys_got = []\<rparr>"

inductive fifo_step :: "'a fifo_sys \<Rightarrow> 'a fifo_sys \<Rightarrow> bool" where
  Enqueue:
    "fifo_step s (s\<lparr>sys_fifo := enqueue items (sys_fifo s), sys_sent := sys_sent s @ items\<rparr>)"
| RecvNow:
    "sys_pc s t = Idle \<Longrightarrow> recv_begin (sys_fifo s) = (Inl x, f) \<Longrightarrow>
     fifo_step s (s\<lparr>sys_fifo := f, sys_pc := (sys_pc s)(t := Returned (Some x)), sys_got := sys_got s @ [x]\<rparr>)"
| RecvPark:
    "sys_pc s t = Idle \<Longrightarrow> recv_begin (sys_fifo s) = (Inr ch, f) \<Longrightarrow>
     fifo_step s (s\<lparr>sys_fifo := f, sys_pc := (sys_pc s)(t := Parked ch)\<rparr>)"
| Wake:
    "sys_pc s t = Parked ch \<Longrightarrow> chan_take ch (sys_fifo s) = (Some x, f) \<Longrightarrow>
     fifo_step s (s\<lparr>sys_fifo := f, sys_pc := (sys_pc s)(t := Returned (Some x)), sys_got := sys_got s @ [x]\<rparr>)"
| CtxDone:
    "sys_pc s t = Parked ch \<Longrightarrow> fifo_step s (s\<lparr>sys_pc := (sys_pc s)(t := Expired ch)\<rparr>)"
| Unlist:
    "sys_pc s t = Expired ch \<Longrightarrow>
     fifo_step s (s\<lparr>sys_fifo := removeWaiter ch (sys_fifo s), sys_pc := (sys_pc s)(t := Unlisted ch)\<rparr>)"
| DrainItem:
    "sys_pc s t = Unlisted ch \<Longrightarrow> chan_take ch (sys_fifo s) = (Some x, f) \<Longrightarrow>
     fifo_step s (s\<lparr>sys_fifo := f, sys_pc := (sys_pc s)(t := Returned (Some x)), sys_got := sys_got s @ [x]\<rparr>)"
| DrainNone:
    "sys_pc s t = Unlisted ch \<Longrightarrow> chan_take ch (sys_fifo s) = (None, f) \<Longrightarrow>
     fifo_step s (s\<lparr>sys_fifo := f, sys_pc := (sys_pc s)(t := Returned None)\<rparr>)"
| Again:
    "sys_pc s t = Returned r \<Longrightarrow> fifo_step s (s\<lparr>sys_pc := (sys_pc s)(t := Idle)\<rparr>)"

subsection \<open>Items in flight\<close>

definition chan_list :: "(nat \<Rightarrow> 'a option) \<Rightarrow> nat \<Rightarrow> 'a list" where
  "chan_list c n = concat (map (\<lambda>i. case c i of None \<Rightarrow> [] | Some x \<Rightarrow> [x]) [0..<n])"

text \<open>The channel a thread holds between parking and returning.\<close>

fun holds :: "'a pc \<Rightarrow> nat option" where
  "holds (Parked ch) = Some ch"
| "holds (Expired ch) = Some ch"
| "holds (Unlisted ch) = Some ch"
| "holds _ = None"

lemma chan_list_Suc [simp]:
  "chan_list c (Suc n) = chan_list c n @ (case c n of None \<Rightarrow> [] | Some x \<Rightarrow> [x])"
  by (simp add: chan_list_def)

lemma chan_list_cong: "(\<And>i. i < n \<Longrightarrow> c i = d i) \<Longrightarrow> chan_list c n = chan_list d n"
  by (induction n) (simp_all add: chan_list_def)

lemma chan_list_put:
  "w < n \<Longrightarrow> c w = None \<Longrightarrow> mset (chan_list (c(w := Some x)) n) = add_mset x (mset (chan_list c n))"
proof (induction n)
  case (Suc n)
  show ?case
  proof (cases "w = n")
    case True
    have "chan_list (c(n := Some x)) n = chan_list c n" by (rule chan_list_cong) simp
    with True Suc.prems show ?thesis by (simp del: fun_upd_apply add: fun_upd_same)
  next
    case False
    then have "(c(w := Some x)) n = c n" by simp
    with False Suc show ?thesis by (simp del: fun_upd_apply split: option.split)
  qed
qed simp

lemma chan_list_take:
  "w < n \<Longrightarrow> c w = Some x \<Longrightarrow> mset (chan_list c n) = add_mset x (mset (chan_list (c(w := None)) n))"
proof -
  assume "w < n" "c w = Some x"
  moreover have "c = (c(w := None))(w := Some x)" using calculation by auto
  ultimately show ?thesis using chan_list_put[of w n "c(w := None)" x] by simp
qed

lemma chan_list_clear: "c w = None \<Longrightarrow> chan_list (c(w := None)) n = chan_list c n"
  by (simp add: fun_upd_idem)

lemma chan_list_empty: "(\<And>i. i < n \<Longrightarrow> c i = None) \<Longrightarrow> chan_list c n = []"
  by (simp add: chan_list_def)

lemma handoff_spec:
  assumes "handoff ws xs c = (ws', xs', c')" and "distinct ws"
    and "\<forall>w\<in>set ws. w < n \<and> c w = None"
  shows "\<exists>ys. xs = ys @ xs' \<and> mset (chan_list c' n) = mset ys + mset (chan_list c n)
     \<and> (ws' = [] \<or> xs' = []) \<and> (\<exists>us. ws = us @ ws') \<and> (\<forall>w\<in>set ws'. c' w = None)
     \<and> (\<forall>i. i \<notin> set ws \<longrightarrow> c' i = c i)"
  using assms
proof (induction ws xs c arbitrary: rule: handoff.induct)
  case (1 w ws x xs c)
  have "\<forall>v\<in>set ws. v < n \<and> (c(w := Some x)) v = None" using "1.prems" by auto
  moreover have h: "handoff ws xs (c(w := Some x)) = (ws', xs', c')" and d: "distinct ws"
    using "1.prems"(1,2) by (simp_all del: fun_upd_apply)
  ultimately obtain ys where "xs = ys @ xs'"
    and "mset (chan_list c' n) = mset ys + mset (chan_list (c(w := Some x)) n)"
    and r: "ws' = [] \<or> xs' = []" "\<exists>us. ws = us @ ws'" "\<forall>w\<in>set ws'. c' w = None"
      "\<forall>i. i \<notin> set ws \<longrightarrow> c' i = (c(w := Some x)) i" using "1.IH"[OF h d] by blast
  moreover have "mset (chan_list (c(w := Some x)) n) = add_mset x (mset (chan_list c n))"
    using "1.prems" by (intro chan_list_put) auto
  ultimately show ?case
    by (intro exI[of _ "x # ys"]) (auto intro: exI[of _ "w # _"])
qed auto

text \<open>The invariant in three parts: the FIFO itself; who owns its channels; where the items are.\<close>

definition fifo_ok :: "'a fifo \<Rightarrow> bool" where
  "fifo_ok f \<longleftrightarrow> (waiters f = [] \<or> queue f = []) \<and> distinct (waiters f) \<and>
     (\<forall>w\<in>set (waiters f). w < next_chan f \<and> chans f w = None) \<and> (\<forall>c. next_chan f \<le> c \<longrightarrow> chans f c = None)"

definition live_chan :: "'a fifo \<Rightarrow> nat \<Rightarrow> bool" where
  "live_chan f c \<longleftrightarrow> c \<in> set (waiters f) \<or> chans f c \<noteq> None"

definition owned :: "'a fifo \<Rightarrow> (nat \<Rightarrow> 'a pc) \<Rightarrow> bool" where
  "owned f pc \<longleftrightarrow>
     (\<forall>c. live_chan f c \<longrightarrow> (\<exists>t. holds (pc t) = Some c)) \<and>
     (\<forall>t c. holds (pc t) = Some c \<longrightarrow> c < next_chan f) \<and>
     (\<forall>t u c. holds (pc t) = Some c \<longrightarrow> holds (pc u) = Some c \<longrightarrow> t = u) \<and>
     (\<forall>t c. pc t = Unlisted c \<longrightarrow> c \<notin> set (waiters f))"

definition flow :: "'a fifo \<Rightarrow> 'a list \<Rightarrow> 'a list \<Rightarrow> bool" where
  "flow f sent got \<longleftrightarrow>
     (\<exists>h. sent = h @ queue f \<and> mset h = mset got + mset (chan_list (chans f) (next_chan f)))"

definition fifo_inv :: "'a fifo_sys \<Rightarrow> bool" where
  "fifo_inv s \<longleftrightarrow> fifo_ok (sys_fifo s) \<and> owned (sys_fifo s) (sys_pc s) \<and>
     flow (sys_fifo s) (sys_sent s) (sys_got s)"

lemma enqueue_effect:
  assumes "fifo_ok f"
  shows "fifo_ok (enqueue xs f) \<and> next_chan (enqueue xs f) = next_chan f
     \<and> set (waiters (enqueue xs f)) \<subseteq> set (waiters f) \<and> (\<forall>c. live_chan (enqueue xs f) c \<longrightarrow> live_chan f c)
     \<and> (flow f sent got \<longrightarrow> flow (enqueue xs f) (sent @ xs) got)"
proof -
  obtain ws q c where h: "handoff (waiters f) (queue f @ xs) (chans f) = (ws, q, c)" by (metis prod_cases3)
  have d: "distinct (waiters f)" "\<forall>w\<in>set (waiters f). w < next_chan f \<and> chans f w = None"
    using assms by (auto simp: fifo_ok_def)
  from handoff_spec[OF h d] obtain ys us where ys: "queue f @ xs = ys @ q"
    and m: "mset (chan_list c (next_chan f)) = mset ys + mset (chan_list (chans f) (next_chan f))"
    and r: "ws = [] \<or> q = []" "waiters f = us @ ws" "\<forall>w\<in>set ws. c w = None"
      "\<forall>i. i \<notin> set (waiters f) \<longrightarrow> c i = chans f i" by blast
  have e: "enqueue xs f = f\<lparr>queue := q, waiters := ws, chans := c\<rparr>" by (simp add: enqueue_def h)
  have w: "\<forall>i. next_chan f \<le> i \<longrightarrow> i \<notin> set (waiters f)" using d(2) by auto
  have "fifo_ok (enqueue xs f)" using assms r w unfolding fifo_ok_def e by auto
  moreover have "\<forall>i. live_chan (enqueue xs f) i \<longrightarrow> live_chan f i"
    using r unfolding live_chan_def e by auto
  moreover have "flow (enqueue xs f) (sent @ xs) got" if fl: "flow f sent got"
  proof -
    from fl obtain h0 where "sent = h0 @ queue f"
      and "mset h0 = mset got + mset (chan_list (chans f) (next_chan f))" by (auto simp: flow_def)
    then show ?thesis using m ys unfolding flow_def e by (intro exI[of _ "h0 @ ys"]) simp
  qed
  ultimately show ?thesis using r unfolding e by auto
qed

lemma recv_now_effect:
  assumes "recv_begin f = (Inl x, f')"
  shows "queue f = x # queue f' \<and> waiters f' = waiters f \<and> chans f' = chans f \<and> next_chan f' = next_chan f"
  using assms by (auto simp: recv_begin_def split: list.splits)

lemma recv_park_effect:
  assumes "recv_begin f = (Inr ch, f')"
  shows "queue f = [] \<and> queue f' = [] \<and> ch = next_chan f \<and> waiters f' = waiters f @ [ch] \<and> chans f' = chans f
     \<and> next_chan f' = Suc ch"
  using assms by (auto simp: recv_begin_def split: list.splits)

lemma chan_take_effect:
  assumes "chan_take ch f = (r, f')"
  shows "chans f ch = r \<and> queue f' = queue f \<and> waiters f' = waiters f \<and> chans f' = (chans f)(ch := None)
     \<and> next_chan f' = next_chan f"
  using assms by (auto simp: chan_take_def)

lemma ownedI:
  assumes "\<And>c. live_chan f c \<Longrightarrow> \<exists>t. holds (pc t) = Some c"
    and "\<And>t c. holds (pc t) = Some c \<Longrightarrow> c < next_chan f"
    and "\<And>t u c. holds (pc t) = Some c \<Longrightarrow> holds (pc u) = Some c \<Longrightarrow> t = u"
    and "\<And>t c. pc t = Unlisted c \<Longrightarrow> c \<notin> set (waiters f)"
  shows "owned f pc"
  using assms by (simp add: owned_def)

lemma ownedD:
  assumes "owned f pc"
  shows "live_chan f c \<Longrightarrow> \<exists>t. holds (pc t) = Some c"
    and "holds (pc t) = Some c \<Longrightarrow> c < next_chan f"
    and "holds (pc t) = Some c \<Longrightarrow> holds (pc u) = Some c \<Longrightarrow> t = u"
    and "pc t = Unlisted c \<Longrightarrow> c \<notin> set (waiters f)"
  using assms unfolding owned_def by blast+

lemma owned_update:
  assumes ow: "owned f pc" and none: "holds p = None"
    and live: "\<And>c. live_chan f' c \<Longrightarrow> live_chan f c \<and> holds (pc t) \<noteq> Some c"
    and nxt: "next_chan f' = next_chan f" and ws: "set (waiters f') \<subseteq> set (waiters f)"
  shows "owned f' (pc(t := p))"
proof (rule ownedI)
  fix c
  assume c: "live_chan f' c"
  then obtain u where "holds (pc u) = Some c" using ownedD(1)[OF ow] live by blast
  moreover from this live[OF c] have "u \<noteq> t" by auto
  ultimately show "\<exists>v. holds ((pc(t := p)) v) = Some c" by (intro exI[of _ u]) simp
next
  fix u v c
  have h: "w \<noteq> t \<and> holds (pc w) = Some c" if "holds ((pc(t := p)) w) = Some c" for w
    using that none by (cases "w = t") auto
  show "c < next_chan f'" if u: "holds ((pc(t := p)) u) = Some c"
    using ownedD(2)[OF ow conjunct2[OF h[OF u]]] nxt by simp
  show "u = v" if u: "holds ((pc(t := p)) u) = Some c" and v: "holds ((pc(t := p)) v) = Some c"
    using ownedD(3)[OF ow conjunct2[OF h[OF u]] conjunct2[OF h[OF v]]] .
next
  fix u c
  assume "(pc(t := p)) u = Unlisted c"
  then have "pc u = Unlisted c" using none by (cases "u = t") auto
  then show "c \<notin> set (waiters f')" using ownedD(4)[OF ow] ws by blast
qed

text \<open>A thread that holds a channel takes its item, or finds none after unlisting itself.\<close>

lemma take_item_inv:
  assumes "fifo_inv s" and "holds (sys_pc s t) = Some ch" and "chan_take ch (sys_fifo s) = (Some x, f)"
  shows "fifo_inv (s\<lparr>sys_fifo := f, sys_pc := (sys_pc s)(t := Returned (Some x)), sys_got := sys_got s @ [x]\<rparr>)"
proof -
  note e = chan_take_effect[OF assms(3)]
  have ok: "fifo_ok f" using assms(1) e by (auto simp: fifo_inv_def fifo_ok_def)
  have nw: "ch \<notin> set (waiters (sys_fifo s))" using assms(1) e by (auto simp: fifo_inv_def fifo_ok_def)
  have ow: "owned f ((sys_pc s)(t := Returned (Some x)))"
  proof (rule owned_update)
    show "owned (sys_fifo s) (sys_pc s)" using assms(1) by (simp add: fifo_inv_def)
    show "live_chan (sys_fifo s) c \<and> holds (sys_pc s t) \<noteq> Some c" if "live_chan f c" for c
      using that assms(2) e nw by (auto simp: live_chan_def split: if_splits)
  qed (use e in simp_all)
  have "ch < next_chan (sys_fifo s)" using assms(1,2) by (auto simp: fifo_inv_def owned_def)
  then have "mset (chan_list (chans (sys_fifo s)) (next_chan (sys_fifo s)))
      = add_mset x (mset (chan_list (chans f) (next_chan f)))"
    using e chan_list_take[of ch "next_chan (sys_fifo s)" "chans (sys_fifo s)" x] by (simp del: fun_upd_apply)
  then have "flow f (sys_sent s) (sys_got s @ [x])"
    using assms(1) e by (auto simp: fifo_inv_def flow_def simp del: fun_upd_apply)
  with ok ow show ?thesis by (simp add: fifo_inv_def)
qed

lemma owned_rename:
  assumes ow: "owned f pc" and h: "holds (pc t) = holds p" and p: "\<forall>c. p \<noteq> Unlisted c"
  shows "owned f (pc(t := p))"
proof (rule ownedI)
  have e: "holds ((pc(t := p)) u) = holds (pc u)" for u using h by simp
  show "\<exists>u. holds ((pc(t := p)) u) = Some c" if "live_chan f c" for c
    using ownedD(1)[OF ow that] unfolding e .
  show "c < next_chan f" if "holds ((pc(t := p)) u) = Some c" for u c
    using that ownedD(2)[OF ow, of u c] unfolding e by simp
  show "u = v" if "holds ((pc(t := p)) u) = Some c" "holds ((pc(t := p)) v) = Some c" for u v c
    using that ownedD(3)[OF ow] unfolding e by blast
  show "c \<notin> set (waiters f)" if "(pc(t := p)) u = Unlisted c" for u c
    using that p ownedD(4)[OF ow] by (cases "u = t") auto
qed

lemma owned_unlist:
  assumes ow: "owned f pc" and "fifo_ok f" and "pc t = Expired ch"
  shows "owned (removeWaiter ch f) (pc(t := Unlisted ch))"
proof (rule ownedI)
  have d: "distinct (waiters f)" using assms(2) by (simp add: fifo_ok_def)
  have e: "holds ((pc(t := Unlisted ch)) u) = holds (pc u)" for u using assms(3) by simp
  have "live_chan f c" if "live_chan (removeWaiter ch f) c" for c
    using that by (auto simp: live_chan_def removeWaiter_def dest: notin_set_remove1)
  then show "\<exists>u. holds ((pc(t := Unlisted ch)) u) = Some c" if "live_chan (removeWaiter ch f) c" for c
    using that ownedD(1)[OF ow] unfolding e by blast
  show "c < next_chan (removeWaiter ch f)" if "holds ((pc(t := Unlisted ch)) u) = Some c" for u c
    using that ownedD(2)[OF ow] unfolding e by (simp add: removeWaiter_def)
  show "u = v" if "holds ((pc(t := Unlisted ch)) u) = Some c" "holds ((pc(t := Unlisted ch)) v) = Some c" for u v c
    using that ownedD(3)[OF ow] unfolding e by blast
  show "c \<notin> set (waiters (removeWaiter ch f))" if "(pc(t := Unlisted ch)) u = Unlisted c" for u c
    using that d ownedD(4)[OF ow, of u c] by (cases "u = t") (auto simp: removeWaiter_def dest: notin_set_remove1)
qed

lemma fifo_inv_step:
  assumes inv: "fifo_inv s" and "fifo_step s s'"
  shows "fifo_inv s'"
  using assms(2)
proof (cases rule: fifo_step.cases)
  case (Enqueue items)
  note e = enqueue_effect[of "sys_fifo s" items "sys_sent s" "sys_got s"]
  have ow: "owned (sys_fifo s) (sys_pc s)" and ok: "fifo_ok (sys_fifo s)" using inv by (auto simp: fifo_inv_def)
  have "owned (enqueue items (sys_fifo s)) (sys_pc s)"
    by (rule ownedI) (use ownedD[OF ow] e[OF ok] in blast, use ownedD[OF ow] e[OF ok] in \<open>auto\<close>)
  then show ?thesis using Enqueue inv e by (auto simp: fifo_inv_def)
next
  case (RecvNow t x f)
  note e = recv_now_effect[OF RecvNow(3)]
  have "owned f (sys_pc s)" using inv e unfolding fifo_inv_def owned_def live_chan_def by simp
  then have "owned f ((sys_pc s)(t := Returned (Some x)))" using RecvNow(2) by (intro owned_rename) auto
  moreover have "fifo_ok f" using inv e by (auto simp: fifo_inv_def fifo_ok_def)
  moreover have "flow f (sys_sent s) (sys_got s @ [x])"
  proof -
    from inv obtain h where "sys_sent s = h @ x # queue f"
      and "mset h = mset (sys_got s) + mset (chan_list (chans f) (next_chan f))"
      using e by (auto simp: fifo_inv_def flow_def)
    then show ?thesis unfolding flow_def by (intro exI[of _ "h @ [x]"]) simp
  qed
  ultimately show ?thesis using RecvNow(1) by (simp add: fifo_inv_def)
next
  case (RecvPark t ch f)
  note e = recv_park_effect[OF RecvPark(3)]
  have fresh: "chans (sys_fifo s) ch = None" using inv e by (auto simp: fifo_inv_def fifo_ok_def)
  have "fifo_ok f" using inv e fresh by (auto simp: fifo_inv_def fifo_ok_def)
  moreover have "flow f (sys_sent s) (sys_got s)"
    using inv e fresh by (auto simp: fifo_inv_def flow_def)
  moreover have "owned f ((sys_pc s)(t := Parked ch))"
  proof (rule ownedI)
    have ow: "owned (sys_fifo s) (sys_pc s)" using inv by (simp add: fifo_inv_def)
    note old = ownedD[OF ow]
    have idle: "holds (sys_pc s t) = None" using RecvPark(2) by simp
    show "\<exists>u. holds (((sys_pc s)(t := Parked ch)) u) = Some c" if "live_chan f c" for c
    proof (cases "c = ch")
      case False
      then have "live_chan (sys_fifo s) c" using that e by (auto simp: live_chan_def)
      then obtain u where "holds (sys_pc s u) = Some c" using old(1) by blast
      then show ?thesis using idle by (intro exI[of _ u]) auto
    qed (auto intro: exI[of _ t])
    show "c < next_chan f" if "holds (((sys_pc s)(t := Parked ch)) u) = Some c" for u c
      using that old(2)[of u c] e by (cases "u = t") auto
    show "u = v" if "holds (((sys_pc s)(t := Parked ch)) u) = Some c" "holds (((sys_pc s)(t := Parked ch)) v) = Some c"
      for u v c
      using that old(2)[of u c] old(2)[of v c] old(3)[of u c v] e by (cases "u = t"; cases "v = t") auto
    show "c \<notin> set (waiters f)" if "((sys_pc s)(t := Parked ch)) u = Unlisted c" for u c
    proof -
      have "sys_pc s u = Unlisted c" using that by (cases "u = t") auto
      then show ?thesis using old(4)[of u c] old(2)[of u c] e by auto
    qed
  qed
  ultimately show ?thesis using RecvPark(1) by (simp add: fifo_inv_def)
next
  case (Wake t ch x f)
  then show ?thesis using take_item_inv[OF inv, of t ch x f] by simp
next
  case (CtxDone t ch)
  then have "owned (sys_fifo s) ((sys_pc s)(t := Expired ch))"
    using inv by (intro owned_rename) (auto simp: fifo_inv_def)
  then show ?thesis using CtxDone inv by (simp add: fifo_inv_def)
next
  case (Unlist t ch)
  have "owned (removeWaiter ch (sys_fifo s)) ((sys_pc s)(t := Unlisted ch))"
    using inv Unlist by (intro owned_unlist) (auto simp: fifo_inv_def)
  moreover have "fifo_ok (removeWaiter ch (sys_fifo s))"
    using inv by (auto simp: fifo_inv_def fifo_ok_def removeWaiter_def dest: notin_set_remove1)
  ultimately show ?thesis using Unlist inv by (simp add: fifo_inv_def flow_def removeWaiter_def)
next
  case (DrainItem t ch x f)
  then show ?thesis using take_item_inv[OF inv, of t ch x f] by simp
next
  case (DrainNone t ch f)
  note e = chan_take_effect[OF DrainNone(3)]
  have "(chans (sys_fifo s))(ch := None) = chans (sys_fifo s)" using e by (simp add: fun_upd_idem)
  then have f: "f = sys_fifo s" using DrainNone(3) by (simp add: chan_take_def)
  have "ch \<notin> set (waiters f)" using inv DrainNone(2) f by (auto simp: fifo_inv_def owned_def)
  then have "\<not> live_chan f ch" using e f by (simp add: live_chan_def)
  then have "owned f ((sys_pc s)(t := Returned None))"
    using inv DrainNone(2) f by (intro owned_update[of "sys_fifo s"]) (auto simp: fifo_inv_def)
  then show ?thesis using DrainNone(1) f inv by (simp add: fifo_inv_def)
next
  case (Again t r)
  then have "owned (sys_fifo s) ((sys_pc s)(t := Idle))"
    using inv by (intro owned_rename) (auto simp: fifo_inv_def)
  then show ?thesis using Again inv by (simp add: fifo_inv_def)
qed

lemma fifo_inv_init: "fifo_init s \<Longrightarrow> fifo_inv s"
  by (auto simp: fifo_init_def fifo_empty_def fifo_inv_def fifo_ok_def owned_def live_chan_def flow_def chan_list_empty)

interpretation agent_fifo: invariant_system fifo_init fifo_step fifo_inv
  by unfold_locales (rule fifo_inv_init fifo_inv_step; assumption)+

section \<open>The path waiters\<close>

record path_waiters =
  pw_waiters :: "nat list"
  pw_chans :: "nat \<Rightarrow> string option"
  pw_next :: nat

text \<open>The locked part of \<open>resume\<close> takes the whole list; the sends follow one by one, outside the
  lock. A send on a full channel blocks: \<open>None\<close>.\<close>

definition pw_take :: "path_waiters \<Rightarrow> nat list \<times> path_waiters" where
  "pw_take w = (pw_waiters w, w\<lparr>pw_waiters := []\<rparr>)"

definition pw_send :: "string \<Rightarrow> nat \<Rightarrow> path_waiters \<Rightarrow> path_waiters option" where
  "pw_send path ch w =
     (case pw_chans w ch of
        None \<Rightarrow> Some (w\<lparr>pw_chans := (pw_chans w)(ch := Some path)\<rparr>)
      | Some _ \<Rightarrow> None)"

definition pw_park :: "path_waiters \<Rightarrow> nat \<times> path_waiters" where
  "pw_park w = (pw_next w, w\<lparr>pw_waiters := pw_waiters w @ [pw_next w], pw_next := Suc (pw_next w)\<rparr>)"

definition pw_remove :: "nat \<Rightarrow> path_waiters \<Rightarrow> path_waiters" where
  "pw_remove ch w = w\<lparr>pw_waiters := remove1 ch (pw_waiters w)\<rparr>"

definition pw_poll :: "nat \<Rightarrow> path_waiters \<Rightarrow> string option \<times> path_waiters" where
  "pw_poll ch w = (pw_chans w ch, w\<lparr>pw_chans := (pw_chans w)(ch := None)\<rparr>)"

record path_sys =
  ps_w :: path_waiters
  ps_pc :: "nat \<Rightarrow> string pc"
  ps_resume :: "nat \<Rightarrow> string \<times> nat list"

definition path_init :: "path_sys \<Rightarrow> bool" where
  "path_init s \<longleftrightarrow> s = \<lparr>ps_w = \<lparr>pw_waiters = [], pw_chans = (\<lambda>c. None), pw_next = 0\<rparr>,
     ps_pc = (\<lambda>t. Idle), ps_resume = (\<lambda>r. ([], []))\<rparr>"

inductive path_step :: "path_sys \<Rightarrow> path_sys \<Rightarrow> bool" where
  ResumeTake:
    "snd (ps_resume s r) = [] \<Longrightarrow> pw_take (ps_w s) = (parked, w) \<Longrightarrow>
     path_step s (s\<lparr>ps_w := w, ps_resume := (ps_resume s)(r := (path, parked))\<rparr>)"
| ResumeSend:
    "ps_resume s r = (path, ch # chs) \<Longrightarrow> pw_send path ch (ps_w s) = Some w \<Longrightarrow>
     path_step s (s\<lparr>ps_w := w, ps_resume := (ps_resume s)(r := (path, chs))\<rparr>)"
| WaitPark:
    "ps_pc s t = Idle \<Longrightarrow> pw_park (ps_w s) = (ch, w) \<Longrightarrow>
     path_step s (s\<lparr>ps_w := w, ps_pc := (ps_pc s)(t := Parked ch)\<rparr>)"
| WaitWake:
    "ps_pc s t = Parked ch \<Longrightarrow> pw_poll ch (ps_w s) = (Some p, w) \<Longrightarrow>
     path_step s (s\<lparr>ps_w := w, ps_pc := (ps_pc s)(t := Returned (Some p))\<rparr>)"
| WaitCtxDone:
    "ps_pc s t = Parked ch \<Longrightarrow> path_step s (s\<lparr>ps_pc := (ps_pc s)(t := Expired ch)\<rparr>)"
| WaitUnlist:
    "ps_pc s t = Expired ch \<Longrightarrow>
     path_step s (s\<lparr>ps_w := pw_remove ch (ps_w s), ps_pc := (ps_pc s)(t := Unlisted ch)\<rparr>)"
| WaitDrain:
    "ps_pc s t = Unlisted ch \<Longrightarrow> pw_poll ch (ps_w s) = (r, w) \<Longrightarrow>
     path_step s (s\<lparr>ps_w := w, ps_pc := (ps_pc s)(t := Returned r)\<rparr>)"
| WaitAgain:
    "ps_pc s t = Returned r \<Longrightarrow> path_step s (s\<lparr>ps_pc := (ps_pc s)(t := Idle)\<rparr>)"

definition pending :: "path_sys \<Rightarrow> nat \<Rightarrow> nat list" where
  "pending s r = snd (ps_resume s r)"

definition path_inv :: "path_sys \<Rightarrow> bool" where
  "path_inv s \<longleftrightarrow>
     distinct (pw_waiters (ps_w s)) \<and> (\<forall>r. distinct (pending s r)) \<and>
     (\<forall>r c. c \<in> set (pending s r) \<longrightarrow> c \<notin> set (pw_waiters (ps_w s))) \<and>
     (\<forall>r q c. c \<in> set (pending s r) \<longrightarrow> c \<in> set (pending s q) \<longrightarrow> r = q) \<and>
     (\<forall>c \<in> set (pw_waiters (ps_w s)). c < pw_next (ps_w s) \<and> pw_chans (ps_w s) c = None) \<and>
     (\<forall>r c. c \<in> set (pending s r) \<longrightarrow> c < pw_next (ps_w s) \<and> pw_chans (ps_w s) c = None) \<and>
     (\<forall>c. pw_next (ps_w s) \<le> c \<longrightarrow> pw_chans (ps_w s) c = None)"

lemma path_inv_init: "path_init s \<Longrightarrow> path_inv s"
  by (simp add: path_init_def path_inv_def pending_def)

lemma path_inv_clear:
  "path_inv s \<Longrightarrow> pw_poll ch (ps_w s) = (r, w) \<Longrightarrow> path_inv (s\<lparr>ps_w := w, ps_pc := pc\<rparr>)"
  by (auto simp: path_inv_def pending_def pw_poll_def)

lemma path_inv_pc: "path_inv s \<Longrightarrow> path_inv (s\<lparr>ps_pc := pc\<rparr>)"
  by (simp add: path_inv_def pending_def)

lemma path_inv_take:
  assumes inv: "path_inv s" and idle: "snd (ps_resume s r) = []" and take: "pw_take (ps_w s) = (parked, w)"
  shows "path_inv (s\<lparr>ps_w := w, ps_resume := (ps_resume s)(r := (path, parked))\<rparr>)"
proof -
  let ?s = "s\<lparr>ps_w := w, ps_resume := (ps_resume s)(r := (path, parked))\<rparr>"
  have w: "parked = pw_waiters (ps_w s)" "w = (ps_w s)\<lparr>pw_waiters := []\<rparr>"
    using take by (auto simp: pw_take_def)
  have p: "pending ?s q = (if q = r then pw_waiters (ps_w s) else pending s q)" for q
    by (simp add: pending_def w)
  note i = inv[unfolded path_inv_def]
  have old: "pending s r = []" using idle by (simp add: pending_def)
  have "a = b" if "c \<in> set (pending ?s a)" "c \<in> set (pending ?s b)" for a b c
  proof (cases "a = r \<or> b = r")
    case True
    then show ?thesis using that i unfolding p by (metis (full_types))
  next
    case False
    then have "c \<in> set (pending s a)" "c \<in> set (pending s b)" using that unfolding p by simp_all
    then show ?thesis using i by blast
  qed
  moreover have "distinct (pending ?s q)" for q using i unfolding p by simp
  moreover have "\<forall>q c. c \<in> set (pending ?s q) \<longrightarrow> c < pw_next (ps_w s) \<and> pw_chans (ps_w s) c = None"
    using i unfolding p by (metis (full_types))
  ultimately show ?thesis using i unfolding path_inv_def by (simp add: w)
qed

lemma path_inv_send:
  assumes inv: "path_inv s" and todo: "ps_resume s r = (path, ch # chs)"
    and send: "pw_send path ch (ps_w s) = Some w"
  shows "path_inv (s\<lparr>ps_w := w, ps_resume := (ps_resume s)(r := (path, chs))\<rparr>)"
proof -
  let ?s = "s\<lparr>ps_w := w, ps_resume := (ps_resume s)(r := (path, chs))\<rparr>"
  have w: "w = (ps_w s)\<lparr>pw_chans := (pw_chans (ps_w s))(ch := Some path)\<rparr>"
    using send by (auto simp: pw_send_def split: option.splits)
  have old: "pending s r = ch # chs" using todo by (simp add: pending_def)
  have p: "pending ?s q = (if q = r then chs else pending s q)" for q by (simp add: pending_def)
  note i = inv[unfolded path_inv_def]
  have sub: "c \<in> set (pending s q)" if "c \<in> set (pending ?s q)" for q c
    using that old unfolding p by (cases "q = r") auto
  have d: "distinct (ch # chs)" using i old by metis
  have mine: "ch \<in> set (pending s r)" using old by simp
  have ch: "c \<noteq> ch" if "c \<in> set (pending ?s q)" for q c
    using that sub[OF that] d i mine unfolding p by (cases "q = r") auto
  have chw: "ch \<notin> set (pw_waiters (ps_w s))" and chn: "ch < pw_next (ps_w s)" using i mine by blast+
  have "distinct (pending ?s q)" for q using i d unfolding p by (cases "q = r") auto
  moreover have "\<forall>q c. c \<in> set (pending ?s q) \<longrightarrow> c \<notin> set (pw_waiters (ps_w s))" using i sub by blast
  moreover have "\<forall>q u c. c \<in> set (pending ?s q) \<longrightarrow> c \<in> set (pending ?s u) \<longrightarrow> q = u" using i sub by blast
  moreover have "\<forall>q c. c \<in> set (pending ?s q) \<longrightarrow>
      c < pw_next (ps_w s) \<and> ((pw_chans (ps_w s))(ch := Some path)) c = None"
    using i sub ch by (metis fun_upd_other)
  moreover have "\<forall>c\<in>set (pw_waiters (ps_w s)). c < pw_next (ps_w s) \<and> ((pw_chans (ps_w s))(ch := Some path)) c = None"
    using i chw by auto
  moreover have "\<forall>c. pw_next (ps_w s) \<le> c \<longrightarrow> ((pw_chans (ps_w s))(ch := Some path)) c = None"
    using i chn by auto
  ultimately show ?thesis using i unfolding path_inv_def by (simp add: w del: fun_upd_apply)
qed

lemma path_inv_park:
  assumes inv: "path_inv s" and park: "pw_park (ps_w s) = (ch, w)"
  shows "path_inv (s\<lparr>ps_w := w, ps_pc := pc\<rparr>)"
proof -
  have w: "w = (ps_w s)\<lparr>pw_waiters := pw_waiters (ps_w s) @ [pw_next (ps_w s)], pw_next := Suc (pw_next (ps_w s))\<rparr>"
    using park by (auto simp: pw_park_def)
  have p: "pending (s\<lparr>ps_w := w, ps_pc := pc\<rparr>) q = pending s q" for q by (simp add: pending_def)
  note i = inv[unfolded path_inv_def]
  have "pw_next (ps_w s) \<notin> set (pw_waiters (ps_w s))" "\<And>q. pw_next (ps_w s) \<notin> set (pending s q)"
    using i less_irrefl by blast+
  then show ?thesis using i unfolding path_inv_def p by (auto simp: w less_SucI)
qed

lemma path_inv_step: "path_inv s \<Longrightarrow> path_step s s' \<Longrightarrow> path_inv s'"
proof -
  assume inv: "path_inv s" and "path_step s s'"
  from this(2) show "path_inv s'"
  proof (cases rule: path_step.cases)
    case (WaitUnlist t ch)
    then show ?thesis using inv
      by (auto simp: path_inv_def pending_def pw_remove_def dest: notin_set_remove1)
  qed (simp_all add: inv path_inv_clear path_inv_pc path_inv_take path_inv_send path_inv_park)
qed

interpretation clip_waiters: invariant_system path_init path_step path_inv
  by unfold_locales (rule path_inv_init path_inv_step; assumption)+

section \<open>The single-flight slot\<close>

text \<open>\<open>tryAcquire\<close> and \<open>release\<close> on the capacity-one channel: whether it holds a token.\<close>

definition tryAcquire :: "bool \<Rightarrow> bool \<times> bool" where
  "tryAcquire full = (if full then (False, full) else (True, True))"

definition release :: "bool \<Rightarrow> bool" where
  "release full = (if full then False else full)"

record flight =
  fl_slot :: bool
  fl_holding :: "nat \<Rightarrow> bool"

definition flight_init :: "flight \<Rightarrow> bool" where
  "flight_init s \<longleftrightarrow> s = \<lparr>fl_slot = False, fl_holding = (\<lambda>h. False)\<rparr>"

text \<open>A handler that gets the slot holds it until its deferred release; one that does not
  answers 503.\<close>

inductive flight_step :: "flight \<Rightarrow> flight \<Rightarrow> bool" where
  Acquire: "\<not> fl_holding s h \<Longrightarrow> tryAcquire (fl_slot s) = (True, full) \<Longrightarrow>
     flight_step s (s\<lparr>fl_slot := full, fl_holding := (fl_holding s)(h := True)\<rparr>)"
| Busy: "\<not> fl_holding s h \<Longrightarrow> tryAcquire (fl_slot s) = (False, full) \<Longrightarrow>
     flight_step s (s\<lparr>fl_slot := full\<rparr>)"
| Finish: "fl_holding s h \<Longrightarrow>
     flight_step s (s\<lparr>fl_slot := release (fl_slot s), fl_holding := (fl_holding s)(h := False)\<rparr>)"

definition flight_inv :: "flight \<Rightarrow> bool" where
  "flight_inv s \<longleftrightarrow> (\<forall>g h. fl_holding s g \<longrightarrow> fl_holding s h \<longrightarrow> g = h) \<and> (fl_slot s \<longleftrightarrow> (\<exists>h. fl_holding s h))"

lemma flight_inv_step:
  assumes "flight_inv s" and "flight_step s s'"
  shows "flight_inv s'"
  using assms(2,1)
  by (cases rule: flight_step.cases) (auto simp: flight_inv_def tryAcquire_def release_def split: if_splits)

interpretation single_flight: invariant_system flight_init flight_step flight_inv
  by unfold_locales (simp add: flight_init_def flight_inv_def, rule flight_inv_step)

section \<open>Properties\<close>

text \<open>C4. The agent FIFO loses and duplicates nothing, whatever the interleaving of enqueues,
  receives, timeouts and the lost-wakeup guard: in every reachable state the items enqueued so far
  are, in order, a delivered-or-buffered prefix followed by the queue; each buffered item sits in
  the channel of a caller that has not returned yet; and no waiter is parked while an item
  is queued.\<close>

theorem agent_fifo_exactly_once:
  assumes "reachable fifo_init fifo_step s"
  shows "(\<exists>h. sys_sent s = h @ queue (sys_fifo s) \<and>
            mset h = mset (sys_got s) + mset (chan_list (chans (sys_fifo s)) (next_chan (sys_fifo s)))) \<and>
         (\<forall>c. chans (sys_fifo s) c \<noteq> None \<longrightarrow> (\<exists>!t. holds (sys_pc s t) = Some c)) \<and>
         (waiters (sys_fifo s) = [] \<or> queue (sys_fifo s) = []) \<and>
         ((\<forall>t. holds (sys_pc s t) = None) \<longrightarrow> mset (sys_sent s) = mset (sys_got s) + mset (queue (sys_fifo s)))"
proof -
  have inv: "fifo_inv s" using agent_fifo.inv_reachable[OF assms] .
  then have ow: "owned (sys_fifo s) (sys_pc s)" and fl: "flow (sys_fifo s) (sys_sent s) (sys_got s)"
    by (simp_all add: fifo_inv_def)
  have own: "\<exists>!t. holds (sys_pc s t) = Some c" if "chans (sys_fifo s) c \<noteq> None" for c
    using that ownedD(1)[OF ow, of c] ownedD(3)[OF ow] by (auto simp: live_chan_def)
  moreover have "mset (sys_sent s) = mset (sys_got s) + mset (queue (sys_fifo s))"
    if idle: "\<forall>t. holds (sys_pc s t) = None"
  proof -
    have "chan_list (chans (sys_fifo s)) (next_chan (sys_fifo s)) = []"
      by (rule chan_list_empty) (metis ex1_implies_ex idle option.distinct(1) own)
    then show ?thesis using fl by (auto simp: flow_def)
  qed
  ultimately show ?thesis using inv by (auto simp: fifo_inv_def flow_def fifo_ok_def)
qed

definition fifo_run0 :: "string fifo_sys" where
  "fifo_run0 = \<lparr>sys_fifo = fifo_empty, sys_pc = (\<lambda>t. Idle), sys_sent = [], sys_got = []\<rparr>"

theorem agent_fifo_exactly_once_witness:
  "sys_sent (fifo_run0\<lparr>sys_fifo := enqueue [''a''] fifo_empty, sys_sent := [''a'']\<rparr>) = [''a''] \<and>
   waiters (enqueue [''a''] fifo_empty) = [] \<and>
   (\<exists>h. [''a''] = h @ queue (enqueue [''a''] fifo_empty))"
proof -
  let ?s = "fifo_run0\<lparr>sys_fifo := enqueue [''a''] fifo_empty, sys_sent := [''a'']\<rparr>"
  have i: "fifo_init fifo_run0" by (simp add: fifo_init_def fifo_run0_def)
  have "fifo_step fifo_run0 ?s" using fifo_step.Enqueue[of fifo_run0 "[''a'']"] by (simp add: fifo_run0_def)
  with reach_init[of fifo_init fifo_run0 fifo_step, OF i] have "reachable fifo_init fifo_step ?s" by (rule reach_step)
  from agent_fifo_exactly_once[OF this] show ?thesis
    by (auto simp: enqueue_def fifo_empty_def)
qed

text \<open>Publishing a path never blocks the save that publishes it: in every reachable state,
  the next send of a \<open>resume\<close> in progress finds its channel empty.\<close>

lemma resume_never_blocks:
  assumes "reachable path_init path_step s" and "ps_resume s r = (path, ch # chs)"
  shows "\<exists>w. pw_send path ch (ps_w s) = Some w"
proof -
  have "ch \<in> set (pending s r)" using assms(2) by (simp add: pending_def)
  then have "pw_chans (ps_w s) ch = None"
    using clip_waiters.inv_reachable[OF assms(1)] by (auto simp: path_inv_def)
  then show ?thesis by (simp add: pw_send_def)
qed

text \<open>The runs below start with one caller parked and one \<open>resume\<close> that has taken the list.\<close>

definition path_run :: "string pc \<Rightarrow> string option \<Rightarrow> nat list \<Rightarrow> path_sys" where
  "path_run p buf todo =
     \<lparr>ps_w = \<lparr>pw_waiters = [], pw_chans = (\<lambda>c. None)(0 := buf), pw_next = 1\<rparr>,
      ps_pc = (\<lambda>t. Idle)(0 := p), ps_resume = (\<lambda>r. ([], []))(0 := (''/p'', todo))\<rparr>"

lemma path_run_taken: "reachable path_init path_step (path_run (Parked 0) None [0])"
proof -
  let ?s0 = "\<lparr>ps_w = \<lparr>pw_waiters = [], pw_chans = (\<lambda>c. None), pw_next = 0\<rparr>,
     ps_pc = (\<lambda>t. Idle), ps_resume = (\<lambda>r. ([], []))\<rparr> :: path_sys"
  let ?s1 = "\<lparr>ps_w = \<lparr>pw_waiters = [0], pw_chans = (\<lambda>c. None), pw_next = 1\<rparr>,
     ps_pc = (\<lambda>t. Idle)(0 := Parked 0), ps_resume = (\<lambda>r. ([], []))\<rparr> :: path_sys"
  have "reachable path_init path_step ?s0" by (rule reach_init) (simp add: path_init_def)
  moreover have "path_step ?s0 ?s1"
    using path_step.WaitPark[of ?s0 0 0 "\<lparr>pw_waiters = [0], pw_chans = (\<lambda>c. None), pw_next = 1\<rparr>"]
    by (simp add: pw_park_def)
  moreover have "path_step ?s1 (path_run (Parked 0) None [0])"
    using path_step.ResumeTake[of ?s1 0 "[0]" "\<lparr>pw_waiters = [], pw_chans = (\<lambda>c. None), pw_next = 1\<rparr>" "''/p''"]
    by (simp add: pw_take_def path_run_def fun_upd_idem)
  ultimately show ?thesis by (blast intro: reach_step)
qed

lemma resume_never_blocks_witness:
  "\<exists>w. pw_send ''/p'' 0 (ps_w (path_run (Parked 0) None [0])) = Some w"
  using resume_never_blocks[OF path_run_taken, of 0 "''/p''" 0 "[]"] by (simp add: path_run_def)

text \<open>A caller of \<open>WaitForNext\<close> can time out although a path was published while it was
  parked: \<open>resume\<close> sends outside the lock, so a deadline that fires between taking the list and
  the send finds the channel still empty, and the path is then left in a channel nobody reads.\<close>

lemma wait_can_lose_a_wakeup:
  "\<exists>s path. reachable path_init path_step s \<and> ps_pc s 0 = Returned None \<and>
     pw_chans (ps_w s) 0 = Some path \<and> (\<forall>t. holds (ps_pc s t) \<noteq> Some 0)"
proof -
  have "path_step (path_run (Parked 0) None [0]) (path_run (Expired 0) None [0])"
    using path_step.WaitCtxDone[of "path_run (Parked 0) None [0]" 0 0] by (simp add: path_run_def)
  moreover have "path_step (path_run (Expired 0) None [0]) (path_run (Unlisted 0) None [0])"
    using path_step.WaitUnlist[of "path_run (Expired 0) None [0]" 0 0] by (simp add: path_run_def pw_remove_def)
  moreover have "path_step (path_run (Unlisted 0) None [0]) (path_run (Returned None) None [0])"
    using path_step.WaitDrain[of "path_run (Unlisted 0) None [0]" 0 0 None]
    by (simp add: path_run_def pw_poll_def)
  moreover have "path_step (path_run (Returned None) None [0]) (path_run (Returned None) (Some ''/p'') [])"
    using path_step.ResumeSend[of "path_run (Returned None) None [0]" 0 "''/p''" 0 "[]"]
    by (simp add: path_run_def pw_send_def)
  ultimately have "reachable path_init path_step (path_run (Returned None) (Some ''/p'') [])"
    using path_run_taken by (meson reach_step)
  then show ?thesis
    by (intro exI[of _ "path_run (Returned None) (Some ''/p'') []"] exI[of _ "''/p''"]) (auto simp: path_run_def)
qed

text \<open>At most one \<open>/clip\<close> transfer is in progress, and the slot never wedges: it is taken
  precisely while some handler that acquired it has not released it.\<close>

lemma single_flight_exclusive:
  assumes "reachable flight_init flight_step s"
  shows "(\<forall>g h. fl_holding s g \<and> fl_holding s h \<longrightarrow> g = h) \<and>
         (fst (tryAcquire (fl_slot s)) \<longleftrightarrow> (\<forall>h. \<not> fl_holding s h))"
  using single_flight.inv_reachable[OF assms] by (auto simp: flight_inv_def tryAcquire_def)

lemma single_flight_exclusive_witness:
  "\<not> fst (tryAcquire (fl_slot \<lparr>fl_slot = True, fl_holding = (\<lambda>h. h = 7)\<rparr>))"
proof -
  let ?s0 = "\<lparr>fl_slot = False, fl_holding = (\<lambda>h. False)\<rparr>"
  let ?s1 = "\<lparr>fl_slot = True, fl_holding = (\<lambda>h. h = (7::nat))\<rparr>"
  have i: "flight_init ?s0" by (simp add: flight_init_def)
  have "((\<lambda>h. False)(7 := True)) = (\<lambda>h. h = (7::nat))" by (rule ext) simp
  then have "flight_step ?s0 ?s1" using flight_step.Acquire[of ?s0 7 True] by (simp add: tryAcquire_def)
  with reach_init[of flight_init ?s0 flight_step, OF i] have "reachable flight_init flight_step ?s1" by (rule reach_step)
  from single_flight_exclusive[OF this] show ?thesis by auto
qed

end
