(* ===== verification/Store.thy ===== *)
theory Store
  imports Journal Sanitize Waiters
begin

text \<open>
  The concrete receive store (\<open>concrete.go\<close>, \<open>recents.go\<close>): the disk-save pipeline, the
  clipboard channel (last path, recents, path waiters) and the agent channel (FIFO, journal).
  The store's state is a record with the files it works on; each operation takes the
  environment of the calls it makes (clock, symlinks, racing processes, failing writes). The
  sanitizer is the injected interface: the save pipeline is verified against its contract.
\<close>

section \<open>The save pipeline\<close>

record save_env =
  sv_lstat_fails :: "string \<Rightarrow> bool"
  sv_race1 :: "fs \<Rightarrow> fs"
  sv_reserve1 :: bool
  sv_race2 :: "fs \<Rightarrow> fs"
  sv_reserve2 :: bool
  sv_write :: write_env

definition exists_file :: "save_env \<Rightarrow> fs \<Rightarrow> string \<Rightarrow> bool" where
  "exists_file env fs p \<longleftrightarrow> map_of fs p \<noteq> None \<and> \<not> sv_lstat_fails env p"

text \<open>The probe loop of \<open>uniqueLeaf\<close> has no bound: a candidate name, or \<open>None\<close> if it never ends.\<close>

partial_function (option) unique_from :: "(string \<Rightarrow> bool) \<Rightarrow> string \<Rightarrow> string \<Rightarrow> int \<Rightarrow> string option" where
  "unique_from ex dir leaf n =
     (if \<not> ex (path_join dir (CollisionName leaf n)) then Some (CollisionName leaf n)
      else unique_from ex dir leaf (n + 1))"

definition uniqueLeaf :: "(string \<Rightarrow> bool) \<Rightarrow> string \<Rightarrow> string \<Rightarrow> string option" where
  "uniqueLeaf ex dir leaf =
     (if \<not> ex (path_join dir leaf) then Some leaf else unique_from ex dir leaf 2)"

text \<open>The exclusive create of the placeholder.\<close>

definition reserve :: "bool \<Rightarrow> fs \<Rightarrow> string \<Rightarrow> fs option" where
  "reserve open_ok fs dest =
     (if open_ok \<and> map_of fs dest = None then Some (fs_put dest (FBytes []) fs) else None)"

definition write_reserved ::
  "save_env \<Rightarrow> fs \<Rightarrow> string \<Rightarrow> source \<Rightarrow> (store_error, string \<times> int) result \<times> fs" where
  "write_reserved env fs dest r =
     (case writeAtomicFsync (sv_write env) fs dest r of
        (Inl e, fs') \<Rightarrow> (Inl e, fs_remove dest fs')
      | (Inr written, fs') \<Rightarrow> (Inr (dest, written), fs'))"

definition saveStream ::
  "(string \<Rightarrow> string \<Rightarrow> string \<Rightarrow> string \<Rightarrow> (path_error, string) result) \<Rightarrow> save_env \<Rightarrow> fs \<Rightarrow>
   string \<Rightarrow> string \<Rightarrow> string \<Rightarrow> string \<Rightarrow> source \<Rightarrow> ((store_error, string \<times> int) result \<times> fs) option" where
  "saveStream san env fs dir name kind uti r =
     (case san name kind uti dir of
        Inl _ \<Rightarrow> Some (Inl StEscape, fs)
      | Inr leaf \<Rightarrow>
          Option.bind (uniqueLeaf (exists_file env fs) dir leaf) (\<lambda>final.
            let dest = path_join dir final; fs1 = sv_race1 env fs in
            case reserve (sv_reserve1 env) fs1 dest of
              Some fs2 \<Rightarrow> Some (write_reserved env fs2 dest r)
            | None \<Rightarrow>
                Option.bind (uniqueLeaf (exists_file env fs1) dir leaf) (\<lambda>final2.
                  let dest2 = path_join dir final2; fs3 = sv_race2 env fs1;
                      fs4 = (case reserve (sv_reserve2 env) fs3 dest2 of Some fs' \<Rightarrow> fs' | None \<Rightarrow> fs3)
                  in Some (write_reserved env fs4 dest2 r))))"

text \<open>The search ends: the candidates are pairwise different and only finitely many names exist.\<close>

lemma unique_from_ends:
  assumes fin: "finite {p. ex p}" and inj: "\<And>i j. 2 \<le> i \<Longrightarrow> 2 \<le> j \<Longrightarrow> path_join dir (CollisionName leaf i) = path_join dir (CollisionName leaf j) \<Longrightarrow> i = j"
    and n: "2 \<le> n"
  shows "\<exists>m\<ge>n. unique_from ex dir leaf n = Some (CollisionName leaf m) \<and> \<not> ex (path_join dir (CollisionName leaf m)) \<and>
           (\<forall>i. n \<le> i \<and> i < m \<longrightarrow> ex (path_join dir (CollisionName leaf i)))"
proof -
  let ?c = "\<lambda>i. path_join dir (CollisionName leaf i)"
  have "\<exists>k. \<not> ex (?c (n + int k))"
  proof (rule ccontr)
    assume "\<nexists>k. \<not> ex (?c (n + int k))"
    then have "range (\<lambda>k. ?c (n + int k)) \<subseteq> {p. ex p}" by auto
    moreover have "inj (\<lambda>k. ?c (n + int k))" using inj n by (intro injI) (metis add_increasing2 add_left_cancel of_nat_0_le_iff of_nat_eq_iff)
    ultimately show False using fin finite_imageD finite_subset infinite_UNIV_nat by blast
  qed
  then obtain k where k: "\<not> ex (?c (n + int k))" and least: "\<forall>j<k. ex (?c (n + int j))"
    using exists_least_iff[of "\<lambda>k. \<not> ex (?c (n + int k))"] by auto
  have "unique_from ex dir leaf (n + int (k - i)) = Some (CollisionName leaf (n + int k))" if "i \<le> k" for i
    using that
  proof (induction i)
    case 0
    then show ?case using k by (subst unique_from.simps) simp
  next
    case (Suc i)
    then have e: "n + int (k - Suc i) + 1 = n + int (k - i)" by simp
    have "ex (?c (n + int (k - Suc i)))" by (rule least[rule_format]) (use Suc.prems in simp)
    then have "unique_from ex dir leaf (n + int (k - Suc i)) = unique_from ex dir leaf (n + int (k - Suc i) + 1)"
      by (subst unique_from.simps) (simp only: not_True_eq_False if_False)
    then show ?case using Suc by (simp only: e Suc_leD)
  qed
  from this[of k] have "unique_from ex dir leaf n = Some (CollisionName leaf (n + int k))" by simp
  moreover have "ex (?c i)" if "n \<le> i" "i < n + int k" for i
    using least[rule_format, of "nat (i - n)"] that by simp
  ultimately show ?thesis using k by (intro exI[of _ "n + int k"]) auto
qed

definition candidate :: "string \<Rightarrow> string \<Rightarrow> bool" where
  "candidate leaf name \<longleftrightarrow> name = leaf \<or> (\<exists>n\<ge>2. name = CollisionName leaf n)"

lemma candidate_leaf: "leaf_elem leaf \<Longrightarrow> candidate leaf name \<Longrightarrow> leaf_elem name"
  using CollisionName_elem by (auto simp: candidate_def)

lemma CollisionName_hd: "leaf_elem leaf \<Longrightarrow> hd (CollisionName leaf n) = hd leaf"
proof -
  assume l: "leaf_elem leaf"
  then have s: "slash \<notin> set leaf" "leaf \<noteq> []" by (auto simp: leaf_elem_def)
  have "hd (DeletingPathExtension leaf) = hd leaf"
  proof (cases "PathExtension leaf = []")
    case False
    from extension_split[OF s False] show ?thesis by (metis hd_append2)
  qed (simp add: no_extension)
  then show ?thesis using stem_parts_no_slash[OF s] by (simp add: CollisionName_def Let_def)
qed

lemma uniqueLeaf_free:
  assumes "leaf_elem leaf" and "dir_ok dir" and "finite {p. ex p}"
  shows "\<exists>name. uniqueLeaf ex dir leaf = Some name \<and> candidate leaf name \<and> \<not> ex (path_join dir name)"
proof (cases "ex (path_join dir leaf)")
  case True
  have "\<And>i j. 2 \<le> i \<Longrightarrow> 2 \<le> j \<Longrightarrow> path_join dir (CollisionName leaf i) = path_join dir (CollisionName leaf j) \<Longrightarrow> i = j"
    using dir_ok_inj[OF assms(2)] CollisionName_elem[OF assms(1)] CollisionName_inj by simp
  then obtain m where "2 \<le> m" "unique_from ex dir leaf 2 = Some (CollisionName leaf m)"
    "\<not> ex (path_join dir (CollisionName leaf m))"
    using unique_from_ends[OF assms(3), of dir leaf 2] by blast
  then show ?thesis using True unfolding uniqueLeaf_def candidate_def by auto
qed (simp add: uniqueLeaf_def candidate_def)

lemma finite_exists: "finite {p. exists_file env fs p}"
  by (rule finite_subset[OF _ finite_files[of fs]]) (auto simp: exists_file_def)

definition calm :: "save_env \<Rightarrow> bool" where
  "calm env \<longleftrightarrow> (\<forall>p. \<not> sv_lstat_fails env p) \<and> (\<forall>fs. sv_race2 env fs = fs) \<and> hex_ok (sv_write env)"

definition temp_free :: "write_env \<Rightarrow> fs \<Rightarrow> string \<Rightarrow> bool" where
  "temp_free env fs dir \<longleftrightarrow> map_of fs (path_join dir (''.clipbeam-tmp-'' @ we_hex env)) = None"

lemma temp_path_dir:
  assumes "dir_ok dir" and "leaf_elem name" and "hex_ok env"
  shows "temp_path env (path_join dir name) = path_join dir (''.clipbeam-tmp-'' @ we_hex env)"
proof -
  have "leaf_elem (''.clipbeam-tmp-'' @ we_hex env)" using assms(3) by (simp add: leaf_elem_def hex_ok_def)
  moreover obtain es where "\<forall>e\<in>set es. leaf_elem e" "dir = abs_dir es" using assms(1) by (auto simp: dir_ok_def)
  ultimately show ?thesis using assms temp_path_abs by (simp add: path_join_abs_dir)
qed

lemma write_reserved_effect:
  assumes dir: "dir_ok dir" and name: "leaf_elem name" "hd name \<noteq> CHR ''.''" and hex: "hex_ok (sv_write env)"
    and free: "temp_free (sv_write env) fs dir" and fs: "map_of fs (path_join dir name) = None"
    and placed: "fs1 = fs \<or> fs1 = fs_put (path_join dir name) (FBytes []) fs"
    and run: "write_reserved env fs1 (path_join dir name) r = (res, fs')"
  shows "case res of
      Inl e \<Rightarrow> map_of fs' = map_of fs
    | Inr (p, n) \<Rightarrow> p = path_join dir name \<and> n = int (length (src_data r)) \<and> \<not> src_fails r \<and>
        map_of fs' = (map_of fs)(p \<mapsto> FBytes (src_data r))"
proof -
  let ?dest = "path_join dir name" and ?tmp = "path_join dir (''.clipbeam-tmp-'' @ we_hex (sv_write env))"
  have te: "leaf_elem (''.clipbeam-tmp-'' @ we_hex (sv_write env))" using hex by (simp add: leaf_elem_def hex_ok_def)
  have ne: "?tmp \<noteq> ?dest" using dir_ok_inj[OF dir te name(1)] name(2) by auto
  have t: "temp_path (sv_write env) ?dest = ?tmp" by (rule temp_path_dir[OF dir name(1) hex])
  have tf: "map_of fs1 (temp_path (sv_write env) ?dest) = None"
    using placed free ne unfolding t temp_free_def by auto
  obtain w fs2 where w: "writeAtomicFsync (sv_write env) fs1 ?dest r = (w, fs2)" by fastforce
  show ?thesis
  proof (cases w)
    case (Inl e)
    from writeAtomicFsync_fail[OF tf w[unfolded Inl]] have "map_of fs2 = map_of fs1" .
    then show ?thesis using run w Inl placed fs
      by (auto simp: write_reserved_def fun_upd_idem)
  next
    case (Inr n)
    from writeAtomicFsync_ok[OF tf _ w[unfolded Inr]] ne
    have "n = int (length (src_data r))" "\<not> src_fails r" "map_of fs2 = (map_of fs1)(?dest \<mapsto> FBytes (src_data r))"
      unfolding t by auto
    then show ?thesis using run w Inr placed by (auto simp: write_reserved_def)
  qed
qed

context sanitizer begin

lemma leaf_candidates:
  assumes "safe_leaf name kind uti dir = Inr leaf" and "candidate leaf fin"
  shows "leaf_elem fin \<and> hd fin \<noteq> CHR ''.''"
  using assms safe_elem[OF assms(1)] safe_visible[OF assms(1)] candidate_leaf CollisionName_hd
  by (auto simp: candidate_def)

text \<open>A save either puts the payload under a fresh direct child of the directory, even when
  another process takes the probed name before the placeholder is created, or leaves the files as
  they were.\<close>

lemma saveStream_spec:
  assumes dir: "dir_ok dir" and calm: "calm env" and free: "temp_free (sv_write env) (sv_race1 env fs) dir"
  shows "\<exists>res fs'. saveStream safe_leaf env fs dir name kind uti r = Some (res, fs') \<and>
    (case res of
       Inl e \<Rightarrow> map_of fs' = map_of fs \<or> map_of fs' = map_of (sv_race1 env fs)
     | Inr (p, n) \<Rightarrow> map_of (sv_race1 env fs) p = None \<and> map_of fs' = (map_of (sv_race1 env fs))(p \<mapsto> FBytes (src_data r)) \<and>
         n = int (length (src_data r)) \<and> \<not> src_fails r \<and>
         (\<exists>leaf. leaf_elem leaf \<and> hd leaf \<noteq> CHR ''.'' \<and> p = path_join dir leaf)) \<and>
    (\<not> isl (safe_leaf name kind uti dir) \<and> we_fault (sv_write env) = WriteOk \<and> \<not> src_fails r \<longrightarrow> \<not> isl res)"
proof (cases "safe_leaf name kind uti dir")
  case (Inl e)
  then show ?thesis by (simp add: saveStream_def)
next
  case (Inr leaf)
  note el = safe_elem[OF Inr]
  note c = calm[unfolded calm_def]
  let ?fs1 = "sv_race1 env fs"
  obtain fin where fin: "uniqueLeaf (exists_file env fs) dir leaf = Some fin" "candidate leaf fin"
    using uniqueLeaf_free[OF el dir finite_exists] by blast
  obtain fin2 where fin2: "uniqueLeaf (exists_file env ?fs1) dir leaf = Some fin2" "candidate leaf fin2"
    and new2: "\<not> exists_file env ?fs1 (path_join dir fin2)"
    using uniqueLeaf_free[OF el dir finite_exists] by blast
  have hex: "hex_ok (sv_write env)" using c by blast
  obtain g where g: "candidate leaf g" "map_of ?fs1 (path_join dir g) = None"
    and s: "\<exists>fs2. saveStream safe_leaf env fs dir name kind uti r = Some (write_reserved env fs2 (path_join dir g) r)
      \<and> (fs2 = ?fs1 \<or> fs2 = fs_put (path_join dir g) (FBytes []) ?fs1)"
  proof (cases "reserve (sv_reserve1 env) ?fs1 (path_join dir fin)")
    case (Some fs2)
    then have "map_of ?fs1 (path_join dir fin) = None" "fs2 = fs_put (path_join dir fin) (FBytes []) ?fs1"
      by (auto simp: reserve_def split: if_splits)
    then show thesis using that[of fin] fin Some by (auto simp: saveStream_def Inr Let_def)
  next
    case None
    have "map_of ?fs1 (path_join dir fin2) = None" using new2 c by (simp add: exists_file_def)
    let ?fs2 = "case reserve (sv_reserve2 env) ?fs1 (path_join dir fin2) of Some fs' \<Rightarrow> fs' | None \<Rightarrow> ?fs1"
    have "saveStream safe_leaf env fs dir name kind uti r = Some (write_reserved env ?fs2 (path_join dir fin2) r)"
      using fin(1) fin2(1) None c by (simp add: saveStream_def Inr Let_def)
    moreover have "?fs2 = ?fs1 \<or> ?fs2 = fs_put (path_join dir fin2) (FBytes []) ?fs1" by (simp add: reserve_def)
    ultimately show thesis using that[of fin2] fin2(2) \<open>map_of ?fs1 (path_join dir fin2) = None\<close> by blast
  qed
  then obtain fs2 where fs2: "saveStream safe_leaf env fs dir name kind uti r = Some (write_reserved env fs2 (path_join dir g) r)"
    and p: "fs2 = ?fs1 \<or> fs2 = fs_put (path_join dir g) (FBytes []) ?fs1" by blast
  obtain res fs' where w: "write_reserved env fs2 (path_join dir g) r = (res, fs')" by fastforce
  have ge: "leaf_elem g" "hd g \<noteq> CHR ''.''" using leaf_candidates[OF Inr g(1)] by auto
  have "\<not> isl res" if "we_fault (sv_write env) = WriteOk" "\<not> src_fails r"
    using w that by (auto simp: write_reserved_def writeAtomicFsync_def Let_def)
  then show ?thesis
    using write_reserved_effect[OF dir ge hex free g(2) p w] unfolding fs2 w using g(2) ge by (cases res) auto
qed

end

section \<open>The store\<close>

record store_config =
  cfg_SaveDir :: string
  cfg_AgentInboxDir :: string
  cfg_LastPathFile :: string
  cfg_RecentsFile :: string
  cfg_SaveTextToDisk :: bool
  cfg_LongTextThreshold :: int
  cfg_MaxBytes :: int
  cfg_JournalAgentItems :: bool

record store =
  rs_cfg :: store_config
  rs_fs :: fs
  rs_lastPath :: string
  rs_agent :: "agent_item fifo"
  rs_wait :: path_waiters

text \<open>Reading a small file as bytes; the JSON files are read by their own readers only.\<close>

definition read_bytes :: "fs \<Rightarrow> string \<Rightarrow> string option" where
  "read_bytes fs p = (case map_of fs p of Some (FBytes b) \<Rightarrow> Some b | _ \<Rightarrow> None)"

definition loadLastPath :: "fs \<Rightarrow> string \<Rightarrow> string" where
  "loadLastPath fs p =
     (if p = [] then []
      else (case read_bytes fs p of None \<Rightarrow> [] | Some b \<Rightarrow> trim_right_cutset b [newline]))"

definition ReadLastPath :: "fs \<Rightarrow> string \<Rightarrow> string option" where
  "ReadLastPath fs p = (let q = loadLastPath fs p in if q = [] then None else Some q)"

definition newConcrete :: "store_config \<Rightarrow> fs \<Rightarrow> store" where
  "newConcrete cfg fs =
     \<lparr>rs_cfg = cfg, rs_fs = fs, rs_lastPath = loadLastPath fs (cfg_LastPathFile cfg),
      rs_agent = fifo_empty, rs_wait = \<lparr>pw_waiters = [], pw_chans = (\<lambda>c. None), pw_next = 0\<rparr>\<rparr>"

definition LastPath :: "store \<Rightarrow> string option" where
  "LastPath st = (if rs_lastPath st = [] then None else Some (rs_lastPath st))"

type_synonym san = "string \<Rightarrow> string \<Rightarrow> string \<Rightarrow> string \<Rightarrow> (path_error, string) result"

definition with_fs :: "store \<Rightarrow> ('r \<times> fs) option \<Rightarrow> ('r \<times> store) option" where
  "with_fs st = map_option (\<lambda>(res, fs). (res, st\<lparr>rs_fs := fs\<rparr>))"

definition SaveClipboardItem ::
  "san \<Rightarrow> save_env \<Rightarrow> store \<Rightarrow> string \<Rightarrow> string \<Rightarrow> string \<Rightarrow> source \<Rightarrow>
   ((store_error, string \<times> int) result \<times> store) option" where
  "SaveClipboardItem san env st name kind uti r =
     with_fs st (saveStream san env (rs_fs st) (cfg_SaveDir (rs_cfg st)) name kind uti r)"

definition SaveClipboardText ::
  "san \<Rightarrow> save_env \<Rightarrow> utc_time \<Rightarrow> store \<Rightarrow> string \<Rightarrow> ((store_error, string \<times> bool \<times> int) result \<times> store) option" where
  "SaveClipboardText san env now st text =
     (if \<not> cfg_SaveTextToDisk (rs_cfg st) \<and> int (length text) \<le> cfg_LongTextThreshold (rs_cfg st)
      then Some (Inr ([], False, 0), st)
      else map_option (\<lambda>(res, st'). (bind_result res (\<lambda>(p, n). Inr (p, True, n)), st'))
        (with_fs st (saveStream san env (rs_fs st) (cfg_SaveDir (rs_cfg st)) (TextFileName now) KindFile
           ''public.plain-text'' \<lparr>src_data = text, src_fails = False\<rparr>)))"

subsection \<open>Recents\<close>

definition recentsCap :: nat where
  "recentsCap = 20"

definition loadRecents :: "fs \<Rightarrow> string \<Rightarrow> recent list" where
  "loadRecents fs p = (case map_of fs p of Some (FRecents rs) \<Rightarrow> rs | _ \<Rightarrow> [])"

text \<open>An entry as it is read back: its strings are valid UTF-8.\<close>

definition stored_recent :: "recent \<Rightarrow> recent" where
  "stored_recent r = r\<lparr>rc_path := utf8_coerce (rc_path r), rc_sender := utf8_coerce (rc_sender r)\<rparr>"

definition appendRecents :: "write_env \<Rightarrow> nat \<Rightarrow> fs \<Rightarrow> string \<Rightarrow> string list \<Rightarrow> string \<Rightarrow> fs" where
  "appendRecents env now fs recentsFile paths sender =
     (if paths = [] then fs
      else
        let recents = loadRecents fs recentsFile @ map (\<lambda>p. \<lparr>rc_path = p, rc_sender = sender, rc_time = now\<rparr>) paths;
            kept = (if recentsCap < length recents then drop (length recents - recentsCap) recents else recents)
        in snd (writeBytesAtomic env fs recentsFile
             (FRecents (map stored_recent kept))))"

subsection \<open>Committing a clipboard receive\<close>

text \<open>\<open>resume\<close> run to its end: the sends in order. A send never finds its channel full.\<close>

definition pw_resume :: "string \<Rightarrow> path_waiters \<Rightarrow> path_waiters" where
  "pw_resume path w =
     (let (parked, w0) = pw_take w
      in fold (\<lambda>ch v. case pw_send path ch v of Some v' \<Rightarrow> v' | None \<Rightarrow> v) parked w0)"

definition FinishClipboard ::
  "write_env \<Rightarrow> write_env \<Rightarrow> nat \<Rightarrow> store \<Rightarrow> string \<Rightarrow> string list \<Rightarrow> store" where
  "FinishClipboard lenv renv now st sender savedPaths =
     (if savedPaths = [] then st
      else
        let lst = last savedPaths;
            st1 = st\<lparr>rs_lastPath := lst\<rparr>;
            st2 = st1\<lparr>rs_fs := snd (writeBytesAtomic lenv (rs_fs st1) (cfg_LastPathFile (rs_cfg st1)) (FBytes lst))\<rparr>;
            st3 = st2\<lparr>rs_fs := appendRecents renv now (rs_fs st2) (cfg_RecentsFile (rs_cfg st2)) savedPaths sender\<rparr>
        in st3\<lparr>rs_wait := pw_resume lst (rs_wait st3)\<rparr>)"

subsection \<open>The agent channel\<close>

definition journal_item ::
  "journal_env \<Rightarrow> store \<Rightarrow> string \<Rightarrow> string \<Rightarrow> string \<Rightarrow> bool \<Rightarrow> string \<Rightarrow> (store_error, unit) result \<times> store" where
  "journal_item env st atype sender path hasText text =
     (if cfg_JournalAgentItems (rs_cfg st) then
        (let (res, fs) = writeAgentJournal env (rs_fs st) (cfg_AgentInboxDir (rs_cfg st)) atype sender path hasText text
         in (res, st\<lparr>rs_fs := fs\<rparr>))
      else (Inr (), st))"

definition SaveAgentItem ::
  "san \<Rightarrow> save_env \<Rightarrow> journal_env \<Rightarrow> store \<Rightarrow> string \<Rightarrow> string \<Rightarrow> string \<Rightarrow> string \<Rightarrow> source \<Rightarrow>
   ((store_error, string \<times> int) result \<times> store) option" where
  "SaveAgentItem san env jenv st sender name kind uti r =
     map_option (\<lambda>(res, st1).
       case res of
         Inl e \<Rightarrow> (Inl e, st1)
       | Inr (path, n) \<Rightarrow>
           let atype = (if kind = KindImage then ''image'' else ''file'');
               st2 = st1\<lparr>rs_agent := enqueue [\<lparr>ai_type = atype, ai_sender = sender, ai_path = Some path, ai_text = None\<rparr>]
                 (rs_agent st1)\<rparr>
           in (case journal_item jenv st2 atype sender path False [] of
                 (Inl e, st3) \<Rightarrow> (Inl e, st3)
               | (Inr _, st3) \<Rightarrow> (Inr (path, n), st3)))
       (with_fs st (saveStream san env (rs_fs st) (cfg_AgentInboxDir (rs_cfg st)) name kind uti r))"

definition EnqueueAgentText :: "journal_env \<Rightarrow> store \<Rightarrow> string \<Rightarrow> string \<Rightarrow> (store_error, unit) result \<times> store" where
  "EnqueueAgentText jenv st sender text =
     journal_item jenv
       (st\<lparr>rs_agent := enqueue [\<lparr>ai_type = ''text'', ai_sender = sender, ai_path = None, ai_text = Some text\<rparr>] (rs_agent st)\<rparr>)
       ''text'' sender [] True text"

text \<open>\<open>Recv\<close> that finds an item at once.\<close>

definition RecvNow :: "store \<Rightarrow> agent_item option \<times> store" where
  "RecvNow st =
     (case recv_begin (rs_agent st) of
        (Inl it, f) \<Rightarrow> (Some it, st\<lparr>rs_agent := f\<rparr>)
      | (Inr ch, f) \<Rightarrow> (None, st\<lparr>rs_agent := f\<rparr>))"

section \<open>Lemmas\<close>

lemma rev_take_rev: "drop (length xs - n) xs = rev (take n (rev xs))"
  by (simp add: rev_drop[symmetric] take_rev)

lemma loadRecents_put: "map_of fs' = (map_of fs)(p \<mapsto> FRecents rs) \<Longrightarrow> loadRecents fs' p = rs"
  by (simp add: loadRecents_def)

lemma trim_right_newline: "s = [] \<or> last s \<noteq> newline \<Longrightarrow> trim_right_cutset s [newline] = s"
  by (cases s rule: rev_cases) (auto simp: trim_right_cutset_def)

lemma pw_resume_send_all:
  assumes "distinct ws" and "\<forall>ch\<in>set ws. pw_chans w ch = None"
  shows "pw_chans (fold (\<lambda>ch v. case pw_send path ch v of Some v' \<Rightarrow> v' | None \<Rightarrow> v) ws w) =
    (\<lambda>ch. if ch \<in> set ws then Some path else pw_chans w ch)"
  using assms
proof (induction ws arbitrary: w)
  case (Cons ch ws)
  let ?w1 = "w\<lparr>pw_chans := (pw_chans w)(ch := Some path)\<rparr>"
  have "pw_send path ch w = Some ?w1" using Cons.prems by (simp add: pw_send_def)
  moreover have "\<forall>c\<in>set ws. pw_chans ?w1 c = None" using Cons.prems by auto
  ultimately show ?case using Cons.IH[of ?w1] Cons.prems by (auto simp: fun_eq_iff)
qed simp

text \<open>A write of a file of a proper directory with no failing step.\<close>

lemma write_file_ok:
  assumes "dir_ok dir" and "leaf_elem n" and "hd n \<noteq> CHR ''.''" and "hex_ok env" and "we_fault env = WriteOk"
    and "temp_free env fs dir"
  shows "map_of (snd (writeBytesAtomic env fs (path_join dir n) c)) = (map_of fs)(path_join dir n \<mapsto> c)"
proof -
  let ?t = "''.clipbeam-tmp-'' @ we_hex env"
  have te: "leaf_elem ?t" using assms(4) by (simp add: leaf_elem_def hex_ok_def)
  have t: "temp_path env (path_join dir n) = path_join dir ?t" by (rule temp_path_dir[OF assms(1,2,4)])
  have ne: "temp_path env (path_join dir n) \<noteq> path_join dir n"
    using dir_ok_inj[OF assms(1) te assms(2)] assms(3) unfolding t by auto
  have free: "map_of fs (temp_path env (path_join dir n)) = None"
    using assms(6) unfolding t temp_free_def .
  have "fst (writeBytesAtomic env fs (path_join dir n) c) = Inr ()"
    using assms(5) by (simp add: writeBytesAtomic_def Let_def)
  then have "writeBytesAtomic env fs (path_join dir n) c = (Inr (), snd (writeBytesAtomic env fs (path_join dir n) c))"
    by (metis prod.collapse)
  from writeBytesAtomic_ok[OF free ne this] show ?thesis .
qed

lemma temp_free_put:
  assumes "dir_ok dir" and "leaf_elem n" and "hd n \<noteq> CHR ''.''" and "hex_ok env"
    and "temp_free env fs dir" and "map_of fs' = (map_of fs)(path_join dir n \<mapsto> c)"
  shows "temp_free env fs' dir"
proof -
  let ?t = "''.clipbeam-tmp-'' @ we_hex env"
  have te: "leaf_elem ?t" using assms(4) by (simp add: leaf_elem_def hex_ok_def)
  have "path_join dir ?t \<noteq> path_join dir n" using dir_ok_inj[OF assms(1) te assms(2)] assms(3) by auto
  then show ?thesis using assms(5,6) by (simp add: temp_free_def)
qed

text \<open>Where the two state files live.\<close>

definition state_files :: "store_config \<Rightarrow> string \<Rightarrow> string \<Rightarrow> string \<Rightarrow> bool" where
  "state_files cfg dir ln rn \<longleftrightarrow> dir_ok dir \<and> leaf_elem ln \<and> leaf_elem rn \<and> ln \<noteq> rn \<and>
     hd ln \<noteq> CHR ''.'' \<and> hd rn \<noteq> CHR ''.'' \<and> cfg_LastPathFile cfg = path_join dir ln \<and> cfg_RecentsFile cfg = path_join dir rn"

definition write_ok :: "write_env \<Rightarrow> fs \<Rightarrow> string \<Rightarrow> bool" where
  "write_ok env fs dir \<longleftrightarrow> hex_ok env \<and> we_fault env = WriteOk \<and> temp_free env fs dir"

lemma finish_files:
  assumes sf: "state_files (rs_cfg st) dir ln rn" and l: "write_ok lenv (rs_fs st) dir" and r: "write_ok renv (rs_fs st) dir"
    and paths: "paths \<noteq> []"
    and entries: "entries = loadRecents (rs_fs st) (cfg_RecentsFile (rs_cfg st)) @
      map (\<lambda>p. \<lparr>rc_path = p, rc_sender = sender, rc_time = now\<rparr>) paths"
  shows "map_of (rs_fs (FinishClipboard lenv renv now st sender paths)) =
    (map_of (rs_fs st))(cfg_LastPathFile (rs_cfg st) \<mapsto> FBytes (last paths),
       cfg_RecentsFile (rs_cfg st) \<mapsto> FRecents (map stored_recent (drop (length entries - 20) entries)))"
proof -
  note s = sf[unfolded state_files_def] and lo = l[unfolded write_ok_def] and ro = r[unfolded write_ok_def]
  have "path_join dir ln \<noteq> path_join dir rn" using s dir_ok_inj by blast
  then have ne: "cfg_LastPathFile (rs_cfg st) \<noteq> cfg_RecentsFile (rs_cfg st)" using s by simp
  let ?fs2 = "snd (writeBytesAtomic lenv (rs_fs st) (cfg_LastPathFile (rs_cfg st)) (FBytes (last paths)))"
  have m2: "map_of ?fs2 = (map_of (rs_fs st))(cfg_LastPathFile (rs_cfg st) \<mapsto> FBytes (last paths))"
    using write_file_ok[of dir ln lenv "rs_fs st"] s lo by simp
  have tf: "temp_free renv ?fs2 dir"
    using temp_free_put[of dir ln renv "rs_fs st" ?fs2] s ro m2 by simp
  have lr: "loadRecents ?fs2 (cfg_RecentsFile (rs_cfg st)) = loadRecents (rs_fs st) (cfg_RecentsFile (rs_cfg st))"
    using ne by (simp add: loadRecents_def m2)
  have put: "map_of (snd (writeBytesAtomic renv ?fs2 (cfg_RecentsFile (rs_cfg st)) c)) =
      (map_of ?fs2)(cfg_RecentsFile (rs_cfg st) \<mapsto> c)" for c
    using write_file_ok[of dir rn renv ?fs2] s ro tf by simp
  have "map_of (appendRecents renv now ?fs2 (cfg_RecentsFile (rs_cfg st)) paths sender) =
    (map_of ?fs2)(cfg_RecentsFile (rs_cfg st) \<mapsto> FRecents (map stored_recent (drop (length entries - 20) entries)))"
    using put paths by (simp add: appendRecents_def Let_def lr entries recentsCap_def)
  then show ?thesis using paths m2 by (simp add: FinishClipboard_def Let_def)
qed

section \<open>Properties\<close>

text \<open>C5. Saves are atomic and never overwrite: with the production sanitizer, on a proper save
  directory, a save terminates and either puts exactly the payload under a name that was free (a
  direct child of the directory), even when another process takes the probed name in between, or
  leaves no trace, whichever step fails; it fails only when the sanitizer, the reader or a step of
  the write does.\<close>

theorem save_atomic_and_fresh:
  assumes "dir_ok dir" and "calm env" and "temp_free (sv_write env) (sv_race1 env fs) dir"
  shows "\<exists>res fs'. saveStream (SafeLeaf ev now) env fs dir name kind uti r = Some (res, fs') \<and>
    (case res of
       Inl e \<Rightarrow> map_of fs' = map_of fs \<or> map_of fs' = map_of (sv_race1 env fs)
     | Inr (p, n) \<Rightarrow> map_of (sv_race1 env fs) p = None \<and>
         map_of fs' = (map_of (sv_race1 env fs))(p \<mapsto> FBytes (src_data r)) \<and>
         n = int (length (src_data r)) \<and> \<not> src_fails r \<and>
         (\<exists>leaf. leaf_elem leaf \<and> hd leaf \<noteq> CHR ''.'' \<and> p = path_join dir leaf)) \<and>
    (\<not> isl (SafeLeaf ev now name kind uti dir) \<and> we_fault (sv_write env) = WriteOk \<and> \<not> src_fails r \<longrightarrow> \<not> isl res)"
  by (rule default_sanitizer.saveStream_spec[OF assms])

definition calm_env :: save_env where
  "calm_env = \<lparr>sv_lstat_fails = (\<lambda>p. False), sv_race1 = (\<lambda>fs. fs), sv_reserve1 = True, sv_race2 = (\<lambda>fs. fs),
     sv_reserve2 = True, sv_write = \<lparr>we_hex = ''0a'', we_fault = WriteOk\<rparr>\<rparr>"

theorem save_atomic_and_fresh_witness:
  "\<forall>ev now. \<exists>res fs'. saveStream (SafeLeaf ev now) calm_env [(''/h/inbox/a.png'', FBytes ''old'')] ''/h/inbox'' ''a.png'' KindImage []
      \<lparr>src_data = ''new'', src_fails = False\<rparr> = Some (res, fs') \<and>
    (\<forall>p n. res = Inr (p, n) \<longrightarrow> p \<noteq> ''/h/inbox/a.png'' \<and> map_of fs' ''/h/inbox/a.png'' = Some (FBytes ''old''))"
proof (intro allI)
  fix ev now
  have c: "calm calm_env" by (simp add: calm_def calm_env_def hex_ok_def)
  have j: "path_join ''/h/inbox'' ''.clipbeam-tmp-0a'' = ''/h/inbox/.clipbeam-tmp-0a''" by code_simp
  have t: "temp_free (sv_write calm_env) (sv_race1 calm_env [(''/h/inbox/a.png'', FBytes ''old'')]) ''/h/inbox''"
    by (simp add: temp_free_def calm_env_def j)
  from save_atomic_and_fresh[OF witness_dir c t, of ev now "''a.png''" KindImage "[]" "\<lparr>src_data = ''new'', src_fails = False\<rparr>"]
  show "\<exists>res fs'. saveStream (SafeLeaf ev now) calm_env [(''/h/inbox/a.png'', FBytes ''old'')] ''/h/inbox'' ''a.png'' KindImage []
      \<lparr>src_data = ''new'', src_fails = False\<rparr> = Some (res, fs') \<and>
    (\<forall>p n. res = Inr (p, n) \<longrightarrow> p \<noteq> ''/h/inbox/a.png'' \<and> map_of fs' ''/h/inbox/a.png'' = Some (FBytes ''old''))"
    by (fastforce simp: calm_env_def split: sum.splits)
qed

text \<open>A clipboard receive commits what \<open>/last\<close> answers, now and after a restart: the last
  saved path becomes the store's last path and, read back from disk by a new store, is the same;
  the recents ring holds the last 20 entries of the old ones followed by the new ones; and every
  parked waiter has the path in its channel.\<close>

lemma FinishClipboard_commits:
  assumes "state_files (rs_cfg st) dir ln rn" and "write_ok lenv (rs_fs st) dir" and "write_ok renv (rs_fs st) dir"
    and "paths \<noteq> []" and "last paths \<noteq> []" and "last (last paths) \<noteq> newline"
    and "distinct (pw_waiters (rs_wait st))" and "\<forall>ch\<in>set (pw_waiters (rs_wait st)). pw_chans (rs_wait st) ch = None"
    and "st' = FinishClipboard lenv renv now st sender paths"
    and "entries = loadRecents (rs_fs st) (cfg_RecentsFile (rs_cfg st)) @
           map (\<lambda>p. \<lparr>rc_path = p, rc_sender = sender, rc_time = now\<rparr>) paths"
  shows "LastPath st' = Some (last paths) \<and>
    LastPath (newConcrete (rs_cfg st) (rs_fs st')) = Some (last paths) \<and>
    loadRecents (rs_fs st') (cfg_RecentsFile (rs_cfg st)) = map stored_recent (drop (length entries - 20) entries) \<and>
    (\<forall>ch\<in>set (pw_waiters (rs_wait st)). pw_chans (rs_wait st') ch = Some (last paths)) \<and>
    pw_waiters (rs_wait st') = []"
proof -
  note files = finish_files[OF assms(1-4) assms(10), folded assms(9)]
  have ne: "cfg_LastPathFile (rs_cfg st) \<noteq> cfg_RecentsFile (rs_cfg st)"
    using assms(1) dir_ok_inj by (auto simp: state_files_def)
  have nn: "cfg_LastPathFile (rs_cfg st) \<noteq> []"
    using assms(1) dir_ok_join by (auto simp: state_files_def)
  have "loadLastPath (rs_fs st') (cfg_LastPathFile (rs_cfg st)) = last paths"
    using ne nn assms(6) trim_right_newline by (simp add: loadLastPath_def read_bytes_def files)
  moreover have "pw_waiters (fold (\<lambda>ch v. case pw_send p ch v of Some v' \<Rightarrow> v' | None \<Rightarrow> v) ws w) = pw_waiters w" for p ws w
    by (induction ws arbitrary: w) (auto simp: pw_send_def split: option.splits)
  moreover have "pw_chans (rs_wait st') = (\<lambda>ch. if ch \<in> set (pw_waiters (rs_wait st)) then Some (last paths) else pw_chans (rs_wait st) ch)"
    using pw_resume_send_all[OF assms(7), of "(rs_wait st)\<lparr>pw_waiters := []\<rparr>"] assms(4,8)
    by (simp add: assms(9) FinishClipboard_def Let_def pw_resume_def pw_take_def fun_eq_iff)
  ultimately show ?thesis
    using assms(4,5) ne files
    by (simp add: LastPath_def newConcrete_def loadRecents_def assms(9) FinishClipboard_def Let_def pw_resume_def pw_take_def)
qed

definition witness_store :: "bool \<Rightarrow> store" where
  "witness_store journal = newConcrete \<lparr>cfg_SaveDir = ''/h/save'', cfg_AgentInboxDir = ''/h/inbox'', cfg_LastPathFile = ''/h/inbox/last'',
     cfg_RecentsFile = ''/h/inbox/recents'', cfg_SaveTextToDisk = False, cfg_LongTextThreshold = 10, cfg_MaxBytes = 100,
     cfg_JournalAgentItems = journal\<rparr> []"

lemma FinishClipboard_commits_witness:
  "LastPath (FinishClipboard \<lparr>we_hex = ''01'', we_fault = WriteOk\<rparr> \<lparr>we_hex = ''02'', we_fault = WriteOk\<rparr> 7 (witness_store False) [] [''/h/save/x''])
     = Some ''/h/save/x''"
proof -
  have j: "path_join ''/h/inbox'' ''last'' = ''/h/inbox/last''" "path_join ''/h/inbox'' ''recents'' = ''/h/inbox/recents''"
    by code_simp+
  have s: "state_files (rs_cfg (witness_store False)) ''/h/inbox'' ''last'' ''recents''"
    using witness_dir by (simp add: state_files_def leaf_elem_def witness_store_def newConcrete_def j)
  have w: "write_ok \<lparr>we_hex = h, we_fault = WriteOk\<rparr> (rs_fs (witness_store False)) ''/h/inbox'' \<longleftrightarrow> slash \<notin> set h" for h
    by (simp add: write_ok_def hex_ok_def temp_free_def witness_store_def newConcrete_def)
  show ?thesis
    using FinishClipboard_commits[OF s, of "\<lparr>we_hex = ''01'', we_fault = WriteOk\<rparr>" "\<lparr>we_hex = ''02'', we_fault = WriteOk\<rparr>"
        "[''/h/save/x'']" _ 7 "[]", OF _ _ _ _ _ _ _ refl refl]
    by (simp add: w) (simp add: witness_store_def newConcrete_def)
qed

text \<open>A file whose \<open>Lstat\<close> fails for any reason counts as absent: the probe then offers its
  name, both exclusive creates fail, and the write renames over the existing file.\<close>

lemma failed_lstat_overwrites:
  assumes "dir_ok dir" and "SafeLeaf ev now name kind uti dir = Inr leaf" and "hex_ok (sv_write env)"
    and "map_of fs (path_join dir leaf) = Some old" and "sv_lstat_fails env (path_join dir leaf)"
    and "\<And>f. sv_race1 env f = f" and "\<And>f. sv_race2 env f = f"
    and "we_fault (sv_write env) = WriteOk" and "temp_free (sv_write env) fs dir"
  shows "\<exists>fs'. saveStream (SafeLeaf ev now) env fs dir name kind uti \<lparr>src_data = data, src_fails = False\<rparr> =
           Some (Inr (path_join dir leaf, int (length data)), fs') \<and>
         map_of fs' (path_join dir leaf) = Some (FBytes data)"
proof -
  let ?d = "path_join dir leaf"
  have le: "leaf_elem leaf" "hd leaf \<noteq> CHR ''.''"
    using default_sanitizer.safe_elem[OF assms(2)] default_sanitizer.safe_visible[OF assms(2)] by auto
  have u: "uniqueLeaf (exists_file env fs) dir leaf = Some leaf"
    using assms(5) by (simp add: uniqueLeaf_def exists_file_def)
  have r: "reserve b fs ?d = None" for b using assms(4) by (simp add: reserve_def)
  let ?r = "\<lparr>src_data = data, src_fails = False\<rparr>"
  have t: "temp_path (sv_write env) ?d = path_join dir (''.clipbeam-tmp-'' @ we_hex (sv_write env))"
    by (rule temp_path_dir[OF assms(1) le(1) assms(3)])
  have tf: "map_of fs (temp_path (sv_write env) ?d) = None" using assms(9) unfolding t temp_free_def .
  have "leaf_elem (''.clipbeam-tmp-'' @ we_hex (sv_write env))" using assms(3) by (simp add: leaf_elem_def hex_ok_def)
  then have ne: "temp_path (sv_write env) ?d \<noteq> ?d"
    using dir_ok_inj[OF assms(1) _ le(1)] le(2) unfolding t by auto
  obtain fs' where w: "writeAtomicFsync (sv_write env) fs ?d ?r = (Inr (int (length data)), fs')"
    using assms(8) by (simp add: writeAtomicFsync_def Let_def)
  from writeAtomicFsync_ok[OF tf ne w] have "map_of fs' ?d = Some (FBytes data)" by simp
  then show ?thesis
    using w by (simp add: saveStream_def assms(2,6,7) u r Let_def write_reserved_def)
qed

definition lstat_env :: save_env where
  "lstat_env = calm_env\<lparr>sv_lstat_fails := (\<lambda>p. True)\<rparr>"

lemma failed_lstat_overwrites_witness:
  "\<forall>now. \<exists>leaf fs'. saveStream (SafeLeaf (\<lambda>d. None) now) lstat_env
       [(path_join ''/h/inbox'' (CleanLeaf now ''a.png'' KindImage []), FBytes ''old'')] ''/h/inbox'' ''a.png'' KindImage []
       \<lparr>src_data = ''new'', src_fails = False\<rparr> = Some (Inr (path_join ''/h/inbox'' leaf, 3), fs') \<and>
     map_of fs' (path_join ''/h/inbox'' (CleanLeaf now ''a.png'' KindImage [])) = Some (FBytes ''new'')"
proof (intro allI)
  fix now
  let ?l = "CleanLeaf now ''a.png'' KindImage []"
  let ?fs = "[(path_join ''/h/inbox'' ?l, FBytes ''old'')]"
  have d: "evalDir (\<lambda>d. None) ''/h/inbox'' = abs_dir [''h'', ''inbox'']" by code_simp
  have l: "SafeLeaf (\<lambda>d. None) now ''a.png'' KindImage [] ''/h/inbox'' = Inr ?l"
    by (rule SafeLeaf_ok[OF _ d]) (simp add: leaf_elem_def)
  have le: "leaf_elem ?l" "hd ?l \<noteq> CHR ''.''"
    using default_sanitizer.safe_elem[OF l] default_sanitizer.safe_visible[OF l] by auto
  have "?l \<noteq> ''.clipbeam-tmp-0a''"
  proof
    assume "?l = ''.clipbeam-tmp-0a''"
    then have "hd ?l = CHR ''.''" by (simp only: list.sel)
    then show False using le(2) by contradiction
  qed
  then have ne: "path_join ''/h/inbox'' ''.clipbeam-tmp-0a'' \<noteq> path_join ''/h/inbox'' ?l"
    using dir_ok_inj[OF witness_dir _ le(1), of "''.clipbeam-tmp-0a''"] by (simp add: leaf_elem_def)
  have h: "hex_ok (sv_write lstat_env)" by (simp add: lstat_env_def calm_env_def hex_ok_def)
  have t: "temp_free (sv_write lstat_env) ?fs ''/h/inbox''"
    using ne by (simp add: temp_free_def lstat_env_def calm_env_def)
  have e: "map_of ?fs (path_join ''/h/inbox'' ?l) = Some (FBytes ''old'')"
    "sv_lstat_fails lstat_env (path_join ''/h/inbox'' ?l)" "\<And>f. sv_race1 lstat_env f = f" "\<And>f. sv_race2 lstat_env f = f"
    "we_fault (sv_write lstat_env) = WriteOk"
    by (simp_all add: lstat_env_def calm_env_def)
  from failed_lstat_overwrites[OF witness_dir l h e t, of "''new''"]
  show "\<exists>leaf fs'. saveStream (SafeLeaf (\<lambda>d. None) now) lstat_env ?fs ''/h/inbox'' ''a.png'' KindImage []
       \<lparr>src_data = ''new'', src_fails = False\<rparr> = Some (Inr (path_join ''/h/inbox'' leaf, 3), fs') \<and>
     map_of fs' (path_join ''/h/inbox'' ?l) = Some (FBytes ''new'')" by auto
qed

text \<open>An agent text item survives the process that received it: with journaling on, what
  \<open>EnqueueAgentText\<close> puts in the FIFO is exactly what a later drain of the journal by another
  process returns, a present but empty text included, and the journal is then empty again.\<close>

lemma agent_text_survives_process:
  assumes "cfg_JournalAgentItems (rs_cfg st)" and "inbox = cfg_AgentInboxDir (rs_cfg st)" and "dir_ok inbox"
    and "key_ok (JKey (je_nanos jenv) (je_seq jenv))"
    and "write_ok (je_write jenv) (rs_fs st) (journalDir inbox)"
    and "journal_wf (rs_fs st) (journalDir inbox)" and "\<And>j. journal_abs (rs_fs st) (journalDir inbox) j = None"
    and "valid_utf8 text" and "valid_utf8 sender"
    and "EnqueueAgentText jenv st sender text = (Inr (), st')" and "quiet (env 0)"
  shows "\<exists>it fs'. rs_agent st' = enqueue [it] (rs_agent st) \<and> ai_text it = Some text \<and>
           DrainAgentDisk 1 env 0 inbox (rs_fs st') = Some (DrainItem it, fs') \<and>
           (\<forall>j. journal_abs fs' (journalDir inbox) j = None)"
proof -
  let ?dir = "journalDir inbox" and ?k = "JKey (je_nanos jenv) (je_seq jenv)"
  let ?it = "\<lparr>ai_type = ''text'', ai_sender = sender, ai_path = None, ai_text = Some text\<rparr>"
  obtain res fs1 where w: "writeAgentJournal jenv (rs_fs st) inbox ''text'' sender [] True text = (res, fs1)" by fastforce
  have st': "rs_agent st' = enqueue [?it] (rs_agent st)" "rs_fs st' = fs1" "res = Inr ()"
    using assms(1,2,10) w by (auto simp: EnqueueAgentText_def journal_item_def)
  note wo = assms(5)[unfolded write_ok_def temp_free_def]
  let ?r = "\<lparr>jr_type = utf8_coerce ''text'', jr_sender = utf8_coerce sender, jr_path = utf8_coerce [],
            jr_hasText = True, jr_text = utf8_coerce text\<rparr>"
  have ins: "journal_wf fs1 ?dir \<and> journal_abs fs1 ?dir = (journal_abs (rs_fs st) ?dir)(?k \<mapsto> ?r)"
    using journal_write_insert[OF assms(3,4) _ assms(6) _ w] wo st'(3) by simp
  have v: "utf8_coerce ''text'' = ''text''" "utf8_coerce [] = []"
    by (rule utf8_coerce_valid, rule valid_utf8_ascii, simp)+
  have item: "recordToAgentItem ?r = ?it" using assms(8,9) v by (simp add: recordToAgentItem_def utf8_coerce_valid)
  have only: "j = ?k \<and> r = ?r" if "journal_abs fs1 ?dir j = Some r" for j r
  proof -
    have "((journal_abs (rs_fs st) ?dir)(?k \<mapsto> ?r)) j = Some r" using that conjunct2[OF ins] by (simp only:)
    then show ?thesis using assms(7)[of j] by (simp split: if_splits)
  qed
  from drain_pop_min[where env = env and k = 0 and fuel = 0, OF assms(3) conjunct1[OF ins] assms(11)]
  consider (none) "\<forall>j. journal_abs fs1 ?dir j = None"
    | (pop) j r fs2 where "journal_abs fs1 ?dir j = Some r"
      "DrainAgentDisk (Suc 0) env 0 inbox fs1 = Some (DrainItem (recordToAgentItem r), fs2)"
      "journal_abs fs2 ?dir = (journal_abs fs1 ?dir)(j := None)" by blast
  then show ?thesis
  proof cases
    case none
    from none[rule_format, of ?k] conjunct2[OF ins] show ?thesis by simp
  next
    case pop
    have jr: "j = ?k" "r = ?r" using only[OF pop(1)] by auto
    have "journal_abs fs2 ?dir i = None" for i
      using pop(3) conjunct2[OF ins] assms(7)[of i] by (simp add: jr(1))
    moreover have "DrainAgentDisk 1 env 0 inbox (rs_fs st') = Some (DrainItem ?it, fs2)"
      using pop(2) unfolding jr item st'(2) One_nat_def .
    ultimately show ?thesis using st'(1) by (intro exI[of _ ?it] exI[of _ fs2]) simp
  qed
qed

lemma agent_text_survives_process_witness:
  "\<exists>it fs'. DrainAgentDisk 1 (\<lambda>k. quiet_env) 0 ''/h/inbox'' (rs_fs (snd (EnqueueAgentText witness_env (witness_store True) [] [])))
     = Some (DrainItem it, fs') \<and> ai_text it = Some []"
proof -
  let ?st = "witness_store True"
  have r: "fst (EnqueueAgentText witness_env ?st [] []) = Inr ()"
    by (simp add: EnqueueAgentText_def journal_item_def witness_store_def newConcrete_def writeAgentJournal_def
        witness_env_def writeBytesAtomic_def Let_def split: prod.splits)
  then have e: "EnqueueAgentText witness_env ?st [] [] = (Inr (), snd (EnqueueAgentText witness_env ?st [] []))"
    by (metis prod.collapse)
  have k: "key_ok (JKey (je_nanos witness_env) (je_seq witness_env))" by (simp add: key_ok_def witness_env_def)
  have c: "cfg_JournalAgentItems (rs_cfg ?st)" "''/h/inbox'' = cfg_AgentInboxDir (rs_cfg ?st)" "rs_fs ?st = []"
    by (simp_all add: witness_store_def newConcrete_def)
  have w: "write_ok (je_write witness_env) (rs_fs ?st) (journalDir ''/h/inbox'')"
    by (simp add: write_ok_def hex_ok_def temp_free_def c(3) witness_env_def)
  have v: "valid_utf8 []" by (simp add: valid_utf8.simps)
  have q: "quiet ((\<lambda>k. quiet_env) 0)" by (simp add: quiet_def quiet_env_def)
  have wf: "journal_wf (rs_fs ?st) (journalDir ''/h/inbox'')" by (simp add: c(3) journal_wf_def)
  have emp: "\<And>j. journal_abs (rs_fs ?st) (journalDir ''/h/inbox'') j = None" by (simp add: c(3) journal_abs_def)
  from agent_text_survives_process[where env = "\<lambda>k. quiet_env", OF c(1,2) witness_dir k w wf emp v v e q]
  show ?thesis by blast
qed

end
