(* ===== verification/Ingest.thy ===== *)
theory Ingest
  imports Store
begin

text \<open>
  Package \<open>ingest\<close>: the single save and dispatch path of all transports. The store is the
  \<open>ReceiveStore\<close> interface, a record of operations on a state of any type; the clipboard path is
  verified against the contract a store has to keep (a locale), which the concrete store is shown to
  fulfil. An operation returns \<open>None\<close> when it does not terminate.
\<close>

section \<open>The interface and the items\<close>

record ingest_item =
  it_kind :: string
  it_name :: string
  it_uti :: string
  it_mime :: string
  it_channel :: string
  it_reader :: "source option"

datatype ingest_error = ErrTooLarge | ErrMalformed | ErrIngestEscape | ErrStore store_error | NilReaderPanic

record 's receive_store =
  ss_save_clip :: "'s \<Rightarrow> string \<Rightarrow> string \<Rightarrow> string \<Rightarrow> source \<Rightarrow> ((store_error, string \<times> int) result \<times> 's) option"
  ss_save_text :: "'s \<Rightarrow> string \<Rightarrow> ((store_error, string \<times> bool \<times> int) result \<times> 's) option"
  ss_finish :: "'s \<Rightarrow> string \<Rightarrow> string list \<Rightarrow> (store_error, unit) result \<times> 's"
  ss_save_agent :: "'s \<Rightarrow> string \<Rightarrow> string \<Rightarrow> string \<Rightarrow> string \<Rightarrow> source \<Rightarrow> ((store_error, string \<times> int) result \<times> 's) option"
  ss_enqueue_text :: "'s \<Rightarrow> string \<Rightarrow> string \<Rightarrow> (store_error, unit) result \<times> 's"
  ss_remove :: "'s \<Rightarrow> string \<Rightarrow> 's"

definition classifyStoreErr :: "store_error \<Rightarrow> ingest_error" where
  "classifyStoreErr e = (if e = StEscape then ErrIngestEscape else ErrStore e)"

definition readText :: "source option \<Rightarrow> string option" where
  "readText r = (case r of None \<Rightarrow> Some [] | Some s \<Rightarrow> if src_fails s then None else Some (src_data s))"

definition senderOf :: "ingest_item list \<Rightarrow> string" where
  "senderOf items = []"

section \<open>The clipboard channel\<close>

fun clip_loop ::
  "'s receive_store \<Rightarrow> int \<Rightarrow> ingest_item list \<Rightarrow> int \<Rightarrow> string list \<Rightarrow> 's \<Rightarrow>
   ((ingest_error, string list) result \<times> 's) option" where
  "clip_loop ops maxBytes [] tot saved s = Some (Inr saved, s)"
| "clip_loop ops maxBytes (it # its) tot saved s =
     (if it_kind it = KindImage \<or> it_kind it = KindFile then
        (case it_reader it of
           None \<Rightarrow> Some (Inl NilReaderPanic, s)
         | Some r \<Rightarrow> (case ss_save_clip ops s (it_name it) (it_kind it) (it_uti it) r of
             None \<Rightarrow> None
           | Some (Inl e, s1) \<Rightarrow> Some (Inl (classifyStoreErr e), s1)
           | Some (Inr (path, n), s1) \<Rightarrow>
               if tot + n > maxBytes then Some (Inl ErrTooLarge, ss_remove ops s1 path)
               else clip_loop ops maxBytes its (tot + n) (saved @ [path]) s1))
      else if it_kind it = KindText then
        (case readText (it_reader it) of
           None \<Rightarrow> Some (Inl ErrMalformed, s)
         | Some text \<Rightarrow> (case ss_save_text ops s text of
             None \<Rightarrow> None
           | Some (Inl e, s1) \<Rightarrow> Some (Inl (classifyStoreErr e), s1)
           | Some (Inr (path, wrote, n), s1) \<Rightarrow>
               if wrote then
                 if tot + n > maxBytes then Some (Inl ErrTooLarge, ss_remove ops s1 path)
                 else clip_loop ops maxBytes its (tot + n) (saved @ [path]) s1
               else clip_loop ops maxBytes its tot saved s1))
      else Some (Inl ErrMalformed, s))"

definition ok_response :: "string list \<Rightarrow> ingest_item list \<Rightarrow> clip_response" where
  "ok_response saved items = \<lparr>resp_ok = True, resp_saved = saved, resp_count = length items\<rparr>"

definition ingestClipboard ::
  "'s receive_store \<Rightarrow> int \<Rightarrow> ingest_item list \<Rightarrow> 's \<Rightarrow> ((ingest_error, clip_response) result \<times> 's) option" where
  "ingestClipboard ops maxBytes items s =
     (case clip_loop ops maxBytes items 0 [] s of
        None \<Rightarrow> None
      | Some (Inl e, s1) \<Rightarrow> Some (Inl e, s1)
      | Some (Inr saved, s1) \<Rightarrow>
          (case ss_finish ops s1 (senderOf items) saved of
             (Inl e, s2) \<Rightarrow> Some (Inl (classifyStoreErr e), s2)
           | (Inr _, s2) \<Rightarrow> Some (Inr (ok_response saved items), s2)))"

section \<open>The agent channel\<close>

fun agent_loop ::
  "'s receive_store \<Rightarrow> int \<Rightarrow> string \<Rightarrow> ingest_item list \<Rightarrow> int \<Rightarrow> string list \<Rightarrow> 's \<Rightarrow>
   ((ingest_error, string list) result \<times> 's) option" where
  "agent_loop ops maxBytes sender [] tot saved s = Some (Inr saved, s)"
| "agent_loop ops maxBytes sender (it # its) tot saved s =
     (if it_kind it = KindImage \<or> it_kind it = KindFile then
        (case it_reader it of
           None \<Rightarrow> Some (Inl NilReaderPanic, s)
         | Some r \<Rightarrow> (case ss_save_agent ops s sender (it_name it) (it_kind it) (it_uti it) r of
             None \<Rightarrow> None
           | Some (Inl e, s1) \<Rightarrow> Some (Inl (classifyStoreErr e), s1)
           | Some (Inr (path, n), s1) \<Rightarrow>
               if tot + n > maxBytes then Some (Inl ErrTooLarge, ss_remove ops s1 path)
               else agent_loop ops maxBytes sender its (tot + n) (saved @ [path]) s1))
      else if it_kind it = KindText then
        (case readText (it_reader it) of
           None \<Rightarrow> Some (Inl ErrMalformed, s)
         | Some text \<Rightarrow>
             if tot + int (length text) > maxBytes then Some (Inl ErrTooLarge, s)
             else (case ss_enqueue_text ops s sender text of
                 (Inl e, s1) \<Rightarrow> Some (Inl (classifyStoreErr e), s1)
               | (Inr _, s1) \<Rightarrow> agent_loop ops maxBytes sender its (tot + int (length text)) saved s1))
      else Some (Inl ErrMalformed, s))"

definition ingestAgent ::
  "'s receive_store \<Rightarrow> int \<Rightarrow> ingest_item list \<Rightarrow> 's \<Rightarrow> ((ingest_error, clip_response) result \<times> 's) option" where
  "ingestAgent ops maxBytes items s =
     (case agent_loop ops maxBytes (senderOf items) items 0 [] s of
        None \<Rightarrow> None
      | Some (Inl e, s1) \<Rightarrow> Some (Inl e, s1)
      | Some (Inr saved, s1) \<Rightarrow> Some (Inr (ok_response saved items), s1))"

definition Ingest ::
  "'s receive_store \<Rightarrow> int \<Rightarrow> ingest_item list \<Rightarrow> 's \<Rightarrow> ((ingest_error, clip_response) result \<times> 's) option" where
  "Ingest ops maxBytes items s =
     (if items = [] then Some (Inl ErrMalformed, s)
      else if it_channel (hd items) = ChannelAgent then ingestAgent ops maxBytes items s
      else ingestClipboard ops maxBytes items s)"

section \<open>The contract of a store\<close>

text \<open>What the clipboard path needs: a view of the files and of the last path, and that a save
  that succeeds adds one fresh file with the payload while one that fails adds none.\<close>

definition file_size :: "content option \<Rightarrow> int" where
  "file_size c = (case c of Some (FBytes b) \<Rightarrow> int (length b) | _ \<Rightarrow> 0)"

locale clip_store =
  fixes ops :: "'s receive_store"
    and ok :: "'s \<Rightarrow> bool"
    and files :: "'s \<Rightarrow> string \<Rightarrow> content option"
    and lst :: "'s \<Rightarrow> string"
  assumes save_clip: "ok s \<Longrightarrow> \<exists>res s'. ss_save_clip ops s name kind uti r = Some (res, s') \<and> ok s' \<and> lst s' = lst s \<and>
      (case res of Inl e \<Rightarrow> files s' = files s
       | Inr (p, n) \<Rightarrow> files s p = None \<and> files s' = (files s)(p \<mapsto> FBytes (src_data r)) \<and> n = int (length (src_data r)))"
    and save_text: "ok s \<Longrightarrow> \<exists>res s'. ss_save_text ops s text = Some (res, s') \<and> ok s' \<and> lst s' = lst s \<and>
      (case res of Inl e \<Rightarrow> files s' = files s
       | Inr (p, wrote, n) \<Rightarrow>
           (if wrote then files s p = None \<and> files s' = (files s)(p \<mapsto> FBytes text) \<and> n = int (length text)
            else files s' = files s))"
    and finish: "ok s \<Longrightarrow> \<exists>s'. ss_finish ops s sender paths = (Inr (), s') \<and>
      lst s' = (if paths = [] then lst s else last paths)"
    and remove: "ok s \<Longrightarrow> ok (ss_remove ops s p) \<and> files (ss_remove ops s p) = (files s)(p := None) \<and>
      lst (ss_remove ops s p) = lst s"
begin

text \<open>The new files of a run: fresh, pairwise different, and the only change.\<close>

definition added :: "'s \<Rightarrow> 's \<Rightarrow> string list \<Rightarrow> bool" where
  "added s s' new \<longleftrightarrow> distinct new \<and> (\<forall>p\<in>set new. files s p = None \<and> files s' p \<noteq> None) \<and>
     (\<forall>p. p \<notin> set new \<longrightarrow> files s' p = files s p)"

definition total_size :: "'s \<Rightarrow> string list \<Rightarrow> int" where
  "total_size s new = sum_list (map (\<lambda>p. file_size (files s p)) new)"

lemma added_Nil: "files s' = files s \<Longrightarrow> added s s' []"
  by (simp add: added_def)

lemma added_Cons:
  assumes "files s p = None" and "files s1 = (files s)(p \<mapsto> FBytes b)" and "added s1 s' new"
  shows "added s s' (p # new) \<and> total_size s' (p # new) = int (length b) + total_size s' new"
proof -
  have p: "p \<notin> set new" using assms(2,3) by (auto simp: added_def)
  then have "files s' p = Some (FBytes b)" using assms(2,3) by (auto simp: added_def)
  moreover have "files s q = None" if "q \<in> set new" for q
  proof -
    have "files s1 q = None" using assms(3) that by (simp add: added_def)
    then show ?thesis using assms(2) by (auto split: if_splits)
  qed
  moreover have "files s' q = files s q" if "q \<notin> set new" "q \<noteq> p" for q
    using assms(2,3) that by (simp add: added_def)
  ultimately show ?thesis using assms(1,3) p by (auto simp: added_def total_size_def file_size_def)
qed

lemma added_remove:
  assumes "ok s1" and "files s p = None" and "files s1 = (files s)(p \<mapsto> c)"
  shows "files (ss_remove ops s1 p) = files s"
  using assms remove[of s1 p] by (simp add: fun_upd_idem)

lemma clip_loop_spec:
  assumes "ok s" and "tot \<le> maxBytes"
  shows "\<exists>res s' new. clip_loop ops maxBytes items tot saved s = Some (res, s') \<and> ok s' \<and> lst s' = lst s \<and>
     added s s' new \<and> tot + total_size s' new \<le> maxBytes \<and>
     (case res of Inl e \<Rightarrow> True | Inr paths \<Rightarrow> paths = saved @ new)"
  using assms
proof (induction items arbitrary: tot saved s)
  case Nil
  then show ?case by (intro exI[of _ "Inr saved"] exI[of _ s] exI[of _ "[]"]) (simp add: added_Nil total_size_def)
next
  case (Cons it its)
  have stop: ?case if "clip_loop ops maxBytes (it # its) tot saved s = Some (Inl e, s')" "ok s'" "lst s' = lst s" "files s' = files s"
    for e s' using that Cons.prems by (intro exI[of _ "Inl e"] exI[of _ s'] exI[of _ "[]"]) (simp add: added_Nil total_size_def)
  have keep: ?case if "ok s1" "lst s1 = lst s" "files s p = None" "files s1 = (files s)(p \<mapsto> FBytes b)"
      "clip_loop ops maxBytes (it # its) tot saved s =
        (if tot + int (length b) > maxBytes then Some (Inl ErrTooLarge, ss_remove ops s1 p)
         else clip_loop ops maxBytes its (tot + int (length b)) (saved @ [p]) s1)" for s1 p b
  proof (cases "tot + int (length b) > maxBytes")
    case True
    then show ?thesis using that remove[of s1 p] added_remove by (intro stop[of ErrTooLarge "ss_remove ops s1 p"]) auto
  next
    case False
    from Cons.IH[of s1 "tot + int (length b)" "saved @ [p]"] that(1) False obtain res s' new where
      r: "clip_loop ops maxBytes its (tot + int (length b)) (saved @ [p]) s1 = Some (res, s')" "ok s'" "lst s' = lst s1"
        "added s1 s' new" "tot + int (length b) + total_size s' new \<le> maxBytes"
        "case res of Inl e \<Rightarrow> True | Inr paths \<Rightarrow> paths = (saved @ [p]) @ new" by auto
    from added_Cons[OF that(3,4) r(4)] show ?thesis
      using r that(2,5) False
      by (intro exI[of _ res] exI[of _ s'] exI[of _ "p # new"]) (auto split: sum.splits)
  qed
  show ?case
  proof (cases "it_kind it = KindImage \<or> it_kind it = KindFile")
    case True
    show ?thesis
    proof (cases "it_reader it")
      case None
      then show ?thesis using True Cons.prems by (intro stop[of NilReaderPanic s]) auto
    next
      case (Some r)
      from save_clip[OF Cons.prems(1), of "it_name it" "it_kind it" "it_uti it" r] obtain res s1 where
        c: "ss_save_clip ops s (it_name it) (it_kind it) (it_uti it) r = Some (res, s1)" "ok s1" "lst s1 = lst s"
          "case res of Inl e \<Rightarrow> files s1 = files s
           | Inr (p, n) \<Rightarrow> files s p = None \<and> files s1 = (files s)(p \<mapsto> FBytes (src_data r)) \<and> n = int (length (src_data r))"
        by blast
      show ?thesis
      proof (cases res)
        case (Inl e)
        then show ?thesis using c True Some by (intro stop[of "classifyStoreErr e" s1]) auto
      next
        case (Inr pn)
        then show ?thesis using c True Some
          by (cases pn) (intro keep[of s1 "fst pn" "src_data r"], auto)
      qed
    qed
  next
    case notfile: False
    show ?thesis
    proof (cases "it_kind it = KindText \<and> readText (it_reader it) \<noteq> None")
      case True
      then obtain body where body: "readText (it_reader it) = Some body" by blast
      from save_text[OF Cons.prems(1), of body] obtain res s1 where
        c: "ss_save_text ops s body = Some (res, s1)" "ok s1" "lst s1 = lst s"
          "case res of Inl e \<Rightarrow> files s1 = files s
           | Inr (p, wrote, n) \<Rightarrow>
               (if wrote then files s p = None \<and> files s1 = (files s)(p \<mapsto> FBytes body) \<and> n = int (length body)
                else files s1 = files s)" by blast
      show ?thesis
      proof (cases res)
        case (Inl e)
        then show ?thesis using c True notfile body by (intro stop[of "classifyStoreErr e" s1]) auto
      next
        case (Inr pwn)
        obtain p wrote n where pwn: "pwn = (p, wrote, n)" by (cases pwn)
        show ?thesis
        proof (cases wrote)
          case True
          then show ?thesis using c notfile body Inr pwn \<open>it_kind it = KindText \<and> _\<close>
            by (intro keep[of s1 p body]) auto
        next
          case False
          from Cons.IH[OF c(2) Cons.prems(2), of saved] obtain res' s' new where
            r: "clip_loop ops maxBytes its tot saved s1 = Some (res', s')" "ok s'" "lst s' = lst s1"
              "added s1 s' new" "tot + total_size s' new \<le> maxBytes"
              "case res' of Inl e \<Rightarrow> True | Inr paths \<Rightarrow> paths = saved @ new" by blast
          have "files s1 = files s" using c(4) Inr pwn False by simp
          then have "added s s' new" using r(4) by (simp add: added_def)
          then show ?thesis using r c False notfile body Inr pwn \<open>it_kind it = KindText \<and> _\<close>
            by (intro exI[of _ res'] exI[of _ s'] exI[of _ new]) auto
        qed
      qed
    next
      case False
      then show ?thesis using notfile Cons.prems by (intro stop[of ErrMalformed s]) auto
    qed
  qed
qed

text \<open>A clipboard ingest ends, adds fresh files within the cap whatever its outcome, answers
  with exactly those on success, and commits the last path only then.\<close>

lemma ingestClipboard_spec:
  assumes "ok s" and "0 \<le> maxBytes"
  shows "\<exists>res s' s1 new. ingestClipboard ops maxBytes items s = Some (res, s') \<and>
     added s s1 new \<and> total_size s1 new \<le> maxBytes \<and>
     (case res of
        Inl e \<Rightarrow> s' = s1 \<and> lst s' = lst s
      | Inr resp \<Rightarrow> resp_ok resp \<and> resp_saved resp = new \<and> resp_count resp = length items \<and>
          s' = snd (ss_finish ops s1 (senderOf items) new) \<and>
          lst s' = (if new = [] then lst s else last new))"
proof -
  from clip_loop_spec[OF assms, of items "[]"] obtain res s1 new where
    r: "clip_loop ops maxBytes items 0 [] s = Some (res, s1)" "ok s1" "lst s1 = lst s" "added s s1 new"
      "total_size s1 new \<le> maxBytes" "case res of Inl e \<Rightarrow> True | Inr paths \<Rightarrow> paths = [] @ new" by auto
  show ?thesis
  proof (cases res)
    case (Inl e)
    then show ?thesis using r
      by (intro exI[of _ "Inl e"] exI[of _ s1] exI[of _ s1] exI[of _ new]) (simp add: ingestClipboard_def)
  next
    case (Inr paths)
    from finish[OF r(2), of "senderOf items" new] obtain s2 where
      f: "ss_finish ops s1 (senderOf items) new = (Inr (), s2)" "lst s2 = (if new = [] then lst s1 else last new)" by blast
    show ?thesis using r f Inr
      by (intro exI[of _ "Inr (ok_response new items)"] exI[of _ s2] exI[of _ s1] exI[of _ new])
        (simp add: ingestClipboard_def ok_response_def)
  qed
qed

end

section \<open>The concrete store keeps the contract\<close>

text \<open>The environment of the \<open>n\<close>-th call on the store, counted in the state.\<close>

record call_env =
  ce_save :: save_env
  ce_journal :: journal_env
  ce_now :: utc_time
  ce_symlinks :: "string \<Rightarrow> string option"
  ce_last :: write_env
  ce_recents :: write_env
  ce_time :: nat

definition concrete_ops :: "(nat \<Rightarrow> call_env) \<Rightarrow> (store \<times> nat) receive_store" where
  "concrete_ops env =
     \<lparr>ss_save_clip = (\<lambda>(st, n) name kind uti r.
        map_option (\<lambda>(res, st'). (res, (st', Suc n)))
          (SaveClipboardItem (SafeLeaf (ce_symlinks (env n)) (ce_now (env n))) (ce_save (env n)) st name kind uti r)),
      ss_save_text = (\<lambda>(st, n) text.
        map_option (\<lambda>(res, st'). (res, (st', Suc n)))
          (SaveClipboardText (SafeLeaf (ce_symlinks (env n)) (ce_now (env n))) (ce_save (env n)) (ce_now (env n)) st text)),
      ss_finish = (\<lambda>(st, n) sender paths.
        (Inr (), (FinishClipboard (ce_last (env n)) (ce_recents (env n)) (ce_time (env n)) st sender paths, Suc n))),
      ss_save_agent = (\<lambda>(st, n) sender name kind uti r.
        map_option (\<lambda>(res, st'). (res, (st', Suc n)))
          (SaveAgentItem (SafeLeaf (ce_symlinks (env n)) (ce_now (env n))) (ce_save (env n)) (ce_journal (env n))
             st sender name kind uti r)),
      ss_enqueue_text = (\<lambda>(st, n) sender text.
        (let (res, st') = EnqueueAgentText (ce_journal (env n)) st sender text in (res, (st', Suc n)))),
      ss_remove = (\<lambda>(st, n) p. (st\<lparr>rs_fs := fs_remove p (rs_fs st)\<rparr>, n))\<rparr>"

text \<open>A system on which no other process interferes with the save directory.\<close>

definition store_ready :: "(nat \<Rightarrow> call_env) \<Rightarrow> store \<times> nat \<Rightarrow> bool" where
  "store_ready env s \<longleftrightarrow> dir_ok (cfg_SaveDir (rs_cfg (fst s))) \<and>
     (\<forall>k. calm (ce_save (env k)) \<and> (\<forall>fs. sv_race1 (ce_save (env k)) fs = fs) \<and>
        temp_free (sv_write (ce_save (env k))) (rs_fs (fst s)) (cfg_SaveDir (rs_cfg (fst s))))"

lemma save_in_dir:
  assumes "store_ready env (st, n)" and "dir = cfg_SaveDir (rs_cfg st)"
  shows "\<exists>res fs'. saveStream (SafeLeaf ev now) (ce_save (env n)) (rs_fs st) dir name kind uti r = Some (res, fs') \<and>
    store_ready env (st\<lparr>rs_fs := fs'\<rparr>, m) \<and>
    (case res of
       Inl e \<Rightarrow> map_of fs' = map_of (rs_fs st)
     | Inr (p, k) \<Rightarrow> map_of (rs_fs st) p = None \<and> map_of fs' = (map_of (rs_fs st))(p \<mapsto> FBytes (src_data r)) \<and>
         k = int (length (src_data r)))"
proof -
  note rd = assms(1)[unfolded store_ready_def fst_conv]
  have race: "sv_race1 (ce_save (env n)) (rs_fs st) = rs_fs st" using rd by blast
  have c: "dir_ok dir" "calm (ce_save (env n))"
    "temp_free (sv_write (ce_save (env n))) (sv_race1 (ce_save (env n)) (rs_fs st)) dir"
    using rd assms(2) unfolding race by blast+
  obtain res fs' where s: "saveStream (SafeLeaf ev now) (ce_save (env n)) (rs_fs st) dir name kind uti r = Some (res, fs')"
    and e: "case res of
       Inl e \<Rightarrow> map_of fs' = map_of (rs_fs st) \<or> map_of fs' = map_of (rs_fs st)
     | Inr (p, k) \<Rightarrow> map_of (rs_fs st) p = None \<and> map_of fs' = (map_of (rs_fs st))(p \<mapsto> FBytes (src_data r)) \<and>
         k = int (length (src_data r)) \<and> \<not> src_fails r \<and> (\<exists>leaf. leaf_elem leaf \<and> hd leaf \<noteq> CHR ''.'' \<and> p = path_join dir leaf)"
    using default_sanitizer.saveStream_spec[OF c, of ev now name kind uti r] unfolding race by blast
  have "temp_free (sv_write (ce_save (env k))) fs' dir" for k
  proof (cases res)
    case (Inl x)
    then show ?thesis using e rd assms(2) by (auto simp: temp_free_def)
  next
    case (Inr pk)
    have "hex_ok (sv_write (ce_save (env k)))" using rd by (auto simp: calm_def)
    then show ?thesis
      using e rd assms(2) Inr temp_free_put[OF c(1), of _ "sv_write (ce_save (env k))" "rs_fs st" fs'] by (cases pk) auto
  qed
  then have "store_ready env (st\<lparr>rs_fs := fs'\<rparr>, m)" using rd assms(2) by (simp add: store_ready_def)
  then show ?thesis using s e by (intro exI[of _ res] exI[of _ fs']) (auto split: sum.splits)
qed

interpretation clip: clip_store "concrete_ops env" "store_ready env" "\<lambda>s. map_of (rs_fs (fst s))" "\<lambda>s. rs_lastPath (fst s)" for env
proof (unfold_locales, goal_cases)
  case (1 s name kind uti r)
  obtain st n where s: "s = (st, n)" by (cases s)
  from save_in_dir[OF 1[unfolded s] refl, of "ce_symlinks (env n)" "ce_now (env n)" name kind uti r "Suc n"]
  obtain res fs' where r: "saveStream (SafeLeaf (ce_symlinks (env n)) (ce_now (env n))) (ce_save (env n)) (rs_fs st)
      (cfg_SaveDir (rs_cfg st)) name kind uti r = Some (res, fs')" "store_ready env (st\<lparr>rs_fs := fs'\<rparr>, Suc n)"
    "case res of
       Inl e \<Rightarrow> map_of fs' = map_of (rs_fs st)
     | Inr (p, k) \<Rightarrow> map_of (rs_fs st) p = None \<and> map_of fs' = (map_of (rs_fs st))(p \<mapsto> FBytes (src_data r)) \<and>
         k = int (length (src_data r))"
    by blast
  show ?case using r unfolding s concrete_ops_def SaveClipboardItem_def with_fs_def by (cases res) auto
next
  case (2 s tx)
  obtain st n where s: "s = (st, n)" by (cases s)
  let ?R = "\<lparr>src_data = tx, src_fails = False\<rparr>"
  show ?case
  proof (cases "\<not> cfg_SaveTextToDisk (rs_cfg st) \<and> int (length tx) \<le> cfg_LongTextThreshold (rs_cfg st)")
    case True
    have "store_ready env (st, Suc n)" using 2 by (simp add: s store_ready_def)
    then show ?thesis using True by (simp add: s concrete_ops_def SaveClipboardText_def)
  next
    case False
    from save_in_dir[OF 2[unfolded s] refl, of "ce_symlinks (env n)" "ce_now (env n)" "TextFileName (ce_now (env n))" KindFile
        "''public.plain-text''" ?R "Suc n"]
    obtain res fs' where r: "saveStream (SafeLeaf (ce_symlinks (env n)) (ce_now (env n))) (ce_save (env n)) (rs_fs st)
        (cfg_SaveDir (rs_cfg st)) (TextFileName (ce_now (env n))) KindFile ''public.plain-text''
        ?R = Some (res, fs')" "store_ready env (st\<lparr>rs_fs := fs'\<rparr>, Suc n)"
      "case res of
         Inl e \<Rightarrow> map_of fs' = map_of (rs_fs st)
       | Inr (p, k) \<Rightarrow> map_of (rs_fs st) p = None \<and> map_of fs' = (map_of (rs_fs st))(p \<mapsto> FBytes (src_data ?R)) \<and> k = int (length (src_data ?R))"
      by blast
    show ?thesis
      using r False unfolding s concrete_ops_def SaveClipboardText_def with_fs_def
      by (cases res) auto
  qed
next
  case (3 s paths sender)
  then show ?case by (cases s) (simp add: concrete_ops_def FinishClipboard_def Let_def)
next
  case (4 s p)
  then show ?case by (cases s) (auto simp: concrete_ops_def store_ready_def temp_free_def)
qed

section \<open>Properties\<close>


definition witness_call :: call_env where
  "witness_call = \<lparr>ce_save = calm_env, ce_journal = witness_env,
     ce_now = \<lparr>t_year = 2024, t_month = 1, t_day = 2, t_hour = 3, t_minute = 4, t_second = 5, t_milli = 6\<rparr>,
     ce_symlinks = (\<lambda>d. Some d), ce_last = \<lparr>we_hex = ''01'', we_fault = WriteOk\<rparr>,
     ce_recents = \<lparr>we_hex = ''02'', we_fault = WriteOk\<rparr>, ce_time = 7\<rparr>"

lemma witness_calm: "calm calm_env \<and> sv_race1 calm_env fs = fs"
  by (simp add: calm_def calm_env_def hex_ok_def)


text \<open>On the agent channel a payload over the cap is refused with \<open>ErrTooLarge\<close>, but the item
  has been enqueued before the check: a receiver is then handed a path whose file has been
  removed.\<close>

lemma agent_too_large_leaves_dangling_item:
  assumes "dir_ok (cfg_AgentInboxDir (rs_cfg st))" and "calm (ce_save (env n))" and "sv_race1 (ce_save (env n)) (rs_fs st) = rs_fs st"
    and "temp_free (sv_write (ce_save (env n))) (rs_fs st) (cfg_AgentInboxDir (rs_cfg st))"
    and "we_fault (sv_write (ce_save (env n))) = WriteOk"
    and "ce_symlinks (env n) (cfg_AgentInboxDir (rs_cfg st)) = Some (cfg_AgentInboxDir (rs_cfg st))"
    and "\<not> cfg_JournalAgentItems (rs_cfg st)" and "rs_agent st = fifo_empty"
    and "maxBytes < int (length data)" and "kind = KindImage \<or> kind = KindFile"
  shows "\<exists>st' n' it st'' p.
    Ingest (concrete_ops env) maxBytes
      [\<lparr>it_kind = kind, it_name = name, it_uti = uti, it_mime = mime, it_channel = ChannelAgent,
        it_reader = Some \<lparr>src_data = data, src_fails = False\<rparr>\<rparr>] (st, n) = Some (Inl ErrTooLarge, (st', n')) \<and>
    RecvNow st' = (Some it, st'') \<and> ai_path it = Some p \<and> map_of (rs_fs st') p = None"
proof -
  let ?dir = "cfg_AgentInboxDir (rs_cfg st)" and ?r = "\<lparr>src_data = data, src_fails = False\<rparr>"
  let ?san = "SafeLeaf (ce_symlinks (env n)) (ce_now (env n))"
  obtain es where es: "\<forall>e\<in>set es. leaf_elem e" "?dir = abs_dir es" using assms(1) by (auto simp: dir_ok_def)
  have leaf: "?san name kind uti ?dir = Inr (CleanLeaf (ce_now (env n)) name kind uti)"
  proof (rule SafeLeaf_ok[OF es(1)])
    have "evalDir (ce_symlinks (env n)) ?dir = ?dir" using assms(6) by (simp add: evalDir_def)
    then show "evalDir (ce_symlinks (env n)) ?dir = abs_dir es" using es(2) by (rule trans)
  qed
  have free: "temp_free (sv_write (ce_save (env n))) (sv_race1 (ce_save (env n)) (rs_fs st)) ?dir"
    unfolding assms(3) by (rule assms(4))
  obtain res fs' where s0: "saveStream ?san (ce_save (env n)) (rs_fs st) ?dir name kind uti ?r = Some (res, fs')"
    and e: "case res of Inl e \<Rightarrow> True | Inr (p, k) \<Rightarrow> k = int (length (src_data ?r))"
    and i: "\<not> isl (?san name kind uti ?dir) \<and> we_fault (sv_write (ce_save (env n))) = WriteOk \<and> \<not> src_fails ?r \<longrightarrow> \<not> isl res"
    using default_sanitizer.saveStream_spec[OF assms(1,2) free, of "ce_symlinks (env n)" "ce_now (env n)" name kind uti ?r]
    by (force split: sum.splits)
  have "\<not> isl res" using i leaf assms(5) by simp
  then obtain p k where res: "res = Inr (p, k)" by (cases res) auto
  have s: "saveStream ?san (ce_save (env n)) (rs_fs st) ?dir name kind uti ?r = Some (Inr (p, k), fs')"
    and k: "k = int (length data)" using s0 e res by simp_all
  define it where "it = \<lparr>ai_type = (if kind = KindImage then ''image'' else ''file''), ai_sender = [], ai_path = Some p, ai_text = None\<rparr>"
  define st1 where "st1 = st\<lparr>rs_fs := fs', rs_agent := enqueue [it] (rs_agent st)\<rparr>"
  have sv: "SaveAgentItem ?san (ce_save (env n)) (ce_journal (env n)) st [] name kind uti ?r = Some (Inr (p, k), st1)"
    using assms(7) s by (simp add: SaveAgentItem_def with_fs_def journal_item_def st1_def it_def Let_def)
  let ?st' = "st1\<lparr>rs_fs := fs_remove p (rs_fs st1)\<rparr>"
  have "Ingest (concrete_ops env) maxBytes
      [\<lparr>it_kind = kind, it_name = name, it_uti = uti, it_mime = mime, it_channel = ChannelAgent,
        it_reader = Some ?r\<rparr>] (st, n) = Some (Inl ErrTooLarge, (?st', Suc n))"
    using assms(9,10) sv k by (simp add: Ingest_def ingestAgent_def concrete_ops_def senderOf_def)
  moreover have "\<exists>st''. RecvNow ?st' = (Some it, st'')"
    by (simp add: RecvNow_def recv_begin_def st1_def assms(8) enqueue_def fifo_empty_def)
  ultimately show ?thesis by (auto simp: it_def)
qed

lemma agent_too_large_leaves_dangling_item_witness:
  "\<exists>st' n' it st'' p.
    Ingest (concrete_ops (\<lambda>k. witness_call)) 4
      [\<lparr>it_kind = KindFile, it_name = ''f'', it_uti = [], it_mime = [], it_channel = ChannelAgent,
        it_reader = Some \<lparr>src_data = ''01234'', src_fails = False\<rparr>\<rparr>] (witness_store False, 0) = Some (Inl ErrTooLarge, (st', n')) \<and>
    RecvNow st' = (Some it, st'') \<and> ai_path it = Some p \<and> map_of (rs_fs st') p = None"
  by (rule agent_too_large_leaves_dangling_item)
    (use witness_dir witness_calm in \<open>simp_all add: witness_store_def newConcrete_def witness_call_def temp_free_def calm_env_def\<close>)

end
