(* ===== verification/Codec.thy ===== *)
theory Codec
  imports Prelude
begin

text \<open>
  Prefix codecs: an encoder and a decoder on byte strings such that decoding an encoding
  followed by anything gives the value and the rest back. What a frame format needs of its
  parts is proved once here; the varint and string codecs of the CB01 frame are instances.
\<close>

locale prefix_codec =
  fixes enc :: "'a \<Rightarrow> string"
    and dec :: "string \<Rightarrow> ('a \<times> string) option"
    and wf :: "'a \<Rightarrow> bool"
  assumes dec_enc: "wf a \<Longrightarrow> dec (enc a @ r) = Some (a, r)"
begin

lemma unique_parse:
  assumes "wf a" and "wf b" and "enc a @ r = enc b @ s"
  shows "a = b \<and> r = s"
proof -
  have "Some (a, r) = dec (enc b @ s)" using dec_enc[OF assms(1), of r] assms(3) by metis
  then show ?thesis using dec_enc[OF assms(2), of s] by simp
qed

lemma enc_inj: "wf a \<Longrightarrow> wf b \<Longrightarrow> enc a = enc b \<Longrightarrow> a = b"
  using unique_parse[of a b "[]" "[]"] by simp

lemma dec_enc_Nil: "wf a \<Longrightarrow> dec (enc a) = Some (a, [])"
  using dec_enc[of a "[]"] by simp

lemma concat_unique:
  assumes "length xs = length ys" and "\<forall>x\<in>set xs. wf x" and "\<forall>y\<in>set ys. wf y"
    and "concat (map enc xs) @ r = concat (map enc ys) @ s"
  shows "xs = ys \<and> r = s"
  using assms
proof (induction xs ys rule: list_induct2)
  case (Cons x xs y ys)
  have "enc x @ concat (map enc xs) @ r = enc y @ concat (map enc ys) @ s"
    using Cons.prems(3) by simp
  from unique_parse[OF _ _ this] Cons.prems(1,2)
  have "x = y \<and> concat (map enc xs) @ r = concat (map enc ys) @ s" by auto
  moreover have "xs = ys \<and> r = s"
    by (rule Cons.IH) (use Cons.prems calculation in auto)
  ultimately show ?case by simp
qed simp

end

section \<open>encoding/binary varints\<close>

text \<open>\<open>PutUvarint\<close> and \<open>ReadUvarint\<close>. The reader accepts at most ten bytes, the tenth at most
  1, so the value fits 64 bits; \<open>None\<close> is an end of input or an overflow.\<close>

fun put_uvarint :: "nat \<Rightarrow> string" where
  "put_uvarint x = (if x < 128 then [byte x] else byte (x mod 128 + 128) # put_uvarint (x div 128))"

declare put_uvarint.simps [simp del]

fun read_uvarint_at :: "nat \<Rightarrow> nat \<Rightarrow> string \<Rightarrow> (nat \<times> string) option" where
  "read_uvarint_at i x [] = None"
| "read_uvarint_at i x (b # r) =
     (if 10 \<le> i then None
      else if code b < 128 then
        if i = 9 \<and> 1 < code b then None else Some (x + code b * 2 ^ (7 * i), r)
      else read_uvarint_at (Suc i) (x + code b mod 128 * 2 ^ (7 * i)) r)"

definition read_uvarint :: "string \<Rightarrow> (nat \<times> string) option" where
  "read_uvarint s = read_uvarint_at 0 0 s"

lemma read_uvarint_at_put:
  "i \<le> 9 \<Longrightarrow> n < 2 ^ (64 - 7 * i) \<Longrightarrow>
     read_uvarint_at i x (put_uvarint n @ r) = Some (x + n * 2 ^ (7 * i), r)"
proof (induction n arbitrary: i x rule: put_uvarint.induct)
  case (1 n)
  show ?case
  proof (cases "n < 128")
    case True
    have "\<not> (i = 9 \<and> 1 < n)" using 1 by auto
    then show ?thesis using True "1.prems" by (auto simp: put_uvarint.simps[of n])
  next
    case False
    have "i \<noteq> 9" using False "1.prems" by auto
    then have i: "Suc i \<le> 9" using "1.prems" by simp
    then have "64 - 7 * i = 7 + (64 - 7 * Suc i)" by simp
    then have "n < 128 * 2 ^ (64 - 7 * Suc i)" using "1.prems"(2) by (simp only: power_add) simp
    then have d: "n div 128 < 2 ^ (64 - 7 * Suc i)" by (simp add: less_mult_imp_div_less mult.commute)
    have "n * 2 ^ (7 * i) = (n mod 128 + n div 128 * 128) * 2 ^ (7 * i)" by simp
    then have v: "n mod 128 * 2 ^ (7 * i) + n div 128 * 2 ^ (7 * Suc i) = n * 2 ^ (7 * i)"
      unfolding distrib_right by (simp add: power_add)
    have c: "code (byte (n mod 128 + 128)) = n mod 128 + 128"
      by (rule code_byte) (use mod_less_divisor[of 128 n] in linarith)
    have "read_uvarint_at i x (put_uvarint n @ r) =
        read_uvarint_at (Suc i) (x + n mod 128 * 2 ^ (7 * i)) (put_uvarint (n div 128) @ r)"
      using False i by (subst put_uvarint.simps) (simp add: c del: power_Suc)
    also have "\<dots> = Some (x + n mod 128 * 2 ^ (7 * i) + n div 128 * 2 ^ (7 * Suc i), r)"
      by (rule "1.IH"[OF False i d])
    finally show ?thesis using v by (simp add: add.assoc del: mult_Suc_right power_Suc)
  qed
qed

lemma read_put_uvarint: "n < 2 ^ 64 \<Longrightarrow> read_uvarint (put_uvarint n @ r) = Some (n, r)"
  using read_uvarint_at_put[of 0 n 0 r] by (simp add: read_uvarint_def)

interpretation uvarint: prefix_codec put_uvarint read_uvarint "\<lambda>n. n < 2 ^ 64"
  by unfold_locales (rule read_put_uvarint)

end
