(* ===== verification/Cb01.thy ===== *)
theory Cb01
  imports Codec Wire Sanitize
begin

text \<open>
  Package \<open>sshx\<close>, files \<open>cb01.go\<close> and \<open>cb01_map.go\<close>: the raw-bytes frame of the SSH push. The
  encoder's sink is the byte string it writes. The decoder reads a byte string, the whole
  input stream; an item's payload reader is modelled by the bytes it yields when it is consumed in
  order. Temporary files (the spills of all payloads but the last) are a list of live ids, and their
  creation may fail. The slice the decoder allocates for the declared count panics above what
  the runtime can allocate, which is a parameter.
\<close>

section \<open>Constants and byte mappings\<close>

definition cb01Magic :: string where "cb01Magic = ''CB01''"
definition cb01ChannelClipboard :: char where "cb01ChannelClipboard = CHR 0x00"
definition cb01ChannelAgent :: char where "cb01ChannelAgent = CHR 0x01"
definition cb01KindImage :: char where "cb01KindImage = CHR 0x00"
definition cb01KindFile :: char where "cb01KindFile = CHR 0x01"
definition cb01KindText :: char where "cb01KindText = CHR 0x02"

definition cb01MaxStringLen :: nat where
  "cb01MaxStringLen = 64 * 1024"

definition ChannelByte :: "string \<Rightarrow> char" where
  "ChannelByte channel = (if channel = ChannelAgent then cb01ChannelAgent else cb01ChannelClipboard)"

definition ChannelString :: "char \<Rightarrow> string" where
  "ChannelString b = (if b = cb01ChannelAgent then ChannelAgent else ChannelClipboard)"

definition KindByte :: "string \<Rightarrow> char" where
  "KindByte kind =
     (if kind = KindFile then cb01KindFile
      else if kind = KindText then cb01KindText
      else cb01KindImage)"

definition KindString :: "char \<Rightarrow> string" where
  "KindString b =
     (if b = cb01KindFile then KindFile
      else if b = cb01KindText then KindText
      else KindImage)"

section \<open>Encoding\<close>

datatype enc_error = EncBadFrame | EncShortPayload

record cb01_item =
  ci_kind :: char
  ci_name :: string
  ci_uti :: string
  ci_mime :: string
  ci_payload :: string

text \<open>An item with its payload source: \<open>None\<close> is the nil reader.\<close>

record cb01_source =
  cs_kind :: char
  cs_name :: string
  cs_uti :: string
  cs_mime :: string
  cs_payload :: "string option"
  cs_size :: int

definition write_string :: "string \<Rightarrow> string" where
  "write_string s = put_uvarint (length s) @ s"

definition uint64_of :: "int \<Rightarrow> nat" where
  "uint64_of n = nat (n mod 2 ^ 64)"

definition encode_item :: "cb01_source \<Rightarrow> (enc_error, string) result" where
  "encode_item it =
     (let meta = cs_kind it # write_string (cs_name it) @ write_string (cs_uti it) @ write_string (cs_mime it)
                 @ put_uvarint (uint64_of (cs_size it))
      in if 0 < cs_size it then
           (case cs_payload it of
              None \<Rightarrow> Inl EncBadFrame
            | Some src \<Rightarrow>
                if length src < nat (cs_size it) then Inl EncShortPayload
                else Inr (meta @ take (nat (cs_size it)) src))
         else Inr meta)"

fun encode_items :: "cb01_source list \<Rightarrow> (enc_error, string) result" where
  "encode_items [] = Inr []"
| "encode_items (it # its) =
     bind_result (encode_item it) (\<lambda>b. bind_result (encode_items its) (\<lambda>bs. Inr (b @ bs)))"

definition EncodeCB01Streaming :: "char \<Rightarrow> cb01_source list \<Rightarrow> (enc_error, string) result" where
  "EncodeCB01Streaming channel items =
     (if items = [] then Inl EncBadFrame
      else bind_result (encode_items items) (\<lambda>body.
        Inr (cb01Magic @ [channel] @ put_uvarint (length items) @ body)))"

definition EncodeCB01 :: "char \<Rightarrow> cb01_item list \<Rightarrow> (enc_error, string) result" where
  "EncodeCB01 channel items =
     EncodeCB01Streaming channel
       (map (\<lambda>it. \<lparr>cs_kind = ci_kind it, cs_name = ci_name it, cs_uti = ci_uti it, cs_mime = ci_mime it,
                   cs_payload = Some (ci_payload it), cs_size = int (length (ci_payload it))\<rparr>) items)"

section \<open>Decoding\<close>

datatype dec_error = ErrBadFrame | ErrTempFile | MakeSlicePanic

text \<open>The outcome of creating and rewinding the temporary file of an item.\<close>

datatype temp_fault = TempOk | TempCreateFails | TempSeekFails

record cb01_reader =
  cr_kind :: char
  cr_name :: string
  cr_uti :: string
  cr_mime :: string
  cr_payload :: string
  cr_size :: int
  cr_spill :: "nat option"

definition read_string :: "string \<Rightarrow> (string \<times> string) option" where
  "read_string s =
     (case read_uvarint s of
        None \<Rightarrow> None
      | Some (n, r) \<Rightarrow>
          if n = 0 then Some ([], r)
          else if cb01MaxStringLen < n then None
          else if length r < n then None
          else Some (take n r, drop n r))"

definition int64_of :: "nat \<Rightarrow> int" where
  "int64_of n = wrap64 (int n)"

text \<open>\<open>spillPayload\<close>: the copied bytes and the rest of the stream; the temporary file is removed
  when the copy is short or the rewind fails.\<close>

definition spillPayload ::
  "temp_fault \<Rightarrow> nat \<Rightarrow> string \<Rightarrow> int \<Rightarrow> nat list \<Rightarrow> (dec_error, string \<times> string) result \<times> nat list" where
  "spillPayload fault path s n live =
     (if fault = TempCreateFails then (Inl ErrTempFile, live)
      else let live1 = path # live in
        if 0 < n \<and> length s < nat n then (Inl ErrBadFrame, removeAll path live1)
        else if fault = TempSeekFails then (Inl ErrTempFile, removeAll path live1)
        else (Inr (take (nat n) s, drop (nat n) s), live1))"

text \<open>The metadata of one item.\<close>

definition decode_meta :: "string \<Rightarrow> ((char \<times> string \<times> string \<times> string \<times> nat) \<times> string) option" where
  "decode_meta s =
     (case s of
        [] \<Rightarrow> None
      | kind # s1 \<Rightarrow> (case read_string s1 of
          None \<Rightarrow> None
        | Some (name, s2) \<Rightarrow> (case read_string s2 of
            None \<Rightarrow> None
          | Some (uti, s3) \<Rightarrow> (case read_string s3 of
              None \<Rightarrow> None
            | Some (mime, s4) \<Rightarrow> (case read_uvarint s4 of
                None \<Rightarrow> None
              | Some (plen, s5) \<Rightarrow> Some ((kind, name, uti, mime, plen), s5))))))"

definition decodeItem ::
  "temp_fault \<Rightarrow> nat \<Rightarrow> bool \<Rightarrow> string \<Rightarrow> nat list \<Rightarrow> (dec_error, cb01_reader \<times> string) result \<times> nat list" where
  "decodeItem fault path is_last s live =
     (case decode_meta s of
        None \<Rightarrow> (Inl ErrBadFrame, live)
      | Some ((kind, name, uti, mime, plen), s') \<Rightarrow>
          let it = \<lparr>cr_kind = kind, cr_name = name, cr_uti = uti, cr_mime = mime,
                    cr_payload = [], cr_size = int64_of plen, cr_spill = None\<rparr> in
          if is_last then (Inr (it\<lparr>cr_payload := take (nat (int64_of plen)) s'\<rparr>, []), live)
          else (case spillPayload fault path s' (int64_of plen) live of
              (Inl e, live') \<Rightarrow> (Inl e, live')
            | (Inr (data, rest), live') \<Rightarrow> (Inr (it\<lparr>cr_payload := data, cr_spill := Some path\<rparr>, rest), live')))"

text \<open>Closing the spills already made, on an error.\<close>

definition close_spills :: "cb01_reader list \<Rightarrow> nat list \<Rightarrow> nat list" where
  "close_spills items live = filter (\<lambda>i. Some i \<notin> cr_spill ` set items) live"

fun decode_loop ::
  "(nat \<Rightarrow> temp_fault) \<Rightarrow> nat \<Rightarrow> nat \<Rightarrow> string \<Rightarrow> cb01_reader list \<Rightarrow> nat list \<Rightarrow>
     (dec_error, cb01_reader list) result \<times> nat list" where
  "decode_loop faults i 0 s items live = (Inr items, live)"
| "decode_loop faults i (Suc k) s items live =
     (case decodeItem (faults i) i (k = 0) s live of
        (Inl e, live') \<Rightarrow> (Inl e, close_spills items live')
      | (Inr (it, s'), live') \<Rightarrow> decode_loop faults (Suc i) k s' (items @ [it]) live')"

definition DecodeCB01 ::
  "nat \<Rightarrow> (nat \<Rightarrow> temp_fault) \<Rightarrow> string \<Rightarrow> (dec_error, char \<times> cb01_reader list) result \<times> nat list" where
  "DecodeCB01 alloc_max faults s =
     (if length s < length cb01Magic \<or> take (length cb01Magic) s \<noteq> cb01Magic then (Inl ErrBadFrame, [])
      else (case drop (length cb01Magic) s of
          [] \<Rightarrow> (Inl ErrBadFrame, [])
        | ch # s1 \<Rightarrow> (case read_uvarint s1 of
            None \<Rightarrow> (Inl ErrBadFrame, [])
          | Some (count, s2) \<Rightarrow>
              if count < 1 then (Inl ErrBadFrame, [])
              else if alloc_max < count then (Inl MakeSlicePanic, [])
              else (case decode_loop faults 0 (nat (int64_of count)) s2 [] [] of
                  (Inl e, live) \<Rightarrow> (Inl e, live)
                | (Inr items, live) \<Rightarrow> (Inr (ch, items), live)))))"

subsection \<open>The bounded payload reader\<close>

text \<open>One \<open>Read\<close> of \<open>guardedReader\<close> over the rest of the stream: the buffer has \<open>plen\<close> bytes and
  the reader below delivers at most \<open>avail\<close> of them; an empty result is the end of file.\<close>

definition guarded_read :: "nat \<Rightarrow> nat \<Rightarrow> int \<Rightarrow> string \<Rightarrow> string \<times> int \<times> string" where
  "guarded_read plen avail remaining s =
     (if remaining \<le> 0 then ([], remaining, s)
      else let p = (if remaining < int plen then nat remaining else plen);
               out = take (min p avail) s
           in (out, remaining - int (length out), drop (length out) s))"

text \<open>Reading to the end with a buffer of \<open>Suc b\<close> bytes, the \<open>i\<close>-th read delivering at most
  \<open>Suc (avail i)\<close> bytes.\<close>

function guarded_all :: "(nat \<Rightarrow> nat) \<Rightarrow> nat \<Rightarrow> nat \<Rightarrow> int \<Rightarrow> string \<Rightarrow> string" where
  "guarded_all avail b i remaining s =
     (case guarded_read (Suc b) (Suc (avail i)) remaining s of
        (out, remaining', s') \<Rightarrow>
          if out = [] then [] else out @ guarded_all avail b (Suc i) remaining' s')"
  by pat_completeness auto
termination
  by (relation "measure (\<lambda>(avail, b, i, remaining, s). length s)")
    (auto simp: guarded_read_def Let_def split: if_splits)

declare guarded_all.simps [simp del]

lemma guarded_all_take: "guarded_all avail b i remaining s = take (nat remaining) s"
proof (induction avail b i remaining s rule: guarded_all.induct)
  case (1 avail b i remaining s)
  obtain out remaining' s' where g: "guarded_read (Suc b) (Suc (avail i)) remaining s = (out, remaining', s')"
    by (metis prod_cases3)
  show ?case
  proof (cases "out = []")
    case True
    then have "remaining \<le> 0 \<or> s = []" using g by (auto simp: guarded_read_def Let_def split: if_splits)
    then show ?thesis using True g by (subst guarded_all.simps) auto
  next
    case False
    then have r: "0 < remaining" and o: "out = take (length out) s" "length out \<le> nat remaining"
      and r': "remaining' = remaining - int (length out)" and s': "s' = drop (length out) s"
      using g by (auto simp: guarded_read_def Let_def min_def split: if_splits)
    have nd: "nat remaining' = nat remaining - length out" using r r' by arith
    have "guarded_all avail b i remaining s = out @ take (nat remaining') s'"
      using False "1.IH"[OF g[symmetric] refl False] g by (subst guarded_all.simps) simp
    also have "\<dots> = take (length out) s @ take (nat remaining - length out) (drop (length out) s)"
      using o(1) s' nd by simp
    also have "\<dots> = take (nat remaining) s"
      using o(2) by (metis append_take_drop_id le_add_diff_inverse take_add)
    finally show ?thesis .
  qed
qed

section \<open>The string codec\<close>

lemma read_write_string:
  assumes "length s \<le> cb01MaxStringLen"
  shows "read_string (write_string s @ r) = Some (s, r)"
proof -
  have "length s < 2 ^ 64" using assms by (simp add: cb01MaxStringLen_def)
  from uvarint.dec_enc[OF this, of "s @ r"] assms show ?thesis
    by (auto simp: read_string_def write_string_def)
qed

interpretation cb01_string: prefix_codec write_string read_string "\<lambda>s. length s \<le> cb01MaxStringLen"
  by unfold_locales (rule read_write_string)

section \<open>Frames the encoder writes\<close>

text \<open>What a frame can carry: metadata within the string bound, payloads of an \<open>int64\<close> length.\<close>

definition item_ok :: "cb01_item \<Rightarrow> bool" where
  "item_ok it \<longleftrightarrow> length (ci_name it) \<le> cb01MaxStringLen \<and> length (ci_uti it) \<le> cb01MaxStringLen \<and>
     length (ci_mime it) \<le> cb01MaxStringLen \<and> length (ci_payload it) < 2 ^ 63"

definition item_meta :: "cb01_item \<Rightarrow> string" where
  "item_meta it = ci_kind it # write_string (ci_name it) @ write_string (ci_uti it) @ write_string (ci_mime it)
     @ put_uvarint (length (ci_payload it))"

definition item_bytes :: "cb01_item \<Rightarrow> string" where
  "item_bytes it = item_meta it @ ci_payload it"

definition reader_of :: "cb01_item \<Rightarrow> nat option \<Rightarrow> cb01_reader" where
  "reader_of it sp = \<lparr>cr_kind = ci_kind it, cr_name = ci_name it, cr_uti = ci_uti it, cr_mime = ci_mime it,
     cr_payload = ci_payload it, cr_size = int (length (ci_payload it)), cr_spill = sp\<rparr>"

definition item_of :: "cb01_reader \<Rightarrow> cb01_item" where
  "item_of r = \<lparr>ci_kind = cr_kind r, ci_name = cr_name r, ci_uti = cr_uti r, ci_mime = cr_mime r,
     ci_payload = cr_payload r\<rparr>"

lemma item_of_reader_of [simp]: "item_of (reader_of it sp) = it"
  by (simp add: item_of_def reader_of_def)

definition source_of :: "cb01_item \<Rightarrow> cb01_source" where
  "source_of it = \<lparr>cs_kind = ci_kind it, cs_name = ci_name it, cs_uti = ci_uti it, cs_mime = ci_mime it,
     cs_payload = Some (ci_payload it), cs_size = int (length (ci_payload it))\<rparr>"

lemma int64_of_id: "n < 2 ^ 63 \<Longrightarrow> int64_of n = int n"
  unfolding int64_of_def by (rule wrap64_id) simp_all

lemma encode_source: "item_ok it \<Longrightarrow> encode_item (source_of it) = Inr (item_bytes it)"
proof -
  assume "item_ok it"
  then have "int (length (ci_payload it)) < 2 ^ 63" by (simp add: item_ok_def)
  then have "uint64_of (int (length (ci_payload it))) = length (ci_payload it)"
    by (simp add: uint64_of_def)
  then show ?thesis by (simp add: encode_item_def source_of_def item_bytes_def item_meta_def Let_def)
qed

lemma encode_sources:
  "\<forall>it\<in>set its. item_ok it \<Longrightarrow> encode_items (map source_of its) = Inr (concat (map item_bytes its))"
  by (induction its) (simp_all add: encode_source)

lemma EncodeCB01_frame:
  assumes "its \<noteq> []" and "\<forall>it\<in>set its. item_ok it"
  shows "EncodeCB01 ch its = Inr (cb01Magic @ [ch] @ put_uvarint (length its) @ concat (map item_bytes its))"
  using assms encode_sources[OF assms(2)]
  by (simp add: EncodeCB01_def EncodeCB01Streaming_def source_of_def[abs_def])

lemma decode_meta_item:
  assumes "item_ok it"
  shows "decode_meta (item_meta it @ r) =
     Some ((ci_kind it, ci_name it, ci_uti it, ci_mime it, length (ci_payload it)), r)"
proof -
  have "length (ci_payload it) < 2 ^ 64" using assms by (simp add: item_ok_def)
  from uvarint.dec_enc[OF this] show ?thesis
    using assms by (simp add: decode_meta_def item_meta_def item_ok_def cb01_string.dec_enc)
qed

lemma decodeItem_last:
  assumes "item_ok it"
  shows "decodeItem f i True (item_meta it @ s) live =
     (Inr ((reader_of it None)\<lparr>cr_payload := take (length (ci_payload it)) s\<rparr>, []), live)"
  using assms decode_meta_item[OF assms, of s]
  by (simp add: decodeItem_def reader_of_def Let_def int64_of_id item_ok_def)

lemma decodeItem_spill:
  assumes "item_ok it"
  shows "decodeItem TempOk i False (item_bytes it @ r) live = (Inr (reader_of it (Some i), r), i # live)"
  using assms decode_meta_item[OF assms, of "ci_payload it @ r"]
  by (simp add: decodeItem_def reader_of_def Let_def int64_of_id item_ok_def item_bytes_def spillPayload_def)

lemma decode_loop_items:
  assumes "its \<noteq> []" and "\<forall>it\<in>set its. item_ok it" and "\<And>j. faults j = TempOk"
  shows "\<exists>rs live'. decode_loop faults i (length its) (concat (map item_bytes its) @ r) acc live = (Inr (acc @ rs), live')
           \<and> map item_of rs = its \<and> length live' = length live + length its - 1"
  using assms(1,2)
proof (induction its arbitrary: i acc live)
  case (Cons it its)
  show ?case
  proof (cases "its = []")
    case True
    have "decodeItem (faults i) i True (item_bytes it @ r) live = (Inr (reader_of it None, []), live)"
      using decodeItem_last[of it "faults i" i "ci_payload it @ r" live] Cons.prems
      by (simp add: item_bytes_def reader_of_def)
    then show ?thesis using True by simp
  next
    case False
    have d: "decodeItem (faults i) i False (item_bytes it @ concat (map item_bytes its) @ r) live =
        (Inr (reader_of it (Some i), concat (map item_bytes its) @ r), i # live)"
      using decodeItem_spill Cons.prems assms(3) by simp
    from Cons.IH[OF False, of "Suc i" "acc @ [reader_of it (Some i)]" "i # live"] Cons.prems
    obtain rs live' where
      "decode_loop faults (Suc i) (length its) (concat (map item_bytes its) @ r) (acc @ [reader_of it (Some i)]) (i # live)
         = (Inr ((acc @ [reader_of it (Some i)]) @ rs), live')"
      and "map item_of rs = its" and "length live' = length (i # live) + length its - 1" by auto
    then show ?thesis using d False
      by (intro exI[of _ "reader_of it (Some i) # rs"] exI[of _ live']) simp
  qed
qed simp

lemma take_cut_tail: "k \<le> length p \<Longrightarrow> take (length (x @ p) - k) (x @ p) = x @ take (length p - k) p"
  by simp

lemma DecodeCB01_header:
  assumes "0 < count" and "count \<le> alloc_max" and "count < 2 ^ 63"
  shows "DecodeCB01 alloc_max faults (cb01Magic @ [ch] @ put_uvarint count @ body) =
     (case decode_loop faults 0 count body [] [] of
        (Inl e, live) \<Rightarrow> (Inl e, live)
      | (Inr items, live) \<Rightarrow> (Inr (ch, items), live))"
proof -
  have "count < 2 ^ 64" using assms(3) by simp
  from uvarint.dec_enc[OF this] show ?thesis
    using assms by (simp add: DecodeCB01_def int64_of_id)
qed

section \<open>Rejected frames leave no temporary file\<close>

lemma spillPayload_live:
  "snd (spillPayload f p s n live) = (case fst (spillPayload f p s n live) of Inl e \<Rightarrow> snd (spillPayload f p s n live) | Inr _ \<Rightarrow> p # live) \<and>
   (fst (spillPayload f p s n live) = Inl e \<longrightarrow> set (snd (spillPayload f p s n live)) \<subseteq> set live)"
  by (auto simp: spillPayload_def Let_def)

lemma decodeItem_live:
  assumes "decodeItem f i l s live = (res, live')"
  shows "case res of Inl e \<Rightarrow> set live' \<subseteq> set live | Inr (it, s') \<Rightarrow> set live' \<subseteq> set live \<union> {j. cr_spill it = Some j}"
proof (cases "decode_meta s")
  case None
  then show ?thesis using assms by (auto simp: decodeItem_def)
next
  case (Some m)
  obtain kind name uti mime plen s' where m: "m = ((kind, name, uti, mime, plen), s')" by (metis prod.collapse)
  obtain r live1 where sp: "spillPayload f i s' (int64_of plen) live = (r, live1)" by fastforce
  show ?thesis
    using assms spillPayload_live[of f i s' "int64_of plen" live] unfolding decodeItem_def Some m Let_def sp
    by (cases l; cases r) (auto simp: sp)
qed

lemma decode_loop_error_clean:
  "decode_loop faults i k s items live = (Inl e, live') \<Longrightarrow>
     set live \<subseteq> {j. Some j \<in> cr_spill ` set items} \<Longrightarrow> live' = []"
proof (induction faults i k s items live rule: decode_loop.induct)
  case (2 faults i k s items live)
  show ?case
  proof (cases "decodeItem (faults i) i (k = 0) s live")
    case (Pair res live1)
    show ?thesis
    proof (cases res)
      case (Inl e1)
      then have "set live1 \<subseteq> {j. Some j \<in> cr_spill ` set items}"
        using "2.prems"(2) decodeItem_live[OF Pair] by auto
      then show ?thesis using "2.prems" Pair Inl by (auto simp: close_spills_def filter_empty_conv)
    next
      case (Inr p)
      obtain it s' where p: "p = (it, s')" by (cases p)
      have sub: "set live1 \<subseteq> {j. Some j \<in> cr_spill ` set (items @ [it])}"
        using "2.prems"(2) decodeItem_live[OF Pair] Inr p by fastforce
      have "decode_loop faults (Suc i) k s' (items @ [it]) live1 = (Inl e, live')"
        using "2.prems"(1) Pair Inr p by simp
      from "2.IH"[OF Pair[symmetric] Inr p[symmetric] this sub] show ?thesis .
    qed
  qed
qed simp

section \<open>Properties\<close>

text \<open>C10. What the sender frames the receiver reads: for metadata within the string bound and a
  count the runtime can allocate, decoding the encoder's frame, whatever follows it on the
  stream, gives the channel and the items with their metadata and payload bytes in order.\<close>

theorem cb01_roundtrip:
  assumes "items \<noteq> []" and "\<forall>it\<in>set items. item_ok it" and "\<And>i. faults i = TempOk"
    and "length items \<le> alloc_max" and "length items < 2 ^ 63"
  shows "\<exists>frame rs live. EncodeCB01 ch items = Inr frame \<and>
           DecodeCB01 alloc_max faults (frame @ trailing) = (Inr (ch, rs), live) \<and> map item_of rs = items"
proof -
  obtain rs live where d: "decode_loop faults 0 (length items) (concat (map item_bytes items) @ trailing) [] []
      = (Inr rs, live)" and "map item_of rs = items"
    using decode_loop_items[where faults = faults and i = 0 and r = trailing and acc = "[]" and live = "[]", OF assms(1-3)] by auto
  moreover have "0 < length items" using assms(1) by simp
  from DecodeCB01_header[OF this assms(4,5), of faults ch "concat (map item_bytes items) @ trailing"] d
  have "DecodeCB01 alloc_max faults
      ((cb01Magic @ [ch] @ put_uvarint (length items) @ concat (map item_bytes items)) @ trailing) = (Inr (ch, rs), live)"
    by simp
  ultimately show ?thesis using EncodeCB01_frame[OF assms(1,2), of ch] by blast
qed

theorem cb01_roundtrip_witness:
  "\<exists>frame rs live. EncodeCB01 cb01ChannelAgent
       [\<lparr>ci_kind = cb01KindImage, ci_name = ''a.png'', ci_uti = [], ci_mime = [], ci_payload = ''raw''\<rparr>,
        \<lparr>ci_kind = cb01KindText, ci_name = [], ci_uti = [], ci_mime = [], ci_payload = ''hi''\<rparr>] = Inr frame \<and>
     DecodeCB01 10 (\<lambda>i. TempOk) (frame @ ''rest'') = (Inr (cb01ChannelAgent, rs), live) \<and>
     map item_of rs =
       [\<lparr>ci_kind = cb01KindImage, ci_name = ''a.png'', ci_uti = [], ci_mime = [], ci_payload = ''raw''\<rparr>,
        \<lparr>ci_kind = cb01KindText, ci_name = [], ci_uti = [], ci_mime = [], ci_payload = ''hi''\<rparr>]"
  by (rule cb01_roundtrip) (simp_all add: item_ok_def cb01MaxStringLen_def)

text \<open>A rejected frame leaves no temporary file behind: whenever the decoder returns an
  error, at any item and for any failure of the temporary files, every spill is removed.\<close>

lemma DecodeCB01_error_clean:
  assumes "DecodeCB01 alloc_max faults s = (Inl e, live)"
  shows "live = []"
  using assms decode_loop_error_clean[of faults 0]
  by (fastforce simp: DecodeCB01_def split: if_splits list.splits option.splits prod.splits sum.splits)

lemma DecodeCB01_error_clean_witness:
  "\<exists>e. DecodeCB01 9 (\<lambda>i. TempOk) (cb01Magic @ [CHR 0x00, CHR 0x02, CHR 0x01, CHR 0x00, CHR 0x00, CHR 0x00, CHR 0x01])
     = (Inl e, [])"
proof -
  have "fst (DecodeCB01 9 (\<lambda>i. TempOk) (cb01Magic @ [CHR 0x00, CHR 0x02, CHR 0x01, CHR 0x00, CHR 0x00, CHR 0x00, CHR 0x01]))
     = Inl ErrBadFrame" by code_simp
  then show ?thesis by (metis DecodeCB01_error_clean prod.collapse)
qed

text \<open>A frame cut off inside its last payload is not rejected: the decoder hands out a reader
  that yields the bytes that did arrive, while the declared size stays the full one. The reader's
  bounded loop yields exactly those bytes whatever the sizes of its reads, so only a comparison with
  the declared size could tell the two apart.\<close>

lemma cb01_truncated_payload_accepted:
  assumes "item_ok it" and "k \<le> length (ci_payload it)" and "1 \<le> alloc_max"
  shows "\<exists>frame r. EncodeCB01 ch [it] = Inr frame \<and>
           DecodeCB01 alloc_max faults (take (length frame - k) frame) = (Inr (ch, [r]), []) \<and>
           cr_payload r = take (length (ci_payload it) - k) (ci_payload it) \<and>
           cr_payload r = guarded_all avail b 0 (cr_size r) (take (length (ci_payload it) - k) (ci_payload it)) \<and>
           cr_size r = int (length (ci_payload it))"
proof -
  let ?p = "take (length (ci_payload it) - k) (ci_payload it)"
  let ?frame = "cb01Magic @ [ch] @ put_uvarint 1 @ item_bytes it"
  have f: "EncodeCB01 ch [it] = Inr ?frame" using EncodeCB01_frame[of "[it]" ch] assms(1) by simp
  have cutp: "take (length ?frame - k) ?frame = cb01Magic @ [ch] @ put_uvarint 1 @ item_meta it @ ?p"
    using take_cut_tail[OF assms(2), of "cb01Magic @ [ch] @ put_uvarint 1 @ item_meta it"]
    by (simp only: item_bytes_def append_assoc)
  have "decode_loop faults 0 1 (item_meta it @ ?p) [] [] = (Inr [(reader_of it None)\<lparr>cr_payload := ?p\<rparr>], [])"
    using decodeItem_last[OF assms(1), of "faults 0" 0 ?p "[]"] by simp
  then have "DecodeCB01 alloc_max faults (take (length ?frame - k) ?frame) =
      (Inr (ch, [(reader_of it None)\<lparr>cr_payload := ?p\<rparr>]), [])"
    unfolding cutp using DecodeCB01_header[of 1 alloc_max faults ch "item_meta it @ ?p"] assms(3) by simp
  with f show ?thesis by (intro exI conjI) (auto simp: reader_of_def guarded_all_take)
qed

lemma cb01_truncated_payload_accepted_witness:
  "\<exists>frame r. EncodeCB01 cb01ChannelAgent [\<lparr>ci_kind = cb01KindFile, ci_name = ''f'', ci_uti = [], ci_mime = [], ci_payload = ''0123''\<rparr>]
       = Inr frame \<and>
     DecodeCB01 1 (\<lambda>i. TempOk) (take (length frame - 3) frame) = (Inr (cb01ChannelAgent, [r]), []) \<and> cr_payload r = ''0'' \<and> cr_size r = 4"
  using cb01_truncated_payload_accepted
    [of "\<lparr>ci_kind = cb01KindFile, ci_name = ''f'', ci_uti = [], ci_mime = [], ci_payload = ''0123''\<rparr>" 3 1 cb01ChannelAgent "\<lambda>i. TempOk"
      "\<lambda>i. 0" 0]
  by (simp add: item_ok_def cb01MaxStringLen_def) blast

end
