(* ===== verification/Exit.thy ===== *)
theory Exit
  imports Prelude
begin

text \<open>
  The exit-code table of the command line (\<open>exit.go\<close>), the coded errors and their mappings
  (\<open>errors.go\<close>), and the last step of a run (\<open>root.go\<close>): from an error to the process status and
  the two output streams. An error is its message, the exit code it carries if it is a coded one,
  and whether it wraps one of the transport's sentinels.
\<close>

section \<open>The table\<close>

definition ExitOK :: int where "ExitOK = 0"
definition ExitGeneric :: int where "ExitGeneric = 1"
definition ExitUsage :: int where "ExitUsage = 2"
definition ExitNothing :: int where "ExitNothing = 3"
definition ExitUnauthorized :: int where "ExitUnauthorized = 4"
definition ExitForbidden :: int where "ExitForbidden = 5"
definition ExitUnreachable :: int where "ExitUnreachable = 6"
definition ExitTooLarge :: int where "ExitTooLarge = 7"
definition ExitConfig :: int where "ExitConfig = 8"
definition ExitRemoteIO :: int where "ExitRemoteIO = 9"

lemmas exit_codes = ExitOK_def ExitGeneric_def ExitUsage_def ExitNothing_def ExitUnauthorized_def
  ExitForbidden_def ExitUnreachable_def ExitTooLarge_def ExitConfig_def ExitRemoteIO_def

section \<open>Errors\<close>

text \<open>The sentinels an error may wrap.\<close>

datatype sentinel =
  SshHostKeyUnknown | SshHostKeyMismatch | SshDialFailed | SshHostKeyCAUnsupported | SshProxyJumpUnsupported

record cli_error =
  ce_message :: string
  ce_code :: "int option"
  ce_wraps :: "sentinel list"

definition plain_error :: "string \<Rightarrow> cli_error" where
  "plain_error msg = \<lparr>ce_message = msg, ce_code = None, ce_wraps = []\<rparr>"

text \<open>\<open>coded\<close>: nil stays nil; the message is the wrapped error's. A new code hides an older one.\<close>

definition coded :: "int \<Rightarrow> cli_error option \<Rightarrow> cli_error option" where
  "coded c err = map_option (\<lambda>e. e\<lparr>ce_code := Some c\<rparr>) err"

definition codedf :: "int \<Rightarrow> string \<Rightarrow> cli_error" where
  "codedf c msg = \<lparr>ce_message = msg, ce_code = Some c, ce_wraps = []\<rparr>"

definition usageError :: "string \<Rightarrow> cli_error" where
  "usageError msg = codedf ExitUsage msg"

definition configError :: "string \<Rightarrow> cli_error" where
  "configError msg = codedf ExitConfig msg"

definition httpStatusToExit :: "int \<Rightarrow> int" where
  "httpStatusToExit status =
     (if status = 401 then ExitUnauthorized
      else if status = 403 then ExitForbidden
      else if status = 413 then ExitTooLarge
      else if status = 500 then ExitRemoteIO
      else if status = 502 then ExitUnreachable
      else if 200 \<le> status \<and> status < 300 then ExitOK
      else if 500 \<le> status then ExitRemoteIO
      else ExitGeneric)"

definition sshErrToExit :: "cli_error option \<Rightarrow> int" where
  "sshErrToExit err =
     (case err of
        None \<Rightarrow> ExitOK
      | Some e \<Rightarrow>
          if SshHostKeyUnknown \<in> set (ce_wraps e) \<or> SshHostKeyMismatch \<in> set (ce_wraps e) \<or> SshDialFailed \<in> set (ce_wraps e)
          then ExitUnreachable
          else if SshHostKeyCAUnsupported \<in> set (ce_wraps e) \<or> SshProxyJumpUnsupported \<in> set (ce_wraps e) then ExitConfig
          else ExitGeneric)"

definition codedSSH :: "cli_error option \<Rightarrow> cli_error option" where
  "codedSSH err = coded (sshErrToExit err) err"

section \<open>The end of a run\<close>

fun contains :: "string \<Rightarrow> string \<Rightarrow> bool" where
  "contains [] p \<longleftrightarrow> p = []"
| "contains (c # s) p \<longleftrightarrow> has_prefix (c # s) p \<or> contains s p"

definition usage_markers :: "string list" where
  "usage_markers = [''unknown command'', ''unknown flag'', ''unknown shorthand flag'', ''accepts '', ''requires '',
     ''invalid argument'', ''flag needs an argument'', ''required flag'']"

definition isUsageError :: "cli_error \<Rightarrow> bool" where
  "isUsageError e = list_ex (\<lambda>p. has_prefix (ce_message e) p \<or> contains (ce_message e) p) usage_markers"

record global_flags =
  gf_json :: bool
  gf_noColor :: bool
  gf_quiet :: bool
  gf_verbose :: bool

text \<open>What a run writes: the two streams. A JSON error envelope is kept as its fields.\<close>

datatype out_event = OutData string | OutErrorJson string int

record streams =
  st_out :: "out_event list"
  st_err :: "string list"

definition exitCodeFor :: "global_flags \<Rightarrow> cli_error option \<Rightarrow> streams \<Rightarrow> int \<times> streams" where
  "exitCodeFor g err st =
     (case err of
        None \<Rightarrow> (ExitOK, st)
      | Some e \<Rightarrow>
          let cd = (case ce_code e of Some c \<Rightarrow> c | None \<Rightarrow> if isUsageError e then ExitUsage else ExitGeneric);
              st1 = (if gf_json g then st\<lparr>st_out := st_out st @ [OutErrorJson (ce_message e) cd]\<rparr> else st);
              st2 = (if \<not> gf_quiet g then st1\<lparr>st_err := st_err st1 @ [''clipbeam: '' @ ce_message e]\<rparr> else st1)
          in (cd, st2))"

definition envFlag :: "string \<Rightarrow> bool" where
  "envFlag v \<longleftrightarrow> v \<noteq> [] \<and> v \<noteq> ''0'' \<and> v \<noteq> ''false''"

definition colorEnabled :: "global_flags \<Rightarrow> string \<Rightarrow> bool \<Rightarrow> bool" where
  "colorEnabled g no_color tty =
     (if gf_json g \<or> gf_noColor g then False else if no_color \<noteq> [] then False else tty)"

definition diag :: "global_flags \<Rightarrow> string \<Rightarrow> streams \<Rightarrow> streams" where
  "diag g msg st = (if gf_quiet g then st else st\<lparr>st_err := st_err st @ [msg]\<rparr>)"

definition trace :: "global_flags \<Rightarrow> string \<Rightarrow> streams \<Rightarrow> streams" where
  "trace g msg st = (if gf_verbose g \<and> \<not> gf_quiet g then st\<lparr>st_err := st_err st @ [msg]\<rparr> else st)"

definition data :: "string \<Rightarrow> streams \<Rightarrow> streams" where
  "data s st = st\<lparr>st_out := st_out st @ [OutData s]\<rparr>"

definition dataln :: "string \<Rightarrow> streams \<Rightarrow> streams" where
  "dataln s st = st\<lparr>st_out := st_out st @ [OutData (s @ [newline])]\<rparr>"

section \<open>Lemmas\<close>

lemma exit_range: "0 \<le> httpStatusToExit s \<and> httpStatusToExit s \<le> 9"
  by (simp add: httpStatusToExit_def exit_codes)

lemma contains_iff: "contains s p \<longleftrightarrow> (\<exists>u v. s = u @ p @ v)"
proof (induction s)
  case (Cons c s)
  have "contains (c # s) p \<longleftrightarrow> has_prefix (c # s) p \<or> (\<exists>u v. s = u @ p @ v)" using Cons by simp
  also have "\<dots> \<longleftrightarrow> (\<exists>u v. c # s = u @ p @ v)"
    by (auto simp: has_prefix_iff Cons_eq_append_conv)
  finally show ?case .
qed simp

section \<open>The table, summed up\<close>

text \<open>The exit status and the streams are deterministic and truthful: a run without
  an error exits 0; a coded error exits with its code whatever its text says, an uncoded one with 2
  when it reads like a usage error and 1 otherwise; under --json the envelope on stdout carries the
  same code, and without it nothing is added to stdout; --quiet silences only stderr. An HTTP status
  maps to 0 exactly for 2xx, to 4, 5, 7 and 6 only for 401, 403, 413 and 502.\<close>

lemma exit_table_sound:
  "fst (exitCodeFor g (Some e) st) =
     (case ce_code e of Some c \<Rightarrow> c | None \<Rightarrow> if \<exists>p\<in>set usage_markers. \<exists>u v. ce_message e = u @ p @ v then 2 else 1) \<and>
   fst (exitCodeFor g None st) = 0 \<and>
   st_out (snd (exitCodeFor g (Some e) st)) =
     st_out st @ (if gf_json g then [OutErrorJson (ce_message e) (fst (exitCodeFor g (Some e) st))] else []) \<and>
   (gf_quiet g \<longrightarrow> st_err (snd (exitCodeFor g (Some e) st)) = st_err st) \<and>
   (httpStatusToExit s = 0 \<longleftrightarrow> 200 \<le> s \<and> s < 300) \<and>
   (httpStatusToExit s = 4 \<longleftrightarrow> s = 401) \<and> (httpStatusToExit s = 5 \<longleftrightarrow> s = 403) \<and>
   (httpStatusToExit s = 7 \<longleftrightarrow> s = 413) \<and> (httpStatusToExit s = 6 \<longleftrightarrow> s = 502) \<and>
   (httpStatusToExit s = 9 \<longleftrightarrow> 500 \<le> s \<and> s \<noteq> 502)"
proof -
  have u: "isUsageError e \<longleftrightarrow> (\<exists>p\<in>set usage_markers. \<exists>u v. ce_message e = u @ p @ v)"
    unfolding isUsageError_def list_ex_iff contains_iff has_prefix_iff by (metis append_Nil)
  have c: "fst (exitCodeFor g (Some e) st) =
      (case ce_code e of Some c \<Rightarrow> c | None \<Rightarrow> if isUsageError e then 2 else 1)"
    by (simp add: exitCodeFor_def Let_def exit_codes split: option.splits)
  moreover have "st_out (snd (exitCodeFor g (Some e) st)) =
      st_out st @ (if gf_json g then [OutErrorJson (ce_message e) (fst (exitCodeFor g (Some e) st))] else [])"
    by (simp add: exitCodeFor_def Let_def)
  moreover have "gf_quiet g \<longrightarrow> st_err (snd (exitCodeFor g (Some e) st)) = st_err st" by (simp add: exitCodeFor_def Let_def)
  moreover have "fst (exitCodeFor g None st) = 0" by (simp add: exitCodeFor_def exit_codes)
  ultimately show ?thesis unfolding u[symmetric] by (auto simp: httpStatusToExit_def exit_codes)
qed

end
