(* ===== verification/Clip.thy ===== *)
theory Clip
  imports ClipParse Ingest Cb01 Exit
begin

text \<open>
  \<open>decodeAndIngest\<close> of \<open>clip.go\<close> and \<open>runIngest\<close> of \<open>verbs_ingest.go\<close>: the two transports that feed
  \<open>Ingest\<close>, the HTTP envelope through scratch files and the CB01 frame through spills, with the
  removal of the temporary files and the classes of their errors. The main result is that the two
  agree: the same items saved through either are the same call of \<open>Ingest\<close>.
\<close>

section \<open>decodeAndIngest\<close>

datatype clip_failure = FromParse clip_error | FromIngest ingest_error

text \<open>The reader of an item: the text, or the opened scratch file (an empty path opens nothing).\<close>

definition item_of_parsed :: "scratch \<Rightarrow> string \<Rightarrow> parsed_item \<Rightarrow> ingest_item option" where
  "item_of_parsed sc channel p =
     (let it = (\<lambda>r. \<lparr>it_kind = pi_kind p, it_name = pi_name p, it_uti = pi_uti p, it_mime = pi_mime p,
                      it_channel = channel, it_reader = Some \<lparr>src_data = r, src_fails = False\<rparr>\<rparr>) in
      if pi_kind p = KindText then Some (it (pi_text p))
      else map_option it (map_of (sc_files sc) (pi_tmpPath p)))"

fun items_of_parsed :: "scratch \<Rightarrow> string \<Rightarrow> parsed_item list \<Rightarrow> ingest_item list option" where
  "items_of_parsed sc channel [] = Some []"
| "items_of_parsed sc channel (p # ps) =
     (case item_of_parsed sc channel p of
        None \<Rightarrow> None
      | Some it \<Rightarrow> map_option ((#) it) (items_of_parsed sc channel ps))"

definition remove_tmps :: "string list \<Rightarrow> scratch \<Rightarrow> scratch" where
  "remove_tmps tmps sc = sc\<lparr>sc_files := filter (\<lambda>f. fst f \<notin> set tmps) (sc_files sc)\<rparr>"

definition decodeAndIngest ::
  "'s receive_store \<Rightarrow> int \<Rightarrow> read_end \<Rightarrow> scratch_env \<Rightarrow> string \<Rightarrow> 's \<times> scratch \<Rightarrow>
   ((clip_failure, clip_response) result \<times> 's \<times> scratch) option" where
  "decodeAndIngest ops maxBytes e env body st =
     (let (s, sc) = st; (r, tmps, sc1) = parseEnvelopeStreaming e env sc body; sc2 = remove_tmps tmps sc1 in
      case r of
        Inl x \<Rightarrow> Some (Inl (FromParse x), s, sc2)
      | Inr (pe, _) \<Rightarrow>
          if pe_version pe \<noteq> 1 \<or> pe_items pe = [] then Some (Inl (FromParse CeUnsupported), s, sc2)
          else (case items_of_parsed sc1 (pe_channel pe) (pe_items pe) of
              None \<Rightarrow> Some (Inl (FromIngest ErrMalformed), s, sc2)
            | Some items \<Rightarrow>
                map_option (\<lambda>(r, s'). (map_sum FromIngest id r, s', sc2)) (Ingest ops maxBytes items s)))"

section \<open>Status classes\<close>

text \<open>\<open>writeClipError\<close>: the status, and the text of an error that is relayed.\<close>

definition clip_status :: "clip_failure \<Rightarrow> nat" where
  "clip_status x =
     (case x of
        FromIngest ErrTooLarge \<Rightarrow> 413
      | FromIngest ErrIngestEscape \<Rightarrow> 500
      | FromIngest ErrMalformed \<Rightarrow> 400
      | FromParse CeMalformed \<Rightarrow> 400
      | FromParse CeUnsupported \<Rightarrow> 400
      | FromParse CeIncomplete \<Rightarrow> 400
      | FromParse CeBadString \<Rightarrow> 400
      | FromParse (CeWire TooBig) \<Rightarrow> 413
      | _ \<Rightarrow> 500)"

section \<open>The items an envelope stands for\<close>

text \<open>What the sender means by an item: text, or a payload.\<close>

definition meant_item :: "string \<Rightarrow> item \<Rightarrow> ingest_item option" where
  "meant_item channel it =
     (let mk = (\<lambda>d. \<lparr>it_kind = utf8_coerce (item_kind it), it_name = coerced (item_name it), it_uti = coerced (item_uti it),
                      it_mime = coerced (item_mime it), it_channel = channel,
                      it_reader = Some \<lparr>src_data = d, src_fails = False\<rparr>\<rparr>) in
      if utf8_coerce (item_kind it) = KindText then Some (mk (coerced (item_text it)))
      else map_option mk (payload_of it))"

fun meant_items :: "string \<Rightarrow> item list \<Rightarrow> ingest_item list option" where
  "meant_items channel [] = Some []"
| "meant_items channel (it # its) =
     (case meant_item channel it of None \<Rightarrow> None | Some x \<Rightarrow> map_option ((#) x) (meant_items channel its))"

text \<open>Scratch names are fresh: no file has a name still to come, and the names differ.\<close>

definition scratch_fresh :: "scratch_env \<Rightarrow> scratch \<Rightarrow> bool" where
  "scratch_fresh env sc \<longleftrightarrow> inj (se_name env) \<and> [] \<notin> fst ` set (sc_files sc) \<and>
     (\<forall>n\<ge>sc_next sc. se_name env n \<notin> fst ` set (sc_files sc))"

lemma map_of_append_fresh: "p \<notin> fst ` set xs \<Longrightarrow> map_of (xs @ ys) p = map_of ys p"
  by (induction xs) auto

lemma scratch_of_fresh:
  assumes "scratch_ok env" and "scratch_fresh env sc"
  shows "scratch_fresh env (scratch_of env sc it)"
proof -
  have nn: "\<forall>n. se_name env n \<noteq> []" using assms(1) by (simp add: scratch_ok_def)
  have inj: "se_name env n = se_name env m \<longleftrightarrow> n = m" for n m using assms(2) by (auto simp: scratch_fresh_def dest: injD)
  show ?thesis
  proof (cases "payload_of it")
    case (Some d)
    have "se_name env (sc_next sc) \<noteq> []" using nn by blast
    then show ?thesis using assms(2) Some by (auto simp: scratch_fresh_def scratch_of_def inj)
  qed (use assms(2) in \<open>simp add: scratch_of_def\<close>)
qed

lemma expect_extends: "expect env sc its = (ps, sc') \<Longrightarrow> \<exists>new. sc_files sc' = sc_files sc @ new"
proof (induction its arbitrary: sc ps)
  case (Cons it its)
  obtain ps1 where "expect env (scratch_of env sc it) its = (ps1, sc')" using Cons.prems by (auto split: prod.splits)
  from Cons.IH[OF this] show ?case by (auto simp: scratch_of_def split: option.splits)
qed simp

text \<open>Opening the scratch files yields the payloads.\<close>

lemma items_of_expected:
  assumes ok: "scratch_ok env"
  shows "scratch_fresh env sc \<Longrightarrow> expect env sc its = (ps, sc') \<Longrightarrow>
    items_of_parsed sc' channel ps = meant_items channel its"
proof (induction its arbitrary: sc ps)
  case (Cons it its)
  obtain ps1 where ps: "expect env (scratch_of env sc it) its = (ps1, sc')" "ps = parsed_of env sc it # ps1"
    using Cons.prems(2) by (auto split: prod.splits)
  have fr: "scratch_fresh env (scratch_of env sc it)" by (rule scratch_of_fresh[OF ok Cons.prems(1)])
  have "item_of_parsed sc' channel (parsed_of env sc it) = meant_item channel it"
  proof (cases "payload_of it")
    case None
    then have b: "item_bytesB64 it = None" "scratch_of env sc it = sc" by (simp_all add: payload_of_def scratch_of_def)
    obtain n where n: "tmp_paths ps1 = map (se_name env) n"
      "sc_files sc' = sc_files sc @ zip (tmp_paths ps1) (payloads its)"
      using expect_facts[OF ok ps(1)] b(2) by auto
    have "[] \<notin> fst ` set (sc_files sc')"
    proof -
      have "fst ` set (zip (tmp_paths ps1) (payloads its)) \<subseteq> set (tmp_paths ps1)" by (auto dest: set_zip_leftD)
      moreover have "[] \<notin> set (tmp_paths ps1)" by (simp add: tmp_paths_def)
      ultimately show ?thesis using n(2) Cons.prems(1) by (auto simp: scratch_fresh_def image_Un)
    qed
    then have "map_of (sc_files sc') [] = None" by (simp add: map_of_eq_None_iff)
    then show ?thesis using None b(1) by (simp add: item_of_parsed_def meant_item_def parsed_of_def Let_def)
  next
    case (Some d)
    then obtain b where b: "item_bytesB64 it = Some b" by (auto simp: payload_of_def)
    obtain new where "sc_files sc' = sc_files (scratch_of env sc it) @ new" using expect_extends[OF ps(1)] by blast
    then have "sc_files sc' = sc_files sc @ (se_name env (sc_next sc), d) # new" using Some by (simp add: scratch_of_def)
    moreover have "se_name env (sc_next sc) \<notin> fst ` set (sc_files sc)" using Cons.prems(1) by (simp add: scratch_fresh_def)
    ultimately have "map_of (sc_files sc') (se_name env (sc_next sc)) = Some d" by (simp add: map_of_append_fresh del: map_of_append)
    then show ?thesis using Some b by (simp add: item_of_parsed_def meant_item_def parsed_of_def Let_def)
  qed
  then show ?case using Cons.IH[OF fr ps(1)] ps(2) by (simp split: option.splits)
qed simp

lemma expect_not_Nil: "expect env sc its = (ps, sc') \<Longrightarrow> ps = [] \<longleftrightarrow> its = []"
  by (cases its) (auto split: prod.splits)

lemma remove_expected:
  assumes "scratch_ok env" and "scratch_fresh env sc" and "expect env sc its = (ps, sc')"
  shows "sc_files (remove_tmps (tmp_paths ps) sc') = sc_files sc"
proof -
  note f = expect_facts[OF assms(1,3)]
  have "filter (\<lambda>f. fst f \<notin> set (tmp_paths ps)) (zip (tmp_paths ps) (payloads its)) = []"
    by (auto simp: filter_empty_conv dest: set_zip_leftD)
  moreover have "filter (\<lambda>f. fst f \<notin> set (tmp_paths ps)) (sc_files sc) = sc_files sc"
  proof (rule filter_True, rule ballI)
    fix x assume x: "x \<in> set (sc_files sc)"
    show "fst x \<notin> set (tmp_paths ps)"
    proof
      assume "fst x \<in> set (tmp_paths ps)"
      then obtain n where "sc_next sc \<le> n" "fst x = se_name env n" using f by auto
      then show False using x assms(2) by (force simp: scratch_fresh_def)
    qed
  qed
  ultimately show ?thesis using f by (simp add: remove_tmps_def)
qed

text \<open>The whole of \<open>decodeAndIngest\<close> on an envelope as the sender writes it.\<close>

lemma decode_marshal:
  assumes ok: "scratch_ok env" and fr: "scratch_fresh env sc" and its: "\<forall>it\<in>set (env_items en). sendable it"
    and v: "env_version en = 1" and ne: "env_items en \<noteq> []"
  shows "\<exists>sc'. sc_files sc' = sc_files sc \<and>
    decodeAndIngest ops maxBytes e env (MarshalEnvelope en @ t) (s, sc) =
      (case meant_items (coerced (env_channel en)) (env_items en) of
         None \<Rightarrow> Some (Inl (FromIngest ErrMalformed), s, sc')
       | Some items \<Rightarrow> map_option (\<lambda>(r, s'). (map_sum FromIngest id r, s', sc')) (Ingest ops maxBytes items s))"
proof -
  obtain ps sc1 where ex: "expect env sc (env_items en) = (ps, sc1)" by fastforce
  have p: "parseEnvelopeStreaming e env sc (MarshalEnvelope en @ t) =
      (Inr (\<lparr>pe_version = env_version en, pe_channel = coerced (env_channel en), pe_items = ps\<rparr>, t), tmp_paths ps, sc1)"
    using parse_envelope_marshal[OF ok its _ _ ex] v by simp
  show ?thesis
    using items_of_expected[OF ok fr ex, of "coerced (env_channel en)"] remove_expected[OF ok fr ex] expect_not_Nil[OF ex] v ne
    by (intro exI[of _ "remove_tmps (tmp_paths ps) sc1"]) (simp add: decodeAndIngest_def p split: option.splits)
qed

section \<open>runIngest\<close>

text \<open>\<open>maxBytesOf\<close>: a non-positive cap is the default.\<close>

definition maxBytesOf :: "int \<Rightarrow> int" where
  "maxBytesOf m = (if 0 < m then m else DefaultMaxBytes)"

definition item_of_reader :: "char \<Rightarrow> cb01_reader \<Rightarrow> ingest_item" where
  "item_of_reader ch r =
     \<lparr>it_kind = KindString (cr_kind r), it_name = cr_name r, it_uti = cr_uti r, it_mime = cr_mime r,
      it_channel = ChannelString ch, it_reader = Some \<lparr>src_data = cr_payload r, src_fails = False\<rparr>\<rparr>"

definition ingestErrToCoded :: "ingest_error \<Rightarrow> int" where
  "ingestErrToCoded e =
     (case e of ErrTooLarge \<Rightarrow> ExitTooLarge | ErrMalformed \<Rightarrow> ExitUsage | _ \<Rightarrow> ExitRemoteIO)"

text \<open>\<open>writePathsNoTrailingNewline\<close>.\<close>

fun write_paths :: "nat \<Rightarrow> string list \<Rightarrow> string" where
  "write_paths i [] = []"
| "write_paths i (p # ps) = (if 0 < i then [newline] else []) @ p @ write_paths (Suc i) ps"

text \<open>A run on a frame: the exit code or the text on stdout, and the store. The huge allocation of a
  hostile count is a panic (status 2 of the Go runtime).\<close>

definition runIngest ::
  "'s receive_store \<Rightarrow> int \<Rightarrow> nat \<Rightarrow> (nat \<Rightarrow> temp_fault) \<Rightarrow> string \<Rightarrow> 's \<Rightarrow> ((int, string) result \<times> 's) option" where
  "runIngest ops cfgMax alloc_max faults stdin s =
     (case DecodeCB01 alloc_max faults stdin of
        (Inl e, live) \<Rightarrow> Some (Inl (if e = MakeSlicePanic then 2 else ExitGeneric), s)
      | (Inr (ch, rs), live) \<Rightarrow>
          map_option (\<lambda>(r, s'). (map_sum ingestErrToCoded (\<lambda>resp. write_paths 0 (resp_saved resp)) r, s'))
            (Ingest ops (maxBytesOf cfgMax) (map (item_of_reader ch) rs) s))"

lemma write_paths_Suc: "write_paths (Suc i) ps = concat (map ((#) newline) ps)"
  by (induction ps arbitrary: i) simp_all

lemma write_paths_0: "write_paths 0 (p # ps) = p @ concat (map ((#) newline) ps)"
  by (simp add: write_paths_Suc)

section \<open>The two transports\<close>

text \<open>An item of a CB01 frame as an envelope item of the same content.\<close>

definition wire_item :: "cb01_item \<Rightarrow> item" where
  "wire_item it =
     (let k = KindString (ci_kind it) in
      \<lparr>item_kind = k, item_name = Some (ci_name it), item_uti = Some (ci_uti it), item_mime = Some (ci_mime it),
       item_bytesB64 = (if k = KindText then None else Some (b64_encode (ci_payload it))),
       item_text = (if k = KindText then Some (ci_payload it) else None)\<rparr>)"

definition wire_envelope :: "char \<Rightarrow> cb01_item list \<Rightarrow> envelope" where
  "wire_envelope ch items =
     \<lparr>env_version = 1, env_sender = [], env_items = map wire_item items, env_channel = Some (ChannelString ch)\<rparr>"

text \<open>JSON carries text: what travels as a string has to be UTF-8.\<close>

definition utf8_item :: "cb01_item \<Rightarrow> bool" where
  "utf8_item it \<longleftrightarrow> valid_utf8 (ci_name it) \<and> valid_utf8 (ci_uti it) \<and> valid_utf8 (ci_mime it) \<and>
     (KindString (ci_kind it) = KindText \<longrightarrow> valid_utf8 (ci_payload it))"

definition ingest_item_of :: "char \<Rightarrow> cb01_item \<Rightarrow> ingest_item" where
  "ingest_item_of ch it =
     \<lparr>it_kind = KindString (ci_kind it), it_name = ci_name it, it_uti = ci_uti it, it_mime = ci_mime it,
      it_channel = ChannelString ch, it_reader = Some \<lparr>src_data = ci_payload it, src_fails = False\<rparr>\<rparr>"

lemma valid_names: "valid_utf8 KindImage" "valid_utf8 KindFile" "valid_utf8 KindText" "valid_utf8 ChannelAgent" "valid_utf8 ChannelClipboard"
  by (simp_all add: valid_utf8_ascii KindImage_def KindFile_def KindText_def ChannelAgent_def ChannelClipboard_def)

lemma valid_KindString [simp]: "utf8_coerce (KindString k) = KindString k"
  by (rule utf8_coerce_valid) (simp add: KindString_def valid_names)

lemma valid_ChannelString [simp]: "utf8_coerce (ChannelString k) = ChannelString k"
  by (rule utf8_coerce_valid) (simp add: ChannelString_def valid_names)

lemma meant_wire_item: "utf8_item it \<Longrightarrow> meant_item (ChannelString ch) (wire_item it) = Some (ingest_item_of ch it)"
  by (simp add: meant_item_def wire_item_def ingest_item_of_def utf8_item_def coerced_def utf8_coerce_valid
      payload_of_def b64_stream_encode Let_def del: b64_encode.simps)

lemma meant_wire_items:
  "\<forall>it\<in>set its. utf8_item it \<Longrightarrow>
     meant_items (ChannelString ch) (map wire_item its) = Some (map (ingest_item_of ch) its)"
  by (induction its) (simp_all add: meant_wire_item)

lemma item_of_reader_items: "map item_of rs = its \<Longrightarrow> map (item_of_reader ch) rs = map (ingest_item_of ch) its"
  by (induction rs arbitrary: its) (auto simp: item_of_reader_def ingest_item_of_def item_of_def)

lemma runIngest_frame:
  assumes ne: "items \<noteq> []" and ok: "\<forall>it\<in>set items. item_ok it" and fa: "\<And>i. faults i = TempOk"
    and len: "length items \<le> alloc_max" "length items < 2 ^ 63"
  shows "\<exists>frame. EncodeCB01 ch items = Inr frame \<and>
    runIngest ops cfg alloc_max faults frame s =
      map_option (\<lambda>(r, s'). (map_sum ingestErrToCoded (\<lambda>resp. write_paths 0 (resp_saved resp)) r, s'))
        (Ingest ops (maxBytesOf cfg) (map (ingest_item_of ch) items) s)"
proof -
  obtain rs live where d: "decode_loop faults 0 (length items) (concat (map item_bytes items)) [] [] = (Inr rs, live)"
    and rs: "map item_of rs = items"
    using decode_loop_items[where faults = faults and i = 0 and r = "[]" and acc = "[]" and live = "[]", OF ne ok fa] by auto
  have "0 < length items" using ne by simp
  from DecodeCB01_header[OF this len, of faults ch "concat (map item_bytes items)"] d
  have "DecodeCB01 alloc_max faults (cb01Magic @ [ch] @ put_uvarint (length items) @ concat (map item_bytes items))
      = (Inr (ch, rs), live)" by simp
  then show ?thesis
    using EncodeCB01_frame[OF ne ok, of ch] item_of_reader_items[OF rs, of ch] by (auto simp: runIngest_def)
qed

section \<open>Two defects of the payload reader\<close>

text \<open>A body that starts an envelope with one item, whose members are \<open>ms\<close>.\<close>

definition one_item_body :: "string \<Rightarrow> string" where
  "one_item_body ms = CHR ''{'' # jmember ''items'' (''[{'' @ ms)"

lemma plain_bytesB64 [simp]: "plain_key ''bytesB64''" "plain_key ''items''"
  by (simp_all add: plain_key_def)

lemma parse_one_item_body:
  "parseEnvelopeStreaming e env sc (one_item_body ms) =
    (case items_loop e env [] [] sc (CHR ''{'' # ms) of
       (Inl x, tmps, sc') \<Rightarrow> (Inl x, tmps, sc')
     | (Inr (its, s2), tmps, sc') \<Rightarrow> envelope_loop e env False (empty_envelope\<lparr>pe_items := its\<rparr>) tmps sc' s2)"
proof -
  have "next_member e True (jmember ''items'' (''[{'' @ ms)) = Inr (Some ''items'', ''[{'' @ ms)"
    using next_member_first[of "''items''" e "''[{'' @ ms" "[]"] by simp
  moreover have "parseItemsStreaming e env sc (''[{'' @ ms) = items_loop e env [] [] sc (CHR ''{'' # ms)"
    by (simp add: parseItemsStreaming_def skipWSThen_def reads)
  ultimately show ?thesis
    by (simp add: parseEnvelopeStreaming_def one_item_body_def expectByte_def reads envelope_loop.simps[of e env True]
        envelope_member_def split: prod.splits sum.splits)
qed

lemma parseOneItem_first:
  assumes "plain_key k"
  shows "parseOneItem e env sc (CHR ''{'' # jmember k v) =
    (case item_member e env k empty_item sc v of
       (Inl x, p', sc') \<Rightarrow> (Inl x, p', sc')
     | (Inr s2, p', sc') \<Rightarrow> item_loop e env False p' sc' s2)"
  using next_member_first[OF assms, of e v "[]"]
  by (simp add: parseOneItem_def skipWSThen_def reads item_loop.simps[of e env True])

lemma item_payload_partial:
  assumes "scratch_ok env" and "b64_stream [] (utf8_coerce v) = (d, B64Partial)"
  shows "item_payload e env p sc (jstr v @ t) =
    (Inl CeUnexpectedEOF, p\<lparr>pi_tmpPath := se_name env (sc_next sc)\<rparr>,
     \<lparr>sc_files = sc_files sc @ [(se_name env (sc_next sc), d)], sc_next = Suc (sc_next sc)\<rparr>)"
proof -
  have "unescape e (marshal_string v @ quote # t) = (utf8_coerce v, None, t)" using unescape_marshal by simp
  from dec_stream_new[OF this assms(2)] obtain st where
    "dec_stream e [] None (newJSONStringReader (marshal_string v @ quote # t)) = (d, DecPartial, st)"
    by (auto simp: dec_of_def)
  then have "streamBase64ToTemp e env sc (marshal_string v @ quote # t) =
    (se_name env (sc_next sc), Some CeUnexpectedEOF, js_rest st,
     \<lparr>sc_files = sc_files sc @ [(se_name env (sc_next sc), d)], sc_next = Suc (sc_next sc)\<rparr>)"
    using assms(1) by (simp add: streamBase64ToTemp_def scratch_ok_def dec_error_def Let_def)
  moreover have "tryConsumeNull e (jstr v @ t) = Inr (False, jstr v @ t)"
    by (simp add: tryConsumeNull_def jstr_def reads)
  ultimately show ?thesis by (simp add: item_payload_def jstr_def skipWSThen_def reads)
qed

lemma remove_new_scratch:
  "se_name env n \<notin> fst ` set fs \<Longrightarrow>
     sc_files (remove_tmps [se_name env n] \<lparr>sc_files = fs @ [(se_name env n, d)], sc_next = m\<rparr>) = fs"
  by (force simp: remove_tmps_def intro!: filter_True)

section \<open>Properties\<close>

text \<open>The two transports agree. Items saved as a CB01 frame through the \<open>ingest\<close> command and the
  same items posted as an Envelope through the HTTP route make the same call of \<open>Ingest\<close>: for any
  store, any state and any cap, the store ends in the same state and the error or the list of
  saved paths is the same (as an exit code and text, or as a reply); and the scratch files of
  the route are gone.\<close>

lemma transports_agree:
  assumes "items \<noteq> []" and "\<forall>it\<in>set items. item_ok it" and "\<forall>it\<in>set items. utf8_item it"
    and "\<And>i. faults i = TempOk" and "length items \<le> alloc_max" and "length items < 2 ^ 63"
    and "scratch_ok env" and "scratch_fresh env sc"
  shows "\<exists>frame sc'. EncodeCB01 ch items = Inr frame \<and> sc_files sc' = sc_files sc \<and>
    (let outcome = Ingest ops (maxBytesOf cfg) (map (ingest_item_of ch) items) s in
     runIngest ops cfg alloc_max faults frame s =
       map_option (\<lambda>(r, s'). (map_sum ingestErrToCoded (\<lambda>resp. write_paths 0 (resp_saved resp)) r, s')) outcome \<and>
     decodeAndIngest ops (maxBytesOf cfg) e env (MarshalEnvelope (wire_envelope ch items)) (s, sc) =
       map_option (\<lambda>(r, s'). (map_sum FromIngest id r, s', sc')) outcome)"
proof -
  let ?en = "wire_envelope ch items"
  have its: "\<forall>it\<in>set (env_items ?en). sendable it"
    by (auto simp: wire_envelope_def wire_item_def sendable_def Let_def simp del: b64_encode.simps)
  have "meant_items (coerced (env_channel ?en)) (env_items ?en) = Some (map (ingest_item_of ch) items)"
    using meant_wire_items[OF assms(3)] by (simp add: wire_envelope_def coerced_def)
  moreover have "env_version ?en = 1" "env_items ?en \<noteq> []" using assms(1) by (simp_all add: wire_envelope_def)
  ultimately obtain sc' where "sc_files sc' = sc_files sc"
    "decodeAndIngest ops (maxBytesOf cfg) e env (MarshalEnvelope ?en) (s, sc) =
       map_option (\<lambda>(r, s'). (map_sum FromIngest id r, s', sc')) (Ingest ops (maxBytesOf cfg) (map (ingest_item_of ch) items) s)"
    using decode_marshal[OF assms(7,8) its, where t = "[]" and ops = ops and maxBytes = "maxBytesOf cfg" and s = s and e = e]
    by fastforce
  moreover have "\<exists>frame. EncodeCB01 ch items = Inr frame \<and> runIngest ops cfg alloc_max faults frame s =
      map_option (\<lambda>(r, s'). (map_sum ingestErrToCoded (\<lambda>resp. write_paths 0 (resp_saved resp)) r, s'))
        (Ingest ops (maxBytesOf cfg) (map (ingest_item_of ch) items) s)"
    by (rule runIngest_frame) (fact assms)+
  ultimately show ?thesis unfolding Let_def by blast
qed

lemma witness_scratch_fresh: "scratch_fresh witness_scratch \<lparr>sc_files = [], sc_next = 0\<rparr>"
  by (auto simp: scratch_fresh_def witness_scratch_def inj_def decimal_inj)

definition witness_items :: "cb01_item list" where
  "witness_items =
     [\<lparr>ci_kind = cb01KindImage, ci_name = ''a.png'', ci_uti = [], ci_mime = [], ci_payload = [CHR 0xFF, CHR 0x00]\<rparr>,
      \<lparr>ci_kind = cb01KindText, ci_name = [], ci_uti = [], ci_mime = [], ci_payload = ''hi''\<rparr>]"

definition witness_store_ops :: "unit receive_store" where
  "witness_store_ops =
     \<lparr>ss_save_clip = (\<lambda>s name kind uti r. Some (Inr (''/d/f'', int (length (src_data r))), s)),
      ss_save_text = (\<lambda>s t. Some (Inr ([], False, 0), s)),
      ss_finish = (\<lambda>s sender saved. (Inr (), s)),
      ss_save_agent = (\<lambda>s sender name kind uti r. Some (Inr (''/d/f'', int (length (src_data r))), s)),
      ss_enqueue_text = (\<lambda>s sender t. (Inr (), s)), ss_remove = (\<lambda>s p. s)\<rparr>"

lemma transports_agree_witness:
  "\<exists>frame sc'. EncodeCB01 cb01ChannelAgent witness_items = Inr frame \<and> sc_files sc' = [] \<and>
     (let outcome = Ingest witness_store_ops (maxBytesOf 0) (map (ingest_item_of cb01ChannelAgent) witness_items) () in
      runIngest witness_store_ops 0 9 (\<lambda>i. TempOk) frame () =
        map_option (\<lambda>(r, s'). (map_sum ingestErrToCoded (\<lambda>resp. write_paths 0 (resp_saved resp)) r, s')) outcome \<and>
      decodeAndIngest witness_store_ops (maxBytesOf 0) CleanEOF witness_scratch
          (MarshalEnvelope (wire_envelope cb01ChannelAgent witness_items)) ((), \<lparr>sc_files = [], sc_next = 0\<rparr>) =
        map_option (\<lambda>(r, s'). (map_sum FromIngest id r, s', sc')) outcome)"
proof -
  have "\<forall>it\<in>set witness_items. item_ok it" by (simp add: witness_items_def item_ok_def cb01MaxStringLen_def)
  moreover have "\<forall>it\<in>set witness_items. utf8_item it"
    by (simp add: witness_items_def utf8_item_def valid_utf8_ascii KindString_def cb01KindImage_def cb01KindText_def
        cb01KindFile_def KindImage_def KindText_def)
  ultimately show ?thesis
    using transports_agree[OF _ _ _ _ _ _ witness_scratch_ok witness_scratch_fresh,
        of witness_items "\<lambda>i. TempOk" 9 cb01ChannelAgent witness_store_ops 0 "()" CleanEOF]
    by (simp add: witness_items_def)
qed

text \<open>A payload that stops inside a quantum, as unpadded base64 does, is refused but as a
  server error: the status is 500, not the 400 of every other malformed payload; the store is
  untouched and the scratch file is removed.\<close>

lemma partial_payload_is_server_error:
  assumes "scratch_ok env" and "scratch_fresh env sc" and "b64_stream [] (utf8_coerce v) = (d, B64Partial)"
  shows "\<exists>x sc'. decodeAndIngest ops maxBytes e env (one_item_body (jmember ''bytesB64'' (jstr v @ t))) (s, sc) =
      Some (Inl x, s, sc') \<and> clip_status x = 500 \<and> sc_files sc' = sc_files sc"
proof -
  have nn: "se_name env (sc_next sc) \<noteq> []" using assms(1) by (simp add: scratch_ok_def)
  have fresh: "se_name env (sc_next sc) \<notin> fst ` set (sc_files sc)" using assms(2) by (simp add: scratch_fresh_def)
  let ?sc1 = "\<lparr>sc_files = sc_files sc @ [(se_name env (sc_next sc), d)], sc_next = Suc (sc_next sc)\<rparr>"
  have "parseOneItem e env sc (CHR ''{'' # jmember ''bytesB64'' (jstr v @ t)) =
      (Inl CeUnexpectedEOF, empty_item\<lparr>pi_tmpPath := se_name env (sc_next sc)\<rparr>, ?sc1)"
    by (simp add: parseOneItem_first item_member_def item_payload_partial[OF assms(1,3)])
  then have "parseEnvelopeStreaming e env sc (one_item_body (jmember ''bytesB64'' (jstr v @ t))) =
      (Inl CeUnexpectedEOF, [se_name env (sc_next sc)], ?sc1)"
    using nn by (simp add: parse_one_item_body items_loop.simps add_tmp_def)
  then show ?thesis using remove_new_scratch[OF fresh] by (simp add: decodeAndIngest_def clip_status_def)
qed

lemma partial_payload_is_server_error_witness:
  "\<exists>x sc'. decodeAndIngest witness_store_ops 100 CleanEOF witness_scratch
      (one_item_body (jmember ''bytesB64'' (jstr ''QUI'' @ ''}]}''))) ((), \<lparr>sc_files = [], sc_next = 0\<rparr>) =
      Some (Inl x, (), sc') \<and> clip_status x = 500 \<and> sc_files sc' = []"
proof -
  have v: "utf8_coerce ''QUI'' = ''QUI''" by (rule utf8_coerce_valid) (simp add: valid_utf8_ascii)
  have "b64_refill [] ''QUI'' = (''QUI'', [])" by (simp add: b64_refill.simps not_newline_def)
  then have "b64_stream [] (utf8_coerce ''QUI'') = ([], B64Partial)" by (simp add: v b64_stream.simps)
  from partial_payload_is_server_error[OF witness_scratch_ok witness_scratch_fresh this] show ?thesis by simp
qed

text \<open>An item that names \<open>bytesB64\<close> twice leaves the first payload on disk: only the last scratch
  path is remembered, and the removal after the request does not reach the first one.\<close>

lemma duplicate_payload_leaks:
  assumes "scratch_ok env" and "scratch_fresh env sc"
  shows "\<exists>x sc'. decodeAndIngest ops maxBytes e env
      (one_item_body (jmember ''bytesB64'' (jstr (b64_encode d1) @ CHR '','' # jmember ''bytesB64'' (jstr (b64_encode d2) @ ''}]}''))))
      (s, sc) = Some (Inl x, s, sc') \<and> clip_status x = 400 \<and>
      sc_files sc' = sc_files sc @ [(se_name env (sc_next sc), d1)]"
proof -
  let ?n1 = "se_name env (sc_next sc)" and ?n2 = "se_name env (Suc (sc_next sc))"
  let ?sc1 = "\<lparr>sc_files = sc_files sc @ [(?n1, d1)], sc_next = Suc (sc_next sc)\<rparr>"
  let ?sc2 = "\<lparr>sc_files = sc_files sc @ [(?n1, d1), (?n2, d2)], sc_next = Suc (Suc (sc_next sc))\<rparr>"
  have nn: "?n2 \<noteq> []" using assms(1) by (simp add: scratch_ok_def)
  have fresh: "?n2 \<notin> fst ` set (sc_files ?sc1)" using assms(2) by (auto simp: scratch_fresh_def dest: injD)
  have "next_member e False (CHR '','' # jmember ''bytesB64'' (jstr (b64_encode d2) @ ''}]}'')) =
      Inr (Some ''bytesB64'', jstr (b64_encode d2) @ ''}]}'')"
    using next_member_more[of "''bytesB64''" e "jstr (b64_encode d2) @ ''}]}''" "[]"] by simp
  then have "parseOneItem e env sc
      (CHR ''{'' # jmember ''bytesB64'' (jstr (b64_encode d1) @ CHR '','' # jmember ''bytesB64'' (jstr (b64_encode d2) @ ''}]}''))) =
      (Inr '']}'', empty_item\<lparr>pi_tmpPath := ?n2\<rparr>, ?sc2)"
    by (simp add: parseOneItem_first item_member_def item_payload_jstr[OF assms(1)] item_loop.simps reads empty_item_def
        del: b64_encode.simps)
  then have "parseEnvelopeStreaming e env sc
      (one_item_body (jmember ''bytesB64'' (jstr (b64_encode d1) @ CHR '','' # jmember ''bytesB64'' (jstr (b64_encode d2) @ ''}]}'')))) =
      (Inr (empty_envelope\<lparr>pe_items := [empty_item\<lparr>pi_tmpPath := ?n2\<rparr>]\<rparr>, []), [?n2], ?sc2)"
    using nn by (simp add: parse_one_item_body items_loop.simps add_tmp_def reads envelope_loop.simps del: b64_encode.simps)
  moreover have "sc_files (remove_tmps [?n2] ?sc2) = sc_files sc @ [(?n1, d1)]"
    using remove_new_scratch[OF fresh, of d2 "Suc (Suc (sc_next sc))"] by simp
  ultimately show ?thesis by (simp add: decodeAndIngest_def clip_status_def empty_envelope_def del: b64_encode.simps)
qed

lemma duplicate_payload_leaks_witness:
  "\<exists>x sc'. decodeAndIngest witness_store_ops 100 CleanEOF witness_scratch
      (one_item_body (jmember ''bytesB64'' (jstr (b64_encode ''secret'') @ CHR '','' #
         jmember ''bytesB64'' (jstr (b64_encode ''x'') @ ''}]}''))))
      ((), \<lparr>sc_files = [], sc_next = 0\<rparr>) = Some (Inl x, (), sc') \<and> clip_status x = 400 \<and>
      map snd (sc_files sc') = [''secret'']"
  using duplicate_payload_leaks[OF witness_scratch_ok witness_scratch_fresh,
      of witness_store_ops 100 CleanEOF "''secret''" "''x''" "()"]
  by (fastforce simp del: b64_encode.simps)

end
