(* ===== verification/Httpd.thy ===== *)
theory Httpd
  imports Gate Clip Waiters
begin

text \<open>
  The route handlers of \<open>routes.go\<close> and \<open>clip.go\<close> and the response writers of \<open>response.go\<close>. A
  handler is a function from the request and the state to the response and the new state; it is
  \<open>None\<close> when an operation of the store does not terminate. What a handler only reads of the
  store or the system (the outcome of a blocking receive, of opening a file) is a parameter,
  and so are the texts of errors that are relayed.
\<close>

section \<open>Responses\<close>

record http_response =
  rp_status :: nat
  rp_ctype :: string
  rp_body :: string

definition ctype_json :: string where "ctype_json = ''application/json''"
definition ctype_text :: string where "ctype_text = ''text/plain; charset=utf-8''"

definition sanitize_byte :: "char \<Rightarrow> char" where
  "sanitize_byte c =
     (if c = backslash then CHR ''/'' else if c = quote then CHR 0x27
      else if c = newline \<or> c = CHR 0x0D then CHR '' '' else c)"

definition sanitizeReason :: "string \<Rightarrow> string" where
  "sanitizeReason reason = map sanitize_byte reason"

definition error_head :: string where
  "error_head = CHR ''{'' # jmember ''ok'' ''false,'' @ quote # ''error'' @ quote # CHR '':'' # [quote]"

definition writeError :: "nat \<Rightarrow> string \<Rightarrow> http_response" where
  "writeError status reason =
     \<lparr>rp_status = status, rp_ctype = ctype_json, rp_body = error_head @ sanitizeReason reason @ quote # ''}''\<rparr>"

definition noContent :: http_response where
  "noContent = \<lparr>rp_status = 204, rp_ctype = [], rp_body = []\<rparr>"

definition writeBarePath :: "string \<Rightarrow> http_response" where
  "writeBarePath path =
     (if path = [] then noContent else \<lparr>rp_status = 200, rp_ctype = ctype_text, rp_body = path\<rparr>)"

text \<open>\<open>itoa64\<close>: the digit loop runs for positive numbers only.\<close>

definition itoa64 :: "int \<Rightarrow> string" where
  "itoa64 n = (if n = 0 then ''0'' else itoa_loop (nat n) [])"

definition writeSentItems :: "int \<Rightarrow> http_response" where
  "writeSentItems n =
     \<lparr>rp_status = 200, rp_ctype = ctype_json,
      rp_body = CHR ''{'' # jmember ''ok'' ''true,'' @ jmember ''sentItems'' (itoa64 n) @ ''}''\<rparr>"

definition marshal_bool :: "bool \<Rightarrow> string" where
  "marshal_bool b = (if b then ''true'' else ''false'')"

definition marshal_response :: "clip_response \<Rightarrow> string" where
  "marshal_response r =
     CHR ''{'' # jmember ''ok'' (marshal_bool (resp_ok r)) @ CHR '','' #
     jmember ''saved'' (CHR ''['' # join_with (CHR '','') (map jstr (resp_saved r)) @ '']'') @ CHR '','' #
     jmember ''count'' (decimal (resp_count r)) @ ''}''"

definition writeJSON :: "nat \<Rightarrow> string \<Rightarrow> http_response" where
  "writeJSON status body = \<lparr>rp_status = status, rp_ctype = ctype_json, rp_body = body\<rparr>"

definition recvBodyString :: "agent_item \<Rightarrow> string" where
  "recvBodyString it =
     ''type: '' @ ai_type it @ newline # ''sender: '' @ ai_sender it @
     (case ai_path it of None \<Rightarrow> [] | Some p \<Rightarrow> newline # ''path: '' @ p) @
     (case ai_text it of None \<Rightarrow> [] | Some t \<Rightarrow> newline # ''text: '' @ t)"

definition writeRecvBody :: "agent_item \<Rightarrow> http_response" where
  "writeRecvBody it = \<lparr>rp_status = 200, rp_ctype = ctype_text, rp_body = recvBodyString it\<rparr>"

definition write413 :: http_response where
  "write413 = writeError 413 ''payload too large''"

definition writeClipError :: "(clip_failure \<Rightarrow> string) \<Rightarrow> clip_failure \<Rightarrow> http_response" where
  "writeClipError err_text x =
     (let st = clip_status x in
      if st = 413 then write413
      else if x = FromIngest ErrIngestEscape then writeError 500 ''internal error''
      else if st = 400 then writeError 400 ''malformed request''
      else writeError 500 (err_text x))"

section \<open>The clip route\<close>

definition srv_maxBytes :: "server_options \<Rightarrow> int" where
  "srv_maxBytes opts = (if 0 < so_maxBytes opts then so_maxBytes opts else DefaultMaxBytes)"

text \<open>\<open>http.MaxBytesReader\<close>: at most so many bytes, then an error if there is more.\<close>

definition max_bytes_reader :: "int \<Rightarrow> string \<times> read_end \<Rightarrow> string \<times> read_end" where
  "max_bytes_reader n b = (if n < int (length (fst b)) then (take (nat n) (fst b), TooBig) else b)"

text \<open>The state of the route: the store, the scratch files, the single-flight slot.\<close>

type_synonym 's route_state = "'s \<times> scratch \<times> bool"

definition handleClip ::
  "'s receive_store \<Rightarrow> scratch_env \<Rightarrow> (clip_failure \<Rightarrow> string) \<Rightarrow> server_options \<Rightarrow> request \<Rightarrow> 's route_state \<Rightarrow>
   (http_response \<times> 's route_state) option" where
  "handleClip ops env err_text opts r st =
     (let (s, sc, slot) = st; (status, reason) = clipGate opts r; ceiling = HardCeiling (srv_maxBytes opts) in
      if rq_method r \<noteq> ''POST'' then Some (writeError 405 ''method not allowed'', st)
      else if status \<noteq> 0 then Some (writeError status reason, st)
      else if rq_length r < 0 then Some (writeError 411 ''length required'', st)
      else if ceiling < rq_length r then Some (write413, st)
      else
        let (got, slot1) = tryAcquire slot in
        if \<not> got then Some (writeError 503 ''busy'', (s, sc, slot1))
        else
          let (body, e) = max_bytes_reader ceiling (rq_body r) in
          map_option (\<lambda>(res, s', sc').
              (case res of
                 Inl x \<Rightarrow> writeClipError err_text x
               | Inr resp \<Rightarrow> writeJSON 200 (marshal_response resp),
               (s', sc', release slot1)))
            (decodeAndIngest ops (srv_maxBytes opts) e env body (s, sc)))"

section \<open>The control routes\<close>

definition headerOr :: "request \<Rightarrow> string \<Rightarrow> string \<Rightarrow> string" where
  "headerOr r key dflt = (case rq_header r key of [] \<Rightarrow> dflt | v # _ \<Rightarrow> if v \<noteq> [] then v else dflt)"

definition header_get :: "request \<Rightarrow> string \<Rightarrow> string" where
  "header_get r key = (case rq_header r key of [] \<Rightarrow> [] | v # _ \<Rightarrow> v)"

definition lastSlash :: "string \<Rightarrow> int" where
  "lastSlash s = (case last_index s slash of None \<Rightarrow> - 1 | Some i \<Rightarrow> int i)"

definition file_name :: "string \<Rightarrow> string" where
  "file_name path = (if 0 \<le> lastSlash path then drop (nat (lastSlash path) + 1) path else path)"

definition one_item :: "string \<Rightarrow> string \<Rightarrow> string \<Rightarrow> source \<Rightarrow> ingest_item list" where
  "one_item kind name channel src =
     [\<lparr>it_kind = kind, it_name = name, it_uti = [], it_mime = [], it_channel = channel, it_reader = Some src\<rparr>]"

text \<open>Opening a local file yields the text of its error or its content.\<close>

definition pushFile ::
  "'s receive_store \<Rightarrow> (ingest_error \<Rightarrow> string) \<Rightarrow> server_options \<Rightarrow> (string \<Rightarrow> string + source) \<Rightarrow> string \<Rightarrow> 's \<Rightarrow>
   ((string, nat) result \<times> 's) option" where
  "pushFile ops err_text opts open_file path s =
     (case open_file path of
        Inl msg \<Rightarrow> Some (Inl msg, s)
      | Inr src \<Rightarrow>
          map_option (\<lambda>(r, s'). (map_sum err_text resp_count r, s'))
            (Ingest ops (srv_maxBytes opts) (one_item KindFile (file_name path) ChannelClipboard src) s))"

definition handlePush ::
  "'s receive_store \<Rightarrow> (ingest_error \<Rightarrow> string) \<Rightarrow> server_options \<Rightarrow> (string \<Rightarrow> string + source) \<Rightarrow> request \<Rightarrow> 's \<Rightarrow>
   (http_response \<times> 's) option" where
  "handlePush ops err_text opts open_file r s =
     (let (status, reason) = controlAuthorized opts r; file = rq_query r ''file'' in
      if rq_method r \<noteq> ''POST'' then Some (writeError 405 ''method not allowed'', s)
      else if status \<noteq> 0 then Some (writeError status reason, s)
      else if file \<noteq> [] then
        map_option (\<lambda>(res, s'). (case res of Inl msg \<Rightarrow> writeError 500 msg | Inr n \<Rightarrow> writeSentItems (int n), s'))
          (pushFile ops err_text opts open_file file s)
      else Some (writeSentItems 0, s))"

text \<open>The end of either form of \<open>/agent-send\<close>: ingest the one item and answer.\<close>

definition send_one ::
  "'s receive_store \<Rightarrow> (clip_failure \<Rightarrow> string) \<Rightarrow> server_options \<Rightarrow> ingest_item list \<Rightarrow> 's \<Rightarrow> (http_response \<times> 's) option" where
  "send_one ops err_text opts items s =
     map_option (\<lambda>(res, s').
         (case res of Inl x \<Rightarrow> writeClipError err_text (FromIngest x) | Inr resp \<Rightarrow> writeSentItems (int (resp_count resp)), s'))
       (Ingest ops (srv_maxBytes opts) items s)"

definition agentSendText ::
  "'s receive_store \<Rightarrow> (clip_failure \<Rightarrow> string) \<Rightarrow> server_options \<Rightarrow> request \<Rightarrow> string \<Rightarrow> 's \<Rightarrow> (http_response \<times> 's) option" where
  "agentSendText ops err_text opts r channel s =
     (let ceiling = HardCeiling (srv_maxBytes opts);
          (body, e) = (if rq_length r \<noteq> 0 then max_bytes_reader ceiling (rq_body r) else ([], CleanEOF)) in
      if ceiling < rq_length r then Some (write413, s)
      else if e = TooBig then Some (write413, s)
      else if e = NetErr then Some (writeError 400 ''read error'', s)
      else send_one ops err_text opts (one_item KindText [] channel \<lparr>src_data = body, src_fails = False\<rparr>) s)"

definition agentSendFile ::
  "'s receive_store \<Rightarrow> (clip_failure \<Rightarrow> string) \<Rightarrow> server_options \<Rightarrow> (string \<Rightarrow> string + source) \<Rightarrow> string \<Rightarrow> string \<Rightarrow> 's \<Rightarrow>
   (http_response \<times> 's) option" where
  "agentSendFile ops err_text opts open_file channel file s =
     (if file = [] then Some (writeError 400 ''missing file header'', s)
      else (case open_file file of
          Inl msg \<Rightarrow> Some (writeError 500 msg, s)
        | Inr src \<Rightarrow> send_one ops err_text opts (one_item KindFile (file_name file) channel src) s))"

definition handleAgentSend ::
  "'s receive_store \<Rightarrow> (clip_failure \<Rightarrow> string) \<Rightarrow> server_options \<Rightarrow> (string \<Rightarrow> string + source) \<Rightarrow> request \<Rightarrow> 's \<Rightarrow>
   (http_response \<times> 's) option" where
  "handleAgentSend ops err_text opts open_file r s =
     (let (status, reason) = controlAuthorized opts r;
          channel = headerOr r ''X-ClipBeam-Channel'' ChannelClipboard;
          kind = headerOr r ''X-ClipBeam-Kind'' ''clipboard'' in
      if rq_method r \<noteq> ''POST'' then Some (writeError 405 ''method not allowed'', s)
      else if status \<noteq> 0 then Some (writeError status reason, s)
      else if kind = KindText then agentSendText ops err_text opts r channel s
      else if kind = KindFile then agentSendFile ops err_text opts open_file channel (header_get r ''X-ClipBeam-File'') s
      else Some (writeSentItems 0, s))"

subsection \<open>Reading routes\<close>

definition recvDefaultTimeout :: int where "recvDefaultTimeout = 120"
definition second :: int where "second = 1000000000"

text \<open>The poll window of \<open>/recv\<close> in nanoseconds: a Go \<open>Duration\<close> is a 64-bit integer.\<close>

definition recv_timeout :: "request \<Rightarrow> int" where
  "recv_timeout r =
     (let q = rq_query r ''timeout'' in
      if q \<noteq> [] then (case atoi q of Some n \<Rightarrow> if 0 \<le> n then n else recvDefaultTimeout | None \<Rightarrow> recvDefaultTimeout)
      else recvDefaultTimeout)"

definition recv_window :: "request \<Rightarrow> int" where
  "recv_window r =
     min (wrap64 (wrap64 (recv_timeout r * second) + 15 * second)) (wrap64 (recv_timeout r * second))"

definition handleRecv ::
  "server_options \<Rightarrow> request \<Rightarrow> (int \<Rightarrow> 's \<Rightarrow> (string, agent_item option) result \<times> 's) \<Rightarrow> 's \<Rightarrow> http_response \<times> 's" where
  "handleRecv opts r recv s =
     (let (status, reason) = controlAuthorized opts r in
      if rq_method r \<noteq> ''GET'' then (writeError 405 ''method not allowed'', s)
      else if status \<noteq> 0 then (writeError status reason, s)
      else (case recv (recv_window r) s of
          (Inl msg, s') \<Rightarrow> (writeError 500 msg, s')
        | (Inr None, s') \<Rightarrow> (noContent, s')
        | (Inr (Some it), s') \<Rightarrow> (writeRecvBody it, s')))"

definition handleLast :: "server_options \<Rightarrow> request \<Rightarrow> string option \<Rightarrow> http_response" where
  "handleLast opts r last_path =
     (let (status, reason) = controlAuthorized opts r in
      if rq_method r \<noteq> ''GET'' then writeError 405 ''method not allowed''
      else if status \<noteq> 0 then writeError status reason
      else (case last_path of Some p \<Rightarrow> writeBarePath p | None \<Rightarrow> writeBarePath []))"

definition handleWait ::
  "server_options \<Rightarrow> request \<Rightarrow> (int \<Rightarrow> 's \<Rightarrow> (string, string) result \<times> 's) \<Rightarrow> 's \<Rightarrow> http_response \<times> 's" where
  "handleWait opts r wait s =
     (let (status, reason) = controlAuthorized opts r in
      if rq_method r \<noteq> ''GET'' then (writeError 405 ''method not allowed'', s)
      else if status \<noteq> 0 then (writeError status reason, s)
      else (case wait (120 * second) s of
          (Inl msg, s') \<Rightarrow> (writeError 500 msg, s')
        | (Inr path, s') \<Rightarrow> (writeBarePath path, s')))"

definition handleHealth :: "server_options \<Rightarrow> request \<Rightarrow> string \<Rightarrow> string \<Rightarrow> http_response" where
  "handleHealth opts r host goos =
     (if rq_method r \<noteq> ''GET'' then writeError 405 ''method not allowed''
      else writeJSON 200 (CHR ''{'' # jmember ''ok'' (marshal_bool True) @ CHR '','' # jmember ''app'' (jstr ''clipbeam'') @
        CHR '','' # jmember ''version'' (jstr (so_version opts)) @ CHR '','' # jmember ''host'' (jstr host) @
        CHR '','' # jmember ''platform'' (jstr goos) @ ''}''))"

section \<open>The slot and the statuses\<close>

lemma slot_restored: "tryAcquire slot = (got, slot1) \<Longrightarrow> (if got then release slot1 else slot1) = slot"
  by (auto simp: tryAcquire_def release_def split: if_splits)

lemma clip_status_values: "clip_status x \<in> {400, 413, 500}"
  by (auto simp: clip_status_def split: clip_failure.split ingest_error.split clip_error.split read_end.split)

lemma writeClipError_status [simp]: "rp_status (writeClipError err_text x) = clip_status x"
  using clip_status_values[of x]
  by (auto simp: writeClipError_def Let_def write413_def writeError_def) (simp add: clip_status_def)

lemma status_simps [simp]: "rp_status (writeError st msg) = st" "rp_status (writeJSON st b) = st" "rp_status write413 = 413"
  by (simp_all add: writeError_def writeJSON_def write413_def)

text \<open>Where a call of the clip route ends: refused before the body, or with the outcome of the decoder.\<close>

lemma handleClip_cases:
  assumes "handleClip ops env err_text opts r (s, sc, slot) = Some (resp, st')"
  obtains
    (refused) "st' = (s, sc, slot)" "rp_status resp \<in> {401, 403, 405, 411, 413, 503}"
  | (decoded) res s' sc' where "st' = (s', sc', slot)" "rq_method r = ''POST''" "fst (clipGate opts r) = 0"
      "0 \<le> rq_length r" "rq_length r \<le> HardCeiling (srv_maxBytes opts)" "\<not> slot"
      "decodeAndIngest ops (srv_maxBytes opts) (snd (max_bytes_reader (HardCeiling (srv_maxBytes opts)) (rq_body r))) env
         (fst (max_bytes_reader (HardCeiling (srv_maxBytes opts)) (rq_body r))) (s, sc) = Some (res, s', sc')"
      "resp = (case res of Inl x \<Rightarrow> writeClipError err_text x | Inr x \<Rightarrow> writeJSON 200 (marshal_response x))"
proof -
  obtain status reason where g: "clipGate opts r = (status, reason)" by fastforce
  have st: "status \<in> {0, 401, 403}" using gates_status(1)[of opts r] g by simp
  obtain got slot1 where a: "tryAcquire slot = (got, slot1)" by fastforce
  obtain body e where b: "max_bytes_reader (HardCeiling (srv_maxBytes opts)) (rq_body r) = (body, e)" by fastforce
  show thesis
  proof (cases "rq_method r = ''POST'' \<and> status = 0 \<and> 0 \<le> rq_length r \<and> rq_length r \<le> HardCeiling (srv_maxBytes opts) \<and> got")
    case True
    then obtain res s' sc' where d: "decodeAndIngest ops (srv_maxBytes opts) e env body (s, sc) = Some (res, s', sc')"
      and "resp = (case res of Inl x \<Rightarrow> writeClipError err_text x | Inr x \<Rightarrow> writeJSON 200 (marshal_response x))"
      and "st' = (s', sc', release slot1)"
      using assms by (auto simp: handleClip_def Let_def g a b)
    moreover have "release slot1 = slot" "\<not> slot" using slot_restored[OF a] True a by (auto simp: tryAcquire_def split: if_splits)
    ultimately show thesis using decoded True g b by simp
  next
    case False
    moreover have "\<not> got \<Longrightarrow> slot1 = slot" using slot_restored[OF a] by simp
    ultimately have "st' = (s, sc, slot) \<and> rp_status resp \<in> {401, 403, 405, 411, 413, 503}"
      using assms st by (simp add: handleClip_def Let_def g a b split: if_splits) auto
    then show thesis using refused by blast
  qed
qed

section \<open>Properties\<close>

text \<open>C15. The clip route is safe in every state and for every request and store. Its status is one of the
  documented ones, never a 502; the single-flight slot is left as it was found; a request that is
  refused by the method, the gate, the length or the slot changes neither the store nor a
  scratch file; and a 200 was let in by the gate, declared a length within the ceiling, found the slot
  free and answers with what \<open>Ingest\<close> returned.\<close>

theorem clip_route_safe:
  assumes "handleClip ops env err_text opts r (s, sc, slot) = Some (resp, s', sc', slot')"
  shows "rp_status resp \<in> {200, 400, 401, 403, 405, 411, 413, 500, 503} \<and> slot' = slot \<and>
    (rp_status resp \<in> {401, 403, 405, 411, 503} \<longrightarrow> s' = s \<and> sc' = sc) \<and>
    (rp_status resp = 200 \<longrightarrow> rq_method r = ''POST'' \<and> clipGate opts r = (0, snd (clipGate opts r)) \<and> \<not> slot \<and>
       0 \<le> rq_length r \<and> rq_length r \<le> HardCeiling (srv_maxBytes opts) \<and>
       (\<exists>e body x. decodeAndIngest ops (srv_maxBytes opts) e env body (s, sc) = Some (Inr x, s', sc') \<and>
          int (length body) \<le> max (HardCeiling (srv_maxBytes opts)) 0 \<and> rp_body resp = marshal_response x))"
  using assms
proof (cases rule: handleClip_cases)
  case refused
  then show ?thesis by auto
next
  case (decoded res s1 sc1)
  show ?thesis
  proof (cases res)
    case (Inl x)
    then show ?thesis using decoded(1,8) clip_status_values[of x] by auto
  next
    case (Inr x)
    let ?b = "max_bytes_reader (HardCeiling (srv_maxBytes opts)) (rq_body r)"
    have "int (length (fst ?b)) \<le> max (HardCeiling (srv_maxBytes opts)) 0" by (auto simp: max_bytes_reader_def)
    moreover have "rp_body resp = marshal_response x" "rp_status resp = 200" using decoded(8) Inr by (simp_all add: writeJSON_def)
    moreover have "clipGate opts r = (0, snd (clipGate opts r))" using decoded(3) by (simp add: prod_eq_iff)
    ultimately show ?thesis using decoded(1,2,4-7) Inr by (intro conjI impI exI[of _ "snd ?b"] exI[of _ "fst ?b"] exI[of _ x]) simp_all
  qed
qed

theorem clip_route_safe_witness:
  "\<exists>resp. handleClip witness_store_ops witness_scratch (\<lambda>x. []) witness_options witness_request
      ((), \<lparr>sc_files = [], sc_next = 0\<rparr>, True) = Some (resp, (), \<lparr>sc_files = [], sc_next = 0\<rparr>, True) \<and>
    rp_status resp \<in> {200, 400, 401, 403, 405, 411, 413, 500, 503} \<and> rp_status resp \<noteq> 200"
proof -
  have gate: "clipGate witness_options witness_request \<in> {(0, []), (401, ''unauthorized''), (403, ''forbidden'')}"
    by (simp add: clipGate_class token_verdict_def)
  have "0 \<le> HardCeiling (srv_maxBytes witness_options)"
    by (simp add: srv_maxBytes_def witness_options_def HardCeiling_exact DefaultMaxBytes_def)
  then have "\<exists>resp. handleClip witness_store_ops witness_scratch (\<lambda>x. []) witness_options witness_request
      ((), \<lparr>sc_files = [], sc_next = 0\<rparr>, True) = Some (resp, (), \<lparr>sc_files = [], sc_next = 0\<rparr>, True)"
    using gate by (auto simp: handleClip_def Let_def witness_request_def tryAcquire_def)
  then obtain resp where h: "handleClip witness_store_ops witness_scratch (\<lambda>x. []) witness_options witness_request
      ((), \<lparr>sc_files = [], sc_next = 0\<rparr>, True) = Some (resp, (), \<lparr>sc_files = [], sc_next = 0\<rparr>, True)" ..
  from clip_route_safe[OF h] have "rp_status resp \<in> {200, 400, 401, 403, 405, 411, 413, 500, 503} \<and> rp_status resp \<noteq> 200" by blast
  with h show ?thesis by blast
qed

text \<open>An unescaped JSON string body, as RFC 8259 has it.\<close>

definition json_plain :: "string \<Rightarrow> bool" where
  "json_plain s \<longleftrightarrow> (\<forall>c\<in>set s. 32 \<le> code c \<and> c \<noteq> quote \<and> c \<noteq> backslash)"

lemma sanitize_byte_plain: "sanitize_byte c \<noteq> quote" "sanitize_byte c \<noteq> backslash"
  by (simp_all add: sanitize_byte_def)

lemma sanitize_byte_control: "32 \<le> code (sanitize_byte c) \<longleftrightarrow> 32 \<le> code c \<or> c = newline \<or> c = CHR 0x0D"
proof (cases "c = backslash \<or> c = quote \<or> c = newline \<or> c = CHR 0x0D")
  case True
  then show ?thesis by (elim disjE) (simp_all add: sanitize_byte_def)
qed (simp add: sanitize_byte_def)

text \<open>The hand-built error body. Whatever the reason, its quotes, backslashes and line ends are
  replaced byte for byte, so that the reason never closes the string early; but the body is JSON
  exactly when the reason has no control byte other than a line end: a tab, which a header or a file
  name may carry, makes the body unreadable.\<close>

lemma error_body_json_iff:
  "\<exists>m. rp_body (writeError st reason) = error_head @ m @ quote # ''}'' \<and> length m = length reason \<and>
     (\<forall>i<length reason. m ! i = reason ! i \<or> reason ! i \<in> {quote, backslash, newline, CHR 0x0D}) \<and>
     readShortJSONString e (m @ quote # ''}'') = Inr (m, ''}'') \<and>
     (json_plain m \<longleftrightarrow> (\<forall>c\<in>set reason. 32 \<le> code c \<or> c = newline \<or> c = CHR 0x0D))"
proof (intro exI[of _ "sanitizeReason reason"] conjI)
  have "plain_key (sanitizeReason reason)" by (simp add: plain_key_def sanitizeReason_def sanitize_byte_plain)
  then show "readShortJSONString e (sanitizeReason reason @ quote # ''}'') = Inr (sanitizeReason reason, ''}'')"
    by (rule readShort_plain)
  show "json_plain (sanitizeReason reason) \<longleftrightarrow> (\<forall>c\<in>set reason. 32 \<le> code c \<or> c = newline \<or> c = CHR 0x0D)"
    by (simp add: json_plain_def sanitizeReason_def sanitize_byte_plain sanitize_byte_control)
  show "\<forall>i<length reason. sanitizeReason reason ! i = reason ! i \<or> reason ! i \<in> {quote, backslash, newline, CHR 0x0D}"
    by (simp add: sanitizeReason_def) (simp add: sanitize_byte_def)
qed (simp_all add: writeError_def sanitizeReason_def)

lemma error_body_json_iff_witness:
  "\<exists>m. rp_body (writeError 500 (''open a'' @ CHR 0x09 # ''b'')) = error_head @ m @ quote # ''}'' \<and> \<not> json_plain m"
  using error_body_json_iff[of 500 "''open a'' @ CHR 0x09 # ''b''" CleanEOF] by auto

lemma wrap64_above: "2 ^ 63 \<le> x \<Longrightarrow> x < 2 ^ 63 + 2 ^ 64 \<Longrightarrow> wrap64 x = x - 2 ^ 64"
proof -
  assume "2 ^ 63 \<le> x" "x < 2 ^ 63 + 2 ^ 64"
  then have "(x + 2 ^ 63 - 2 ^ 64) mod 2 ^ 64 = x + 2 ^ 63 - 2 ^ 64" by (intro mod_pos_pos_trivial) simp_all
  then show ?thesis unfolding wrap64_def minus_mod_self2 by simp
qed

lemma recv_window_small:
  assumes "rq_query r ''timeout'' = decimal n" and n: "n \<le> 9223372021"
  shows "recv_window r = int n * second"
proof -
  have "recv_timeout r = int n" using assms atoi_decimal[of n] by (simp add: recv_timeout_def)
  moreover have "wrap64 (int n * second) = int n * second" "wrap64 (int n * second + 15 * second) = int n * second + 15 * second"
    using n by (intro wrap64_id; simp add: second_def)+
  ultimately show ?thesis by (simp add: recv_window_def second_def)
qed

text \<open>The poll window of a receive. Without a number the window is 120 s, and a number of seconds up
  to 9223372021 is the window; beyond that the 64-bit duration overflows, and from 9223372037 on the
  deadline lies in the past: the longest waits asked for do not wait at all.\<close>

lemma recv_window_exact:
  assumes "n < 2 ^ 63"
  shows "(rq_query r ''timeout'' = decimal n \<longrightarrow>
      (n \<le> 9223372021 \<longrightarrow> recv_window r = int n * second) \<and>
      (9223372037 \<le> n \<and> n \<le> 18446744073 \<longrightarrow> recv_window r < 0)) \<and>
    (atoi (rq_query r ''timeout'') = None \<longrightarrow> recv_window r = 120 * second)"
proof (intro conjI impI)
  assume "rq_query r ''timeout'' = decimal n" and "n \<le> 9223372021"
  then show "recv_window r = int n * second" by (rule recv_window_small)
next
  assume "rq_query r ''timeout'' = decimal n" and n: "9223372037 \<le> n \<and> n \<le> 18446744073"
  then have "recv_timeout r = int n" using atoi_decimal[OF assms] by (simp add: recv_timeout_def)
  moreover have "wrap64 (int n * second) = int n * second - 2 ^ 64"
    using n by (intro wrap64_above; simp add: second_def)
  moreover have "int n * second - 2 ^ 64 < 0" using n by (simp add: second_def)
  ultimately show "recv_window r < 0" by (simp add: recv_window_def)
next
  assume "atoi (rq_query r ''timeout'') = None"
  then have "recv_timeout r = 120" by (simp add: recv_timeout_def recvDefaultTimeout_def Let_def)
  then show "recv_window r = 120 * second" by (simp add: recv_window_def second_def wrap64_def)
qed

lemma recv_window_exact_witness:
  "recv_window (witness_request\<lparr>rq_query := (\<lambda>k. decimal 9223372037)\<rparr>) < 0"
  using recv_window_exact[of 9223372037 "witness_request\<lparr>rq_query := (\<lambda>k. decimal 9223372037)\<rparr>"] by simp

end
