(* ===== verification/RecvBody.thy ===== *)
theory RecvBody
  imports Httpd
begin

text \<open>
  The labeled body of a received agent item: the builder of the server (in the httpd theory), its
  copy in the command line, and the parser of \<open>recvparse.go\<close> with the correlation token.
\<close>

section \<open>The correlation token\<close>

definition cidOpen :: string where "cidOpen = ''[clipbeam:cid=''"
definition cidClose :: string where "cidClose = '']''"

definition extractCid :: "string \<Rightarrow> string \<times> string" where
  "extractCid tx =
     (if \<not> has_prefix tx cidOpen then (tx, [])
      else (case index_byte tx (hd cidClose) of
          None \<Rightarrow> (tx, [])
        | Some e \<Rightarrow> (trim_prefix (drop (e + length cidClose) tx) '' '', drop (length cidOpen) (take e tx))))"

definition prependCid :: "string \<Rightarrow> string \<Rightarrow> string" where
  "prependCid cid tx = cidOpen @ cid @ cidClose @ '' '' @ tx"

section \<open>The parser\<close>

record recv_item =
  ri_type :: string
  ri_sender :: string
  ri_path :: string
  ri_text :: string
  ri_hasText :: bool
  ri_cid :: string

definition splitFirstColon :: "string \<Rightarrow> string \<times> string" where
  "splitFirstColon line =
     (case index_byte line (CHR '':'') of
        None \<Rightarrow> ([], line)
      | Some i \<Rightarrow>
          let v = drop (Suc i) line in
          (take i line, if v \<noteq> [] \<and> hd v = CHR '' '' then tl v else v))"

definition cut_line :: "string \<Rightarrow> string \<times> string" where
  "cut_line s = (case index_byte s newline of None \<Rightarrow> (s, []) | Some i \<Rightarrow> (take i s, drop (Suc i) s))"

lemma cut_line_length: "cut_line s = (l, r) \<Longrightarrow> r \<noteq> [] \<Longrightarrow> length r < length s"
  by (auto simp: cut_line_def split: option.splits)

definition set_label :: "recv_item \<Rightarrow> string \<Rightarrow> string \<Rightarrow> recv_item" where
  "set_label it label v =
     (if label = ''type'' then it\<lparr>ri_type := v\<rparr>
      else if label = ''sender'' then it\<lparr>ri_sender := v\<rparr>
      else if label = ''path'' then it\<lparr>ri_path := v\<rparr>
      else it)"

function recv_loop :: "recv_item \<Rightarrow> string \<Rightarrow> recv_item" where
  "recv_loop it s =
     (let (line, rest) = cut_line s; (label, v) = splitFirstColon line in
      if label = ''text'' then it\<lparr>ri_hasText := True, ri_text := (if rest \<noteq> [] then v @ newline # rest else v)\<rparr>
      else if rest = [] then set_label it label v
      else recv_loop (set_label it label v) rest)"
  by pat_completeness auto
termination
  by (relation "measure (\<lambda>(it, s). length s)") (auto dest: cut_line_length[OF sym])

declare recv_loop.simps [simp del]

definition parseRecvBody :: "string \<Rightarrow> recv_item" where
  "parseRecvBody body =
     (let it = recv_loop \<lparr>ri_type = [], ri_sender = [], ri_path = [], ri_text = [], ri_hasText = False, ri_cid = []\<rparr> body in
      if ri_hasText it
      then let (clean, cid) = extractCid (ri_text it) in it\<lparr>ri_text := clean, ri_cid := cid\<rparr>
      else it)"

section \<open>One line at a time\<close>

lemma cut_line_nl: "newline \<notin> set l \<Longrightarrow> cut_line (l @ newline # r) = (l, r)"
  by (simp add: cut_line_def index_byte_first)

lemma cut_line_last: "newline \<notin> set l \<Longrightarrow> cut_line l = (l, [])"
  by (simp add: cut_line_def)

lemma split_label: "CHR '':'' \<notin> set k \<Longrightarrow> splitFirstColon (k @ '': '' @ v) = (k, v)"
  using index_byte_first[of "CHR '':''" k "CHR '' '' # v"] by (simp add: splitFirstColon_def)

lemma recv_line:
  assumes "newline \<notin> set v" and "k \<in> {''type'', ''sender'', ''path''}" and "r \<noteq> []"
  shows "recv_loop it (k @ '': '' @ v @ newline # r) = recv_loop (set_label it k v) r"
proof -
  have "newline \<notin> set (k @ '': '' @ v)" "CHR '':'' \<notin> set k" "k \<noteq> ''text''" using assms(1,2) by auto
  then show ?thesis using cut_line_nl[of "k @ '': '' @ v" r] split_label[of k v] assms(3)
    by (subst recv_loop.simps) simp
qed

lemma recv_last_line:
  assumes "newline \<notin> set v" and "k \<in> {''type'', ''sender'', ''path''}"
  shows "recv_loop it (k @ '': '' @ v) = set_label it k v"
proof -
  have "newline \<notin> set (k @ '': '' @ v)" "CHR '':'' \<notin> set k" "k \<noteq> ''text''" using assms by auto
  then show ?thesis using cut_line_last[of "k @ '': '' @ v"] split_label[of k v]
    by (subst recv_loop.simps) simp
qed

text \<open>What the parser makes of a text: a line end that closes a single line is dropped.\<close>

definition received_text :: "string \<Rightarrow> string" where
  "received_text t = (if t \<noteq> [] \<and> last t = newline \<and> newline \<notin> set (butlast t) then butlast t else t)"

lemma recv_text_line:
  "recv_loop it (''text: '' @ t) = it\<lparr>ri_hasText := True, ri_text := received_text t\<rparr>"
proof (cases "newline \<in> set t")
  case False
  then have "cut_line (''text: '' @ t) = (''text: '' @ t, [])" by (intro cut_line_last) simp
  moreover have "received_text t = t" using False by (auto simp: received_text_def dest: last_in_set)
  ultimately show ?thesis using split_label[of "''text''" t] by (subst recv_loop.simps) simp
next
  case True
  then obtain u v where t: "t = u @ newline # v" and u: "newline \<notin> set u" using split_list_first[of newline t] by blast
  then have "cut_line (''text: '' @ t) = (''text: '' @ u, v)" using cut_line_nl[of "''text: '' @ u" v] by simp
  moreover have "received_text t = (if v = [] then u else t)"
    using u by (auto simp: received_text_def t butlast_append)
  ultimately show ?thesis using split_label[of "''text''" u] t by (subst recv_loop.simps) simp
qed

lemma extract_prepend:
  assumes "CHR '']'' \<notin> set cid"
  shows "extractCid (prependCid cid tx) = (tx, cid)"
proof -
  have "CHR '']'' \<notin> set (cidOpen @ cid)" using assms by (simp add: cidOpen_def)
  from index_byte_first[OF this, of "'' '' @ tx"] show ?thesis
    by (simp add: extractCid_def prependCid_def cidClose_def trim_prefix_def has_prefix_def)
qed

lemma received_prepend: "newline \<notin> set c \<Longrightarrow> received_text (prependCid c tx) = prependCid c (received_text tx)"
  by (cases "tx = []") (auto simp: received_text_def prependCid_def cidOpen_def cidClose_def butlast_append)

lemma received_text_id: "received_text t = t \<longleftrightarrow> \<not> (\<exists>u. t = u @ [newline] \<and> newline \<notin> set u)"
  by (cases t rule: rev_cases) (auto simp: received_text_def)

text \<open>The two bodies.\<close>

lemma recv_head:
  assumes "newline \<notin> set ty" and "newline \<notin> set sender" and "r \<noteq> []"
    and "it = \<lparr>ri_type = [], ri_sender = [], ri_path = [], ri_text = [], ri_hasText = False, ri_cid = []\<rparr>"
  shows "recv_loop it (''type: '' @ ty @ newline # ''sender: '' @ sender @ newline # r) =
    recv_loop (it\<lparr>ri_type := ty, ri_sender := sender\<rparr>) r"
  using recv_line[OF assms(1), of "''type''" "''sender: '' @ sender @ newline # r" it]
    recv_line[OF assms(2), of "''sender''" r "it\<lparr>ri_type := ty\<rparr>"] assms(3) by (simp add: set_label_def)

lemma recv_body_text:
  assumes "newline \<notin> set ty" and "newline \<notin> set sender"
  shows "parseRecvBody (recvBodyString \<lparr>ai_type = ty, ai_sender = sender, ai_path = None, ai_text = Some t\<rparr>) =
      \<lparr>ri_type = ty, ri_sender = sender, ri_path = [], ri_text = fst (extractCid (received_text t)), ri_hasText = True,
       ri_cid = snd (extractCid (received_text t))\<rparr>"
  using recv_head[OF assms, of "''text: '' @ t"] recv_text_line[of _ t]
  by (simp add: parseRecvBody_def recvBodyString_def split: prod.splits)

lemma recv_body_path:
  assumes "newline \<notin> set ty" and "newline \<notin> set sender" and "newline \<notin> set p"
  shows "parseRecvBody (recvBodyString \<lparr>ai_type = ty, ai_sender = sender, ai_path = Some p, ai_text = None\<rparr>) =
      \<lparr>ri_type = ty, ri_sender = sender, ri_path = p, ri_text = [], ri_hasText = False, ri_cid = []\<rparr>"
  using recv_head[OF assms(1,2), of "''path: '' @ p"] recv_last_line[OF assms(3), of "''path''"]
  by (simp add: parseRecvBody_def recvBodyString_def set_label_def)

section \<open>Properties\<close>

text \<open>C28. What a reader makes of the body a server writes. For a type and a sender of one line, an item
  with a path comes back with exactly that path and no text; an item with a text comes back with the
  text, the token it starts with split off, and the token that the sender prepended is
  recovered. The text is the one that was sent, embedded line ends and colons included, except that a
  single line loses its closing line end.\<close>

theorem recv_body_roundtrip:
  assumes "newline \<notin> set ty" and "newline \<notin> set sender"
  shows "parseRecvBody (recvBodyString \<lparr>ai_type = ty, ai_sender = sender, ai_path = None, ai_text = Some t\<rparr>) =
      \<lparr>ri_type = ty, ri_sender = sender, ri_path = [], ri_text = fst (extractCid (received_text t)), ri_hasText = True,
       ri_cid = snd (extractCid (received_text t))\<rparr> \<and>
    (newline \<notin> set p \<longrightarrow>
     parseRecvBody (recvBodyString \<lparr>ai_type = ty, ai_sender = sender, ai_path = Some p, ai_text = None\<rparr>) =
      \<lparr>ri_type = ty, ri_sender = sender, ri_path = p, ri_text = [], ri_hasText = False, ri_cid = []\<rparr>) \<and>
    (newline \<notin> set cid \<and> CHR '']'' \<notin> set cid \<longrightarrow>
     parseRecvBody (recvBodyString \<lparr>ai_type = ty, ai_sender = sender, ai_path = None, ai_text = Some (prependCid cid t)\<rparr>) =
      \<lparr>ri_type = ty, ri_sender = sender, ri_path = [], ri_text = received_text t, ri_hasText = True, ri_cid = cid\<rparr>) \<and>
    (received_text t = t \<longleftrightarrow> \<not> (\<exists>u. t = u @ [newline] \<and> newline \<notin> set u))"
proof -
  note tx = recv_body_text[OF assms] and pth = recv_body_path[OF assms]
  show ?thesis using tx pth received_prepend extract_prepend by (simp add: received_text_id)
qed

theorem recv_body_roundtrip_witness:
  "parseRecvBody (recvBodyString \<lparr>ai_type = ''text'', ai_sender = [], ai_path = None,
       ai_text = Some (prependCid ''7f'' (''a: b'' @ newline # ''c''))\<rparr>) =
     \<lparr>ri_type = ''text'', ri_sender = [], ri_path = [], ri_text = ''a: b'' @ newline # ''c'', ri_hasText = True, ri_cid = ''7f''\<rparr> \<and>
   ri_text (parseRecvBody (recvBodyString \<lparr>ai_type = ''text'', ai_sender = [], ai_path = None, ai_text = Some (''a'' @ [newline])\<rparr>)) = ''a''"
proof -
  have "received_text (''a: b'' @ newline # ''c'') = ''a: b'' @ newline # ''c''" "received_text (''a'' @ [newline]) = ''a''"
    by (simp_all add: received_text_def)
  moreover have "extractCid ''a'' = (''a'', [])" by (simp add: extractCid_def has_prefix_def cidOpen_def)
  ultimately show ?thesis
    using recv_body_roundtrip[of "''text''" "[]" "''a: b'' @ newline # ''c''" "[]" "''7f''"]
      recv_body_roundtrip[of "''text''" "[]" "''a'' @ [newline]" "[]" "[]"] by simp
qed

end
