(* ===== verification/ReadVerbs.thy ===== *)
theory ReadVerbs
  imports RecvBody
begin

text \<open>
  The reading commands (\<open>verbs_read.go\<close>, \<open>control.go\<close>, \<open>status.go\<close>): the client of the local daemon
  and what \<open>last\<close>, \<open>wait\<close> and \<open>recv\<close> print from its answer, or from disk when there is no daemon. The
  outcome of the HTTP call, the resolved paths and the decoding of a JSON error body are parameters.
\<close>

section \<open>The client\<close>

record control_client =
  cc_unix :: bool
  cc_host :: string
  cc_token :: string
  cc_overTCP :: bool

definition portString :: "nat \<Rightarrow> string" where
  "portString p = decimal (if p = 0 then 8787 else p)"

definition controlSocketPath :: "string \<Rightarrow> string option \<Rightarrow> string option" where
  "controlSocketPath runtime_dir home =
     (if runtime_dir \<noteq> [] \<and> has_prefix runtime_dir ''/''
      then Some (path_join runtime_dir ''clipbeam/clipbeam.sock'')
      else (case home of
          Some h \<Rightarrow> if h = [] then None else Some (path_join h ''.clipbeam/clipbeam.sock'')
        | None \<Rightarrow> None))"

definition newControlClient :: "string option \<Rightarrow> (string \<Rightarrow> bool) \<Rightarrow> nat \<Rightarrow> string \<Rightarrow> control_client" where
  "newControlClient sock stat_ok port token =
     (case sock of
        Some p \<Rightarrow>
          if stat_ok p then \<lparr>cc_unix = True, cc_host = ''clipbeam.local'', cc_token = [], cc_overTCP = False\<rparr>
          else \<lparr>cc_unix = False, cc_host = ''127.0.0.1:'' @ portString port, cc_token = token, cc_overTCP = True\<rparr>
      | None \<Rightarrow> \<lparr>cc_unix = False, cc_host = ''127.0.0.1:'' @ portString port, cc_token = token, cc_overTCP = True\<rparr>)"

text \<open>The request \<open>get\<close> sends, as the server sees it from the source address \<open>remote\<close>.\<close>

definition get_request :: "control_client \<Rightarrow> string \<Rightarrow> (string \<Rightarrow> string) \<Rightarrow> request" where
  "get_request c remote query =
     \<lparr>rq_method = ''GET'', rq_remote = remote,
      rq_header = (\<lambda>k. if k = tokenHeader \<and> cc_overTCP c \<and> cc_token c \<noteq> [] then [cc_token c] else []),
      rq_query = query, rq_length = 0, rq_body = ([], CleanEOF)\<rparr>"

text \<open>\<open>itoa\<close>: the negation of the least integer overflows, and its digits are lost.\<close>

definition cli_itoa :: "int \<Rightarrow> string" where
  "cli_itoa n =
     (if n = 0 then ''0''
      else let m = (if n < 0 then wrap64 (- n) else n); ds = itoa_loop (nat m) [] in
        if n < 0 then CHR ''-'' # ds else ds)"

section \<open>Failures\<close>

text \<open>What the commands ask of an error of the HTTP call: \<open>errors.As\<close> to \<open>net.Error\<close> and to
  \<open>*net.OpError\<close>, \<open>errors.Is\<close> of the two errnos and of the context errors, and whether the context is done.\<close>

record get_error =
  ge_msg :: string
  ge_netError :: bool
  ge_opError :: bool
  ge_refused :: bool
  ge_notExist :: bool
  ge_ctxDone :: bool
  ge_deadline :: bool

datatype get_result = GetFail get_error | GetStatus nat string

definition isDaemonUnreachable :: "get_error \<Rightarrow> bool" where
  "isDaemonUnreachable e \<longleftrightarrow> ge_netError e \<or> ge_opError e \<or> ge_refused e \<or> ge_notExist e"

definition isTimeout :: "get_error \<Rightarrow> bool" where
  "isTimeout e \<longleftrightarrow> ge_ctxDone e \<or> ge_deadline e"

definition em_dash :: string where
  "em_dash = [CHR 0xE2, CHR 0x80, CHR 0x94]"

definition transportErr :: "get_error \<Rightarrow> cli_error" where
  "transportErr e =
     plain_error (if ge_netError e
       then ''cannot reach the clipbeam daemon ('' @ ge_msg e @ '') '' @ em_dash @ '' is `clipbeam serve` running?''
       else ''cannot reach the clipbeam daemon: '' @ ge_msg e @ '' (is `clipbeam serve` running?)'')"

text \<open>\<open>peerErrorReason\<close>: the decoding of the body is a parameter.\<close>

definition statusErr :: "(string \<Rightarrow> string option) \<Rightarrow> nat \<Rightarrow> string \<Rightarrow> cli_error" where
  "statusErr error_field status body =
     (let reason = (if body = [] then [] else (case error_field body of None \<Rightarrow> [] | Some x \<Rightarrow> x));
          cd = httpStatusToExit (int status) in
      if reason = [] then codedf cd (''peer HTTP '' @ decimal status)
      else codedf cd (''peer HTTP '' @ decimal status @ '': '' @ reason))"

section \<open>Output\<close>

definition schemaVersion :: string where "schemaVersion = ''clipbeam.v1''"

definition jnull :: "string option \<Rightarrow> string" where
  "jnull v = (case v of None \<Rightarrow> ''null'' | Some x \<Rightarrow> jstr x)"

definition json_head :: string where
  "json_head = CHR ''{'' # jmember ''schema'' (jstr schemaVersion) @ CHR '','' # jmember ''ok'' (marshal_bool True)"

definition pathJSON :: "string option \<Rightarrow> string" where
  "pathJSON p = json_head @ CHR '','' # jmember ''path'' (jnull p) @ ''}''"

definition recvTimeoutJSON :: string where
  "recvTimeoutJSON = json_head @ CHR '','' # jmember ''item'' ''null}''"

definition nilIfEmpty :: "string \<Rightarrow> string option" where
  "nilIfEmpty s = (if s = [] then None else Some s)"

definition textPtr :: "recv_item \<Rightarrow> string option" where
  "textPtr it = (if ri_hasText it then Some (ri_text it) else None)"

definition recvJSON :: "recv_item \<Rightarrow> string" where
  "recvJSON it =
     json_head @ CHR '','' # jmember ''type'' (jstr (ri_type it)) @ CHR '','' # jmember ''sender'' (jstr (ri_sender it)) @
     CHR '','' # jmember ''path'' (jnull (nilIfEmpty (ri_path it))) @ CHR '','' # jmember ''text'' (jnull (textPtr it)) @
     CHR '','' # jmember ''channel'' (jstr ''agent'') @ CHR '','' # jmember ''cid'' (jnull (nilIfEmpty (ri_cid it))) @ ''}''"

text \<open>A command ends with an error or none, and the streams.\<close>

type_synonym verb_result = "cli_error option \<times> streams"

definition emitJSON :: "string \<Rightarrow> streams \<Rightarrow> verb_result" where
  "emitJSON text st = (None, dataln text st)"

definition emitPath :: "global_flags \<Rightarrow> string \<Rightarrow> streams \<Rightarrow> verb_result" where
  "emitPath g path st = (if gf_json g then emitJSON (pathJSON (Some path)) st else (None, data path st))"

definition emitNothingPath :: "global_flags \<Rightarrow> streams \<Rightarrow> verb_result" where
  "emitNothingPath g st = (if gf_json g then emitJSON (pathJSON None) st else (None, st))"

definition emitRecvTimeout :: "global_flags \<Rightarrow> streams \<Rightarrow> verb_result" where
  "emitRecvTimeout g st = (if gf_json g then emitJSON recvTimeoutJSON st else (None, st))"

definition emitLastPathFromDisk :: "global_flags \<Rightarrow> string option \<Rightarrow> streams \<Rightarrow> verb_result" where
  "emitLastPathFromDisk g disk st = (case disk of Some p \<Rightarrow> emitPath g p st | None \<Rightarrow> emitNothingPath g st)"

section \<open>The commands\<close>

text \<open>The shared end of \<open>last\<close> and \<open>wait\<close> on a status.\<close>

definition path_status :: "(string \<Rightarrow> string option) \<Rightarrow> global_flags \<Rightarrow> nat \<Rightarrow> string \<Rightarrow> streams \<Rightarrow> verb_result" where
  "path_status error_field g status body st =
     (if status = 200 then emitPath g body st
      else if status = 204 then emitNothingPath g st
      else (Some (statusErr error_field status body), st))"

definition runLast :: "(string \<Rightarrow> string option) \<Rightarrow> global_flags \<Rightarrow> get_result \<Rightarrow> string option \<Rightarrow> streams \<Rightarrow> verb_result" where
  "runLast error_field g res disk st =
     (case res of
        GetFail e \<Rightarrow>
          if isDaemonUnreachable e then emitLastPathFromDisk g disk st
          else (coded ExitUnreachable (Some (transportErr e)), st)
      | GetStatus status body \<Rightarrow> path_status error_field g status body st)"

definition runWait :: "(string \<Rightarrow> string option) \<Rightarrow> global_flags \<Rightarrow> get_result \<Rightarrow> string option \<Rightarrow> streams \<Rightarrow> verb_result" where
  "runWait error_field g res disk st =
     (case res of
        GetFail e \<Rightarrow>
          if isTimeout e then emitNothingPath g st
          else if isDaemonUnreachable e then emitLastPathFromDisk g disk st
          else (coded ExitUnreachable (Some (transportErr e)), st)
      | GetStatus status body \<Rightarrow> path_status error_field g status body st)"

text \<open>The command line's copy of the body builder.\<close>

definition cli_recvBodyString :: "agent_item \<Rightarrow> string" where
  "cli_recvBodyString it =
     concat ([''type: '', ai_type it, newline # ''sender: '', ai_sender it] @
       (case ai_path it of Some p \<Rightarrow> [newline # ''path: '', p] | None \<Rightarrow> []) @
       (case ai_text it of Some t \<Rightarrow> [newline # ''text: '', t] | None \<Rightarrow> []))"

definition emit_item :: "global_flags \<Rightarrow> string \<Rightarrow> streams \<Rightarrow> verb_result" where
  "emit_item g body st = (if gf_json g then emitJSON (recvJSON (parseRecvBody body)) st else (None, data body st))"

text \<open>The drain of the journal yields a result and the new store; a drain that does not end is \<open>None\<close>.\<close>

definition drainAgentDiskAndEmit ::
  "global_flags \<Rightarrow> ('s \<Rightarrow> ((cli_error, agent_item option) result \<times> 's) option) \<Rightarrow> streams \<times> 's \<Rightarrow> (verb_result \<times> 's) option" where
  "drainAgentDiskAndEmit g drain ss =
     (let (st, s) = ss in
      map_option (\<lambda>(r, s').
          (case r of
             Inl e \<Rightarrow> (coded ExitGeneric (Some e), st)
           | Inr None \<Rightarrow> emitRecvTimeout g st
           | Inr (Some it) \<Rightarrow> emit_item g (cli_recvBodyString it) st, s'))
        (drain s))"

definition runRecv ::
  "(string \<Rightarrow> string option) \<Rightarrow> global_flags \<Rightarrow> get_result \<Rightarrow> ('s \<Rightarrow> ((cli_error, agent_item option) result \<times> 's) option) \<Rightarrow>
   streams \<times> 's \<Rightarrow> (verb_result \<times> 's) option" where
  "runRecv error_field g res drain ss =
     (let (st, s) = ss in
      case res of
        GetFail e \<Rightarrow>
          if isTimeout e then Some (emitRecvTimeout g st, s)
          else if isDaemonUnreachable e then drainAgentDiskAndEmit g drain ss
          else Some ((coded ExitUnreachable (Some (transportErr e)), st), s)
      | GetStatus status body \<Rightarrow>
          Some (if status = 200 then emit_item g body st
                else if status = 204 then emitRecvTimeout g st
                else (Some (statusErr error_field status body), st), s))"

section \<open>Lemmas\<close>

lemma cli_recvBody_eq: "cli_recvBodyString it = recvBodyString it"
  by (simp add: cli_recvBodyString_def recvBodyString_def split: option.splits)

lemma cli_itoa_nonneg: "0 \<le> n \<Longrightarrow> cli_itoa n = decimal (nat n)"
  using itoa_loop_decimal[of "nat n" "[]"] by (simp add: cli_itoa_def decimal_0)

definition response_result :: "http_response \<Rightarrow> get_result" where
  "response_result rp = GetStatus (rp_status rp) (rp_body rp)"

text \<open>A client and a server that belong together: the socket, or the loopback port with the shared token.\<close>

definition local_daemon :: "control_client \<Rightarrow> server_options \<Rightarrow> string \<Rightarrow> bool" where
  "local_daemon c opts remote \<longleftrightarrow>
     (if cc_unix c then so_listen opts = ListenUnixSocket
      else so_listen opts = ListenLoopbackTCP \<and> cc_overTCP c \<and> cc_token c = so_token opts \<and> so_token opts \<noteq> [] \<and>
        Classify (RemoteEndpoint remote) (so_peerHost opts) = Loopback)"

lemma local_daemon_authorized: "local_daemon c opts remote \<Longrightarrow> controlAuthorized opts (get_request c remote q) = (0, [])"
  by (auto simp: local_daemon_def controlAuthorized_class token_verdict_def get_request_def remoteHost_def headerPtr_def split: if_splits)

section \<open>Properties\<close>

text \<open>C27. The reading commands print the same with and without a daemon. When the store's last path
  is the one on disk, \<open>last\<close> through the daemon's route, over the socket or over the loopback port
  with the token, and \<open>last\<close> from disk when the dial fails give the same streams and no error, in
  every output mode; \<open>recv\<close> prints an item received from the daemon and the same item drained
  from the journal byte for byte alike; and a poll of n seconds asked of the client is the window the
  server waits.\<close>

theorem read_verbs_daemon_or_disk:
  assumes "local_daemon c opts remote" and "isDaemonUnreachable e" and "\<not> isTimeout e"
    and "rs_lastPath s = loadLastPath (rs_fs s) (cfg_LastPathFile (rs_cfg s))"
    and "drain d = Some (Inr item, d')" and "0 \<le> n" and "n \<le> 9223372021"
  shows "runLast ef g (response_result (handleLast opts (get_request c remote q) (LastPath s))) disk st =
      runLast ef g (GetFail e) (ReadLastPath (rs_fs s) (cfg_LastPathFile (rs_cfg s))) st \<and>
    runRecv ef g (response_result (fst (handleRecv opts (get_request c remote q) (\<lambda>w u. (Inr item, u)) ()))) drain (st, d') =
      runRecv ef g (GetFail e) drain (st, d) \<and>
    recv_window (get_request c remote (\<lambda>k. cli_itoa n)) = n * second"
proof (intro conjI)
  note auth = local_daemon_authorized[OF assms(1)]
  have get: "rq_method (get_request c remote q) = ''GET''" for q by (simp add: get_request_def)
  show "runLast ef g (response_result (handleLast opts (get_request c remote q) (LastPath s))) disk st =
      runLast ef g (GetFail e) (ReadLastPath (rs_fs s) (cfg_LastPathFile (rs_cfg s))) st"
    using assms(2,4) auth[of q] get[of q]
    by (simp add: runLast_def response_result_def handleLast_def LastPath_def ReadLastPath_def Let_def emitLastPathFromDisk_def
        writeBarePath_def noContent_def path_status_def)
  show "runRecv ef g (response_result (fst (handleRecv opts (get_request c remote q) (\<lambda>w u. (Inr item, u)) ()))) drain (st, d') =
      runRecv ef g (GetFail e) drain (st, d)"
    using assms(2,3,5) auth[of q] get[of q]
    by (cases item) (simp_all add: runRecv_def response_result_def handleRecv_def drainAgentDiskAndEmit_def noContent_def
        writeRecvBody_def cli_recvBody_eq Let_def)
  show "recv_window (get_request c remote (\<lambda>k. cli_itoa n)) = n * second"
    using recv_window_small[of "get_request c remote (\<lambda>k. cli_itoa n)" "nat n"] assms(6,7) cli_itoa_nonneg
    by (simp add: get_request_def nat_le_iff)
qed

definition witness_error :: get_error where
  "witness_error = \<lparr>ge_msg = ''dial'', ge_netError = True, ge_opError = True, ge_refused = True, ge_notExist = False,
     ge_ctxDone = False, ge_deadline = False\<rparr>"

definition witness_drain :: "unit \<Rightarrow> ((cli_error, agent_item option) result \<times> unit) option" where
  "witness_drain u = Some (Inr (Some \<lparr>ai_type = ''text'', ai_sender = [], ai_path = None, ai_text = Some ''hi''\<rparr>), ())"

definition witness_client :: control_client where
  "witness_client = newControlClient (Some ''/s'') (\<lambda>p. True) 0 []"

definition witness_daemon :: server_options where
  "witness_daemon = witness_options\<lparr>so_listen := ListenUnixSocket\<rparr>"

definition witness_flags :: global_flags where
  "witness_flags = \<lparr>gf_json = True, gf_noColor = False, gf_quiet = False, gf_verbose = False\<rparr>"

theorem read_verbs_daemon_or_disk_witness:
  "runRecv (\<lambda>b. None) witness_flags (GetFail witness_error) witness_drain (\<lparr>st_out = [], st_err = []\<rparr>, ()) =
   runRecv (\<lambda>b. None) witness_flags (response_result (fst (handleRecv witness_daemon (get_request witness_client [] (\<lambda>k. []))
        (\<lambda>w u. (Inr (Some \<lparr>ai_type = ''text'', ai_sender = [], ai_path = None, ai_text = Some ''hi''\<rparr>), u)) ())))
     witness_drain (\<lparr>st_out = [], st_err = []\<rparr>, ())"
proof -
  let ?s = "newConcrete undefined []"
  have "local_daemon witness_client witness_daemon []"
    by (simp add: local_daemon_def newControlClient_def witness_client_def witness_daemon_def)
  moreover have "isDaemonUnreachable witness_error" "\<not> isTimeout witness_error"
    by (simp_all add: witness_error_def isDaemonUnreachable_def isTimeout_def)
  moreover have "rs_lastPath ?s = loadLastPath (rs_fs ?s) (cfg_LastPathFile (rs_cfg ?s))"
    by (simp add: newConcrete_def)
  ultimately show ?thesis
    using read_verbs_daemon_or_disk[of witness_client witness_daemon "[]" witness_error ?s witness_drain "()" _ "()" 0 "\<lambda>b. None" witness_flags "\<lambda>k. []" _ "\<lparr>st_out = [], st_err = []\<rparr>", OF _ _ _ _ witness_drain_def]
    by simp
qed

end
