(* ===== verification/Shell.thy ===== *)
theory Shell
  imports GoStd
begin

text \<open>
  Quoting for the remote shell: \<open>shellQuote\<close> and \<open>shellQuotePosix\<close>, and the remote commands of the push
  and of \<open>setup\<close>. They are read back by the quoting rules of the POSIX shell (section 2.2 of the
  standard): backslash and single quotes, for commands that use no other mechanism at the top level.
\<close>

section \<open>The commands\<close>

abbreviation squote :: char where "squote \<equiv> CHR 0x27"
abbreviation bslash :: char where "bslash \<equiv> CHR 0x5C"

fun quote_loop :: "string \<Rightarrow> string" where
  "quote_loop [] = []"
| "quote_loop (c # s) = (if c = squote then [squote, bslash, squote, squote] else [c]) @ quote_loop s"

definition shellQuote :: "string \<Rightarrow> string" where
  "shellQuote s = squote # quote_loop s @ [squote]"

definition remoteIngestCommand :: "string \<Rightarrow> string" where
  "remoteIngestCommand remoteBin =
     (if remoteBin \<noteq> [] then shellQuote remoteBin @ '' ingest'' else ''clipbeam ingest'')"

definition versionCommand :: "string \<Rightarrow> string" where
  "versionCommand remoteBin = shellQuote remoteBin @ '' version --json''"

definition posixDir :: "string \<Rightarrow> string" where
  "posixDir p =
     (case last_index p slash of
        None \<Rightarrow> ''/''
      | Some i \<Rightarrow> if i = 0 then ''/'' else take i p)"

text \<open>The command of \<open>streamBinary\<close>, as its list of simple commands joined by \<open>&&\<close>.\<close>

definition placeCommands :: "string \<Rightarrow> string list" where
  "placeCommands remoteBin =
     (let dir = shellQuote (posixDir remoteBin); tmp = shellQuote (remoteBin @ ''.clipbeam-tmp''); fin = shellQuote remoteBin in
      [''mkdir -p '' @ dir, ''cat > '' @ tmp, ''chmod 755 '' @ tmp, ''mv -f '' @ tmp @ '' '' @ fin])"

definition placeCommand :: "string \<Rightarrow> string" where
  "placeCommand remoteBin =
     (case placeCommands remoteBin of
        c # cs \<Rightarrow> c @ concat (map (\<lambda>d. '' && '' @ d) cs) | [] \<Rightarrow> [])"

definition rawInstallURL :: string where
  "rawInstallURL = ''https://raw.githubusercontent.com/vybzai/clipbeam-cli/main/install.sh''"

definition releaseTail :: string where
  "releaseTail = ''; '' @
     ''if command -v curl >/dev/null 2>&1; then curl -fsSL '' @ rawInstallURL @ '' | sh; '' @
     ''elif command -v wget >/dev/null 2>&1; then wget -qO- '' @ rawInstallURL @ '' | sh; '' @
     ''else echo '' @ [CHR 0x22] @ ''clipbeam: need curl or wget on the remote'' @ [CHR 0x22] @ '' >&2; exit 127; fi''"

definition releaseInstallCommand :: "string \<Rightarrow> string" where
  "releaseInstallCommand version =
     ''sh -c '' @ [squote] @ ''set -e; '' @ ''export CLIPBEAM_VERSION='' @ shellQuote version @ releaseTail @ [squote]"

section \<open>How a shell reads them\<close>

text \<open>
  A command line is read as words and operator characters. Characters that start another mechanism of
  the shell outside quotes (expansion, globbing, comments, double quotes) are given up on.
\<close>

datatype shtok = W string | Op char

definition sh_op :: "char \<Rightarrow> bool" where
  "sh_op c \<longleftrightarrow> c \<in> set ''|&;<>()'' \<or> c = newline"

definition sh_special :: "char \<Rightarrow> bool" where
  "sh_special c \<longleftrightarrow> c \<in> set ''$`*?[]#~=%!{}'' \<or> c = CHR 0x22"

definition sh_blank :: "char \<Rightarrow> bool" where
  "sh_blank c \<longleftrightarrow> c = CHR '' '' \<or> c = CHR 0x09"

definition flush_word :: "string option \<Rightarrow> shtok list" where
  "flush_word w = (case w of None \<Rightarrow> [] | Some x \<Rightarrow> [W x])"

definition word_text :: "string option \<Rightarrow> string" where
  "word_text w = (case w of None \<Rightarrow> [] | Some x \<Rightarrow> x)"

function sh_read :: "string option \<Rightarrow> string \<Rightarrow> shtok list option" where
  "sh_read w s =
     (case s of
        [] \<Rightarrow> Some (flush_word w)
      | c # r \<Rightarrow>
          if c = squote then
            (case index_byte r squote of
               None \<Rightarrow> None
             | Some i \<Rightarrow> sh_read (Some (word_text w @ take i r)) (drop (Suc i) r))
          else if c = bslash then
            (case r of [] \<Rightarrow> None | d # r' \<Rightarrow> if d = newline then sh_read w r' else sh_read (Some (word_text w @ [d])) r')
          else if sh_blank c then map_option ((@) (flush_word w)) (sh_read None r)
          else if sh_op c then map_option ((@) (flush_word w @ [Op c])) (sh_read None r)
          else if sh_special c then None
          else sh_read (Some (word_text w @ [c])) r)"
  by pat_completeness auto
termination by (relation "measure (\<lambda>(w, s). length s)") auto

declare sh_read.simps [simp del]

definition sh_words :: "string \<Rightarrow> shtok list option" where
  "sh_words s = sh_read None s"

definition sh_plain :: "string \<Rightarrow> bool" where
  "sh_plain s \<longleftrightarrow> (\<forall>c\<in>set s. c \<noteq> squote \<and> c \<noteq> bslash \<and> \<not> sh_blank c \<and> \<not> sh_op c \<and> \<not> sh_special c)"

lemma sh_read_nil [simp]: "sh_read w [] = Some (flush_word w)"
  by (simp add: sh_read.simps)

lemma sh_read_blank: "sh_blank c \<Longrightarrow> sh_read w (c # r) = map_option ((@) (flush_word w)) (sh_read None r)"
  by (subst sh_read.simps) (auto simp: sh_blank_def)

lemma sh_read_plain: "sh_plain p \<Longrightarrow> p \<noteq> [] \<Longrightarrow> sh_read w (p @ r) = sh_read (Some (word_text w @ p)) r"
proof (induction p arbitrary: w)
  case (Cons c p)
  have "sh_read w ((c # p) @ r) = sh_read (Some (word_text w @ [c])) (p @ r)"
    using Cons.prems by (subst sh_read.simps) (simp add: sh_plain_def)
  also have "\<dots> = sh_read (Some (word_text w @ c # p)) r"
    using Cons by (cases "p = []") (simp_all add: sh_plain_def word_text_def)
  finally show ?case by simp
qed simp

lemma sh_read_quoted: "squote \<notin> set u \<Longrightarrow> sh_read w (squote # u @ squote # r) = sh_read (Some (word_text w @ u)) r"
  by (subst sh_read.simps) (simp add: index_byte_first)

lemma quote_loop_plain: "squote \<notin> set s \<Longrightarrow> quote_loop s = s"
  by (induction s) auto

lemma quote_loop_append: "quote_loop (u @ v) = quote_loop u @ quote_loop v"
  by (induction u) auto

text \<open>A quoted string reads as exactly itself, joined to the word it stands in.\<close>

lemma sh_read_shellQuote: "sh_read w (shellQuote s @ r) = sh_read (Some (word_text w @ s)) r"
proof (induction "length s" arbitrary: s w rule: less_induct)
  case less
  show ?case
  proof (cases "squote \<in> set s")
    case False
    then show ?thesis using sh_read_quoted[of s w r] by (simp add: shellQuote_def quote_loop_plain)
  next
    case True
    then obtain u v where s: "s = u @ squote # v" and u: "squote \<notin> set u" using split_list_first[of squote s] by blast
    have q: "shellQuote s @ r = squote # u @ squote # bslash # squote # shellQuote v @ r"
      using u by (simp add: shellQuote_def s quote_loop_append quote_loop_plain)
    have "sh_read w (shellQuote s @ r) = sh_read (Some (word_text w @ u)) (bslash # squote # shellQuote v @ r)"
      unfolding q by (rule sh_read_quoted[OF u])
    also have "\<dots> = sh_read (Some (word_text w @ u @ [squote])) (shellQuote v @ r)"
      by (subst sh_read.simps) (simp add: word_text_def)
    also have "\<dots> = sh_read (Some (word_text w @ s)) r"
      using less.hyps[of v] by (simp add: s word_text_def)
    finally show ?thesis .
  qed
qed

lemma append_one: "(@) [p] = (#) p"
  by auto

lemmas sh_reads = append_one sh_read_blank sh_read_shellQuote flush_word_def word_text_def

lemma sh_plain_words [simp]:
  "sh_plain ''ingest''" "sh_plain ''version''" "sh_plain ''--json''" "sh_plain ''mv''" "sh_plain ''-f''" "sh_plain ''mkdir''"
  "sh_plain ''-p''" "sh_plain ''chmod''" "sh_plain ''755''" "sh_plain ''sh''" "sh_plain ''-c''" "sh_plain ''cat''"
  "sh_plain ''clipbeam''"
  by (simp_all add: sh_plain_def sh_blank_def sh_op_def sh_special_def)

lemma blank_space [simp]: "sh_blank (CHR '' '')"
  by (simp add: sh_blank_def)

lemma sh_read_space [simp]: "sh_read None (CHR '' '' # r) = sh_read None r"
  by (simp add: sh_read_blank flush_word_def option.map_ident_strong)

lemma sh_read_op: "c \<in> {CHR ''&'', CHR ''>'', CHR '';''} \<Longrightarrow> sh_read None (c # r) = map_option ((#) (Op c)) (sh_read None r)"
  by (subst sh_read.simps) (auto simp: sh_op_def sh_blank_def flush_word_def append_one)

lemma sh_read_word: "sh_plain p \<Longrightarrow> p \<noteq> [] \<Longrightarrow> sh_read None (p @ CHR '' '' # r) = map_option ((#) (W p)) (sh_read None r)"
  using sh_read_plain[of p None "CHR '' '' # r"] by (simp add: sh_reads)

lemma sh_read_last: "sh_plain p \<Longrightarrow> p \<noteq> [] \<Longrightarrow> sh_read None p = Some [W p]"
  using sh_read_plain[of p None "[]"] by (simp add: flush_word_def word_text_def)

lemma sh_read_quote_word: "sh_read None (shellQuote s @ CHR '' '' # r) = map_option ((#) (W s)) (sh_read None r)"
  by (simp add: sh_reads)

lemma sh_read_quote_last: "sh_read None (shellQuote s) = Some [W s]"
  using sh_read_shellQuote[of None s "[]"] by (simp add: flush_word_def word_text_def)

lemmas sh_line = sh_read_quote_word sh_read_quote_last sh_read_op

lemma sh_read_words:
  "sh_read None (''mkdir -p '' @ r) = map_option (\<lambda>x. W ''mkdir'' # W ''-p'' # x) (sh_read None r)"
  "sh_read None (''cat > '' @ r) = map_option (\<lambda>x. W ''cat'' # Op CHR ''>'' # x) (sh_read None r)"
  "sh_read None (''chmod 755 '' @ r) = map_option (\<lambda>x. W ''chmod'' # W ''755'' # x) (sh_read None r)"
  "sh_read None (''mv -f '' @ r) = map_option (\<lambda>x. W ''mv'' # W ''-f'' # x) (sh_read None r)"
  "sh_read None (''&& '' @ r) = map_option (\<lambda>x. Op CHR ''&'' # Op CHR ''&'' # x) (sh_read None r)"
  using sh_read_word[of "''mkdir''" "''-p '' @ r"] sh_read_word[of "''-p''" r] sh_read_word[of "''cat''" "''> '' @ r"]
    sh_read_word[of "''chmod''" "''755 '' @ r"] sh_read_word[of "''755''" r] sh_read_word[of "''mv''" "''-f '' @ r"]
    sh_read_word[of "''-f''" r]
  by (simp_all add: sh_read_op option.map_comp o_def)


lemma sh_read_tail_words:
  "sh_read None ''ingest'' = Some [W ''ingest'']"
  "sh_read None ''clipbeam ingest'' = Some [W ''clipbeam'', W ''ingest'']"
  "sh_read None ''version --json'' = Some [W ''version'', W ''--json'']"
  using sh_read_last[of "''ingest''"] sh_read_word[of "''clipbeam''" "''ingest''"] sh_read_last[of "''--json''"]
    sh_read_word[of "''version''" "''--json''"]
  by simp_all

lemma placeCommand_read:
  "sh_read None (placeCommand p) =
     Some ([W ''mkdir'', W ''-p'', W (posixDir p), Op CHR ''&'', Op CHR ''&'']
       @ [W ''cat'', Op CHR ''>'', W (p @ ''.clipbeam-tmp''), Op CHR ''&'', Op CHR ''&'']
       @ [W ''chmod'', W ''755'', W (p @ ''.clipbeam-tmp''), Op CHR ''&'', Op CHR ''&'']
       @ [W ''mv'', W ''-f'', W (p @ ''.clipbeam-tmp''), W p])"
proof -
  let ?d = "shellQuote (posixDir p)" and ?t = "shellQuote (p @ ''.clipbeam-tmp'')"
  have "placeCommand p = ''mkdir -p '' @ ?d @ CHR '' '' # ''&& '' @ ''cat > '' @ ?t @ CHR '' '' # ''&& ''
      @ ''chmod 755 '' @ ?t @ CHR '' '' # ''&& '' @ ''mv -f '' @ ?t @ CHR '' '' # shellQuote p"
    by (simp add: placeCommand_def placeCommands_def Let_def)
  then show ?thesis
    by (simp only: sh_read_words sh_read_quote_word sh_read_quote_last) simp
qed

lemma sh_read_op_word: "sh_op c \<Longrightarrow> sh_read (Some w) (c # r) = map_option (\<lambda>x. W w # Op c # x) (sh_read None r)"
  by (subst sh_read.simps, cases "sh_read None r") (auto simp: sh_op_def sh_blank_def flush_word_def)

lemma sh_read_plain_any: "sh_plain p \<Longrightarrow> sh_read (Some w) (p @ r) = sh_read (Some (w @ p)) r"
  using sh_read_plain[of p "Some w" r] by (cases "p = []") (simp_all add: word_text_def)

lemma sh_plain_no_squote: "sh_plain p \<Longrightarrow> quote_loop p = p"
  by (rule quote_loop_plain) (auto simp: sh_plain_def)

definition releaseHead :: string where
  "releaseHead = ''set -e; '' @ ''export CLIPBEAM_VERSION=''"

lemma releaseHead_no_squote: "squote \<notin> set releaseHead"
  by (simp add: releaseHead_def)

lemma releaseTail_no_squote: "squote \<notin> set releaseTail"
  by (simp add: releaseTail_def rawInstallURL_def)

lemma release_read:
  "sh_read None (releaseInstallCommand v) =
     map_option (\<lambda>x. W ''sh'' # W ''-c'' # x) (sh_read (Some releaseHead) (quote_loop v @ squote # releaseTail @ [squote]))"
proof -
  have "releaseInstallCommand v = ''sh'' @ CHR '' '' # ''-c'' @ CHR '' '' # squote # releaseHead @ squote # (quote_loop v @ squote # releaseTail @ [squote])"
    by (simp add: releaseInstallCommand_def releaseHead_def shellQuote_def)
  then show ?thesis
    using sh_read_word[of "''sh''"] sh_read_word[of "''-c''"] sh_read_quoted[OF releaseHead_no_squote, of None]
    by (simp add: option.map_comp o_def word_text_def)
qed

lemma release_tail_read: "sh_read w (squote # releaseTail @ [squote]) = Some [W (word_text w @ releaseTail)]"
  using sh_read_quoted[OF releaseTail_no_squote, of w "[]"] by (simp add: flush_word_def)

lemma remoteIngest_words:
  "sh_words (remoteIngestCommand p) = Some [W (if p = [] then ''clipbeam'' else p), W ''ingest'']"
  using sh_read_quote_word[of p "''ingest''"] by (simp add: sh_words_def remoteIngestCommand_def sh_read_tail_words)


text \<open>The version pinned by \<open>setup --from-release\<close> is not protected by its quotes: they stand inside the
  single-quoted script of \<open>sh -c\<close>, so the first of them ends the script's quoting and the version is read bare.
  A version of plain characters still gives the intended script; a blank in it cuts the script in two words
  (the rest becomes \<open>$0\<close>), and a semicolon ends the command.\<close>

lemma releaseInstallCommand_unquoted:
  assumes "sh_plain a" "sh_plain b"
  shows "sh_words (releaseInstallCommand a) = Some [W ''sh'', W ''-c'', W (releaseHead @ a @ releaseTail)]
    \<and> sh_words (releaseInstallCommand (a @ '' '' @ b)) = Some [W ''sh'', W ''-c'', W (releaseHead @ a), W (b @ releaseTail)]
    \<and> sh_words (releaseInstallCommand (a @ '';'' @ b)) =
        Some [W ''sh'', W ''-c'', W (releaseHead @ a), Op CHR '';'', W (b @ releaseTail)]"
proof -
  have b: "sh_read None (b @ squote # releaseTail @ [squote]) = Some [W (b @ releaseTail)]"
    using sh_read_plain[OF assms(2), of None] by (cases "b = []") (simp_all add: release_tail_read word_text_def)
  have s: "sh_op (CHR '';'')" by (simp add: sh_op_def)
  show ?thesis
    using assms by (simp add: sh_words_def release_read quote_loop_append sh_plain_no_squote sh_read_plain_any release_tail_read
        sh_read_op_word[OF s] b sh_reads)
qed

lemma releaseInstallCommand_unquoted_witness:
  "sh_words (releaseInstallCommand ''1.2.0 beta'') =
     Some [W ''sh'', W ''-c'', W (releaseHead @ ''1.2.0''), W (''beta'' @ releaseTail)]"
proof -
  have "sh_plain ''1.2.0''" "sh_plain ''beta''"
    by (simp_all add: sh_plain_def sh_blank_def sh_op_def sh_special_def)
  from releaseInstallCommand_unquoted[OF this] show ?thesis by simp
qed

end
