(* ===== verification/Target.thy ===== *)
theory Target
  imports Exit GoStd
begin

text \<open>
  Targets of the sending commands: \<open>resolve.go\<close> of package \<open>sshx\<close> (from a spec and the user's ssh
  configuration to a target), the alias store of package \<open>config\<close> (\<open>alias.go\<close>), and the functions of
  \<open>verbs_send.go\<close> and \<open>verbs_setup_run.go\<close> that write an alias and turn it into a spec again. The ssh
  configuration is a parameter (\<open>Get\<close> and \<open>GetAll\<close> of the library), and so are the home directory
  and the existence of a file.
\<close>

section \<open>Targets\<close>

record target =
  tg_user :: string
  tg_host :: string
  tg_port :: int
  tg_identityFiles :: "string list"
  tg_configAlias :: string
  tg_acceptNew :: bool

record config_resolver =
  cr_get :: "string \<Rightarrow> string \<Rightarrow> string"
  cr_getAll :: "string \<Rightarrow> string \<Rightarrow> string list"

datatype resolve_error =
    EmptyTarget
  | NoHost string
  | MalformedIPv6 string
  | InvalidPort string
  | ProxyJumpSet string string
  | ProxyCommandSet string

text \<open>The sentinels a resolve error wraps.\<close>

fun resolve_wraps :: "resolve_error \<Rightarrow> sentinel list" where
  "resolve_wraps (ProxyJumpSet _ _) = [SshProxyJumpUnsupported]"
| "resolve_wraps (ProxyCommandSet _) = [SshProxyJumpUnsupported]"
| "resolve_wraps _ = []"

text \<open>\<open>net.JoinHostPort\<close>: a host with a colon is bracketed.\<close>

definition join_host_port :: "string \<Rightarrow> string \<Rightarrow> string" where
  "join_host_port h p = (if CHR '':'' \<in> set h then ''['' @ h @ '']:'' @ p else h @ '':'' @ p)"

definition itoa_int :: "int \<Rightarrow> string" where
  "itoa_int n = (if n < 0 then CHR ''-'' # decimal (nat (- n)) else decimal (nat n))"

definition target_addr :: "target \<Rightarrow> string" where
  "target_addr t = join_host_port (tg_host t) (itoa_int (if tg_port t = 0 then 22 else tg_port t))"

section \<open>Resolving a spec\<close>

text \<open>
  \<open>strings.EqualFold\<close> against a lower-case ASCII word: exact for the words compared here, none of whose
  letters has a folding outside ASCII.
\<close>

definition lower_char :: "char \<Rightarrow> char" where
  "lower_char c = (if 65 \<le> code c \<and> code c \<le> 90 then byte (code c + 32) else c)"

definition equal_fold :: "string \<Rightarrow> string \<Rightarrow> bool" where
  "equal_fold s t \<longleftrightarrow> map lower_char s = map lower_char t"

definition parse_port :: "string \<Rightarrow> string \<Rightarrow> (resolve_error, int) result" where
  "parse_port spec s =
     (case atoi s of None \<Rightarrow> Inl (InvalidPort spec) | Some p \<Rightarrow> if p \<le> 0 then Inl (InvalidPort spec) else Inr p)"

definition parse_host :: "string \<Rightarrow> string \<Rightarrow> string \<Rightarrow> (resolve_error, string \<times> string \<times> int) result" where
  "parse_host spec user rest =
     (if rest = [] then Inl (NoHost spec)
      else if has_prefix rest ''['' then
        (case index_byte rest (CHR '']'') of
           None \<Rightarrow> Inl (MalformedIPv6 spec)
         | Some e \<Rightarrow>
             let host = drop 1 (take e rest); tail = drop (Suc e) rest in
             if has_prefix tail '':'' then bind_result (parse_port spec (drop 1 tail)) (\<lambda>p. Inr (user, host, p))
             else Inr (user, host, 0))
      else if count_byte rest (CHR '':'') = 1 then
        (let i = the (index_byte rest (CHR '':'')) in
         bind_result (parse_port spec (drop (Suc i) rest)) (\<lambda>p. Inr (user, take i rest, p)))
      else Inr (user, rest, 0))"

definition parseSpec :: "string \<Rightarrow> (resolve_error, string \<times> string \<times> int) result" where
  "parseSpec spec =
     (case last_index spec (CHR ''@'') of
        Some at \<Rightarrow> parse_host spec (take at spec) (drop (Suc at) spec)
      | None \<Rightarrow> parse_host spec [] spec)"

text \<open>One identity file: expand, skip what was seen or does not exist.\<close>

fun identity_loop :: "string \<Rightarrow> (string \<Rightarrow> bool) \<Rightarrow> string list \<Rightarrow> string list \<Rightarrow> string list" where
  "identity_loop home stat_ok [] acc = acc"
| "identity_loop home stat_ok (f # fs) acc =
     (let f = trim_space f in
      if f = [] then identity_loop home stat_ok fs acc
      else
        let f = (if has_prefix f ''~/'' \<and> home \<noteq> [] then path_join home (drop 2 f) else f) in
        if f \<in> set acc then identity_loop home stat_ok fs acc
        else if \<not> stat_ok f then identity_loop home stat_ok fs acc
        else identity_loop home stat_ok fs (acc @ [f]))"

definition expandIdentityFiles :: "string \<Rightarrow> (string \<Rightarrow> bool) \<Rightarrow> string list \<Rightarrow> string list" where
  "expandIdentityFiles home stat_ok raw = identity_loop home stat_ok raw []"

text \<open>The port of the configuration: a positive number, or unset.\<close>

definition config_port :: "config_resolver \<Rightarrow> string \<Rightarrow> int" where
  "config_port r al =
     (let ps = cr_get r al ''Port'' in
      if ps \<noteq> [] then (case atoi ps of Some p \<Rightarrow> if 0 < p then p else 0 | None \<Rightarrow> 0) else 0)"

definition proxy_set :: "string \<Rightarrow> bool" where
  "proxy_set v \<longleftrightarrow> v \<noteq> [] \<and> \<not> equal_fold v ''none''"

definition build_target :: "config_resolver \<Rightarrow> string \<Rightarrow> (string \<Rightarrow> bool) \<Rightarrow> string \<Rightarrow> string \<Rightarrow> int \<Rightarrow> target" where
  "build_target r home stat_ok userPart al port =
     (let hn = cr_get r al ''HostName'';
          host = (if hn \<noteq> [] then hn else al);
          port1 = (if port = 0 then config_port r al else port)
      in \<lparr>tg_user = (if userPart = [] then cr_get r al ''User'' else userPart),
          tg_host = host,
          tg_port = (if port1 = 0 then 22 else port1),
          tg_identityFiles = expandIdentityFiles home stat_ok (cr_getAll r al ''IdentityFile''),
          tg_configAlias = (if al \<noteq> host then al else []),
          tg_acceptNew = False\<rparr>)"

definition resolveTargetWith ::
  "config_resolver \<Rightarrow> string \<Rightarrow> (string \<Rightarrow> bool) \<Rightarrow> string \<Rightarrow> (resolve_error, target) result" where
  "resolveTargetWith r home stat_ok rawSpec =
     (let spec = trim_space rawSpec in
      if spec = [] then Inl EmptyTarget
      else bind_result (parseSpec spec) (\<lambda>(userPart, al, port).
        if proxy_set (cr_get r al ''ProxyJump'') then Inl (ProxyJumpSet al (cr_get r al ''ProxyJump''))
        else if proxy_set (cr_get r al ''ProxyCommand'') then Inl (ProxyCommandSet al)
        else Inr (build_target r home stat_ok userPart al port)))"

section \<open>The alias store\<close>

record saved_alias =
  al_name :: string
  al_transport :: string
  al_sshUser :: string
  al_sshHost :: string
  al_sshPort :: int
  al_sshConfigAlias :: string
  al_remoteBinPath :: string
  al_serve :: string
  al_peerIP :: string
  al_default :: bool

record alias_store =
  as_aliases :: "saved_alias list"
  as_defaultAlias :: string

definition Lookup :: "alias_store \<Rightarrow> string \<Rightarrow> saved_alias option" where
  "Lookup s name = find (\<lambda>a. al_name a = (if name = [] then as_defaultAlias s else name)) (as_aliases s)"

fun port_digits :: "string \<Rightarrow> int \<Rightarrow> int option" where
  "port_digits [] n = Some n"
| "port_digits (c # s) n = (if is_digit c then port_digits s (n * 10 + int (digit_val c)) else None)"

definition atoiPort :: "string \<Rightarrow> int" where
  "atoiPort s =
     (if s = [] \<or> 5 < length s then 0
      else case port_digits s 0 of None \<Rightarrow> 0 | Some n \<Rightarrow> if n < 1 \<or> 65535 < n then 0 else n)"

definition parseSSHSpec :: "string \<Rightarrow> string \<times> string \<times> int" where
  "parseSSHSpec spec =
     (let (user, s) = (case last_index spec (CHR ''@'') of Some at \<Rightarrow> (take at spec, drop (Suc at) spec) | None \<Rightarrow> ([], spec)) in
      case last_index s (CHR '':'') of
        Some i \<Rightarrow>
          if count_byte s (CHR '':'') = 1 \<and> 0 < atoiPort (drop (Suc i) s) then (user, take i s, atoiPort (drop (Suc i) s))
          else (user, s, 0)
      | None \<Rightarrow> (user, s, 0))"

text \<open>The conditions of the host fallback, in the order of the loop's guards.\<close>

definition spec_matches :: "string \<Rightarrow> string \<Rightarrow> int \<Rightarrow> saved_alias \<Rightarrow> bool" where
  "spec_matches user host port a =
     (if al_transport a \<noteq> ''ssh'' \<or> al_sshHost a = [] then False
      else if al_sshHost a \<noteq> host then False
      else if user \<noteq> [] \<and> al_sshUser a \<noteq> [] \<and> user \<noteq> al_sshUser a then False
      else if port \<noteq> 0 \<and> al_sshPort a \<noteq> 0 \<and> port \<noteq> al_sshPort a then False
      else True)"

definition LookupSpec :: "alias_store \<Rightarrow> string \<Rightarrow> saved_alias option" where
  "LookupSpec s spec =
     (case Lookup s spec of
        Some a \<Rightarrow> Some a
      | None \<Rightarrow>
          if spec = [] then None
          else
            let (user, host, port) = parseSSHSpec spec in
            if host = [] then None else find (spec_matches user host port) (as_aliases s))"

section \<open>Writing an alias\<close>

text \<open>The loop of \<open>replaceAlias\<close>: the rewritten list, and whether an entry was replaced.\<close>

fun replace_loop :: "saved_alias list \<Rightarrow> saved_alias \<Rightarrow> saved_alias list \<times> bool" where
  "replace_loop [] a = ([], False)"
| "replace_loop (e # es) a =
     (let (rest, rep) = replace_loop es a in
      if al_name e = al_name a then (a # rest, True) else (e\<lparr>al_default := False\<rparr> # rest, rep))"

definition replaceAlias :: "saved_alias list \<Rightarrow> saved_alias \<Rightarrow> saved_alias list" where
  "replaceAlias aliases a = (let (l, replaced) = replace_loop aliases a in if replaced then l else l @ [a])"

definition aliasName :: "target \<Rightarrow> string \<Rightarrow> string" where
  "aliasName t spec =
     (if tg_configAlias t \<noteq> [] then tg_configAlias t
      else
        let s = (case last_index spec (CHR ''@'') of Some at \<Rightarrow> drop (Suc at) spec | None \<Rightarrow> spec);
            s' = (case last_index s (CHR '':'') of
                    Some i \<Rightarrow> if CHR '']'' \<notin> set (drop (Suc i) s) \<and> count_byte s (CHR '':'') = 1 then take i s else s
                  | None \<Rightarrow> s)
        in if s' = [] then tg_host t else s')"

definition new_alias :: "string \<Rightarrow> target \<Rightarrow> string \<Rightarrow> string \<Rightarrow> saved_alias" where
  "new_alias spec t remoteBin serve =
     \<lparr>al_name = aliasName t spec, al_transport = ''ssh'', al_sshUser = tg_user t, al_sshHost = tg_host t,
      al_sshPort = tg_port t, al_sshConfigAlias = tg_configAlias t, al_remoteBinPath = remoteBin, al_serve = serve,
      al_peerIP = [], al_default = True\<rparr>"

text \<open>The store \<open>recordAlias\<close> saves.\<close>

definition recordAlias :: "alias_store \<Rightarrow> string \<Rightarrow> target \<Rightarrow> string \<Rightarrow> string \<Rightarrow> alias_store" where
  "recordAlias s spec t remoteBin serve =
     s\<lparr>as_aliases := replaceAlias (as_aliases s) (new_alias spec t remoteBin serve),
       as_defaultAlias := aliasName t spec\<rparr>"

definition aliasSpec :: "saved_alias \<Rightarrow> string" where
  "aliasSpec a =
     (if al_sshConfigAlias a \<noteq> [] then al_sshConfigAlias a
      else if al_sshUser a \<noteq> [] then al_sshUser a @ ''@'' @ al_sshHost a
      else al_sshHost a)"

definition remoteHomeFor :: "string \<Rightarrow> string" where
  "remoteHomeFor user = (if user = [] \<or> user = ''root'' then ''/root'' else ''/home/'' @ user)"

section \<open>The alias store keeps its shape\<close>

lemma replace_loop_eq:
  "replace_loop es a =
     (map (\<lambda>e. if al_name e = al_name a then a else e\<lparr>al_default := False\<rparr>) es, al_name a \<in> al_name ` set es)"
  by (induction es) (auto simp: case_prod_beta)

lemma replaceAlias_eq:
  "replaceAlias es a =
     map (\<lambda>e. if al_name e = al_name a then a else e\<lparr>al_default := False\<rparr>) es
       @ (if al_name a \<in> al_name ` set es then [] else [a])"
  by (simp add: replaceAlias_def replace_loop_eq)

lemma replaceAlias_names:
  "map al_name (replaceAlias es a) =
     map al_name es @ (if al_name a \<in> al_name ` set es then [] else [al_name a])"
  by (auto simp: replaceAlias_eq)

lemma replaceAlias_distinct: "distinct (map al_name es) \<Longrightarrow> distinct (map al_name (replaceAlias es a))"
  unfolding replaceAlias_names by auto

lemma replaceAlias_defaults:
  assumes "distinct (map al_name es)" "al_default a"
  shows "filter al_default (replaceAlias es a) = [a]"
proof -
  have "filter al_default (map (\<lambda>e. if al_name e = al_name a then a else e\<lparr>al_default := False\<rparr>) es) =
      (if al_name a \<in> al_name ` set es then [a] else [])"
    using assms by (induction es) (auto split: if_splits)
  then show ?thesis using assms(2) by (simp add: replaceAlias_eq)
qed

lemma replaceAlias_idem: "al_default a \<Longrightarrow> replaceAlias (replaceAlias es a) a = replaceAlias es a"
  by (auto simp: replaceAlias_eq)

lemma find_append: "find P (xs @ ys) = (case find P xs of None \<Rightarrow> find P ys | Some x \<Rightarrow> Some x)"
  by (induction xs) auto

lemma find_map_replace:
  "find (\<lambda>e. al_name e = n) (map (\<lambda>e. if al_name e = al_name a then a else e\<lparr>al_default := False\<rparr>) es) =
     (if n = al_name a then (if n \<in> al_name ` set es then Some a else None)
      else map_option (\<lambda>e. e\<lparr>al_default := False\<rparr>) (find (\<lambda>e. al_name e = n) es))"
  by (induction es) auto

lemma find_replaced:
  "find (\<lambda>e. al_name e = n) (replaceAlias es a) =
     (if n = al_name a then Some a else map_option (\<lambda>e. e\<lparr>al_default := False\<rparr>) (find (\<lambda>e. al_name e = n) es))"
  by (auto simp: replaceAlias_eq find_append find_map_replace split: option.split)

lemma al_name_new [simp]: "al_name (new_alias spec t bin serve) = aliasName t spec"
  by (simp add: new_alias_def)

lemma al_default_new [simp]: "al_default (new_alias spec t bin serve)"
  by (simp add: new_alias_def)

lemma Lookup_recorded:
  "Lookup (recordAlias s spec t bin serve) [] = Some (new_alias spec t bin serve)"
  "Lookup (recordAlias s spec t bin serve) (aliasName t spec) = Some (new_alias spec t bin serve)"
  by (simp_all add: Lookup_def recordAlias_def find_replaced)

text \<open>C30. Recording a target keeps the alias store's names distinct, makes the recorded alias the only one
  with the default flag and the named default, finds it again under its name and under no name, keeps every
  other alias (but for the flag), and is idempotent.\<close>

theorem recordAlias_invariant:
  assumes "distinct (map al_name (as_aliases s))"
  shows "let s' = recordAlias s spec t bin serve; a = new_alias spec t bin serve; n = aliasName t spec in
    distinct (map al_name (as_aliases s'))
    \<and> filter al_default (as_aliases s') = [a] \<and> as_defaultAlias s' = n
    \<and> Lookup s' [] = Some a \<and> Lookup s' n = Some a
    \<and> (\<forall>m. m \<noteq> [] \<longrightarrow> m \<noteq> n \<longrightarrow> Lookup s' m = map_option (\<lambda>e. e\<lparr>al_default := False\<rparr>) (Lookup s m))
    \<and> recordAlias s' spec t bin serve = s'"
proof -
  let ?s = "recordAlias s spec t bin serve" and ?a = "new_alias spec t bin serve"
  have "distinct (map al_name (as_aliases ?s))" "filter al_default (as_aliases ?s) = [?a]"
    using assms replaceAlias_distinct[of "as_aliases s" ?a] replaceAlias_defaults[of "as_aliases s" ?a]
    by (simp_all add: recordAlias_def)
  moreover have "Lookup ?s m = map_option (\<lambda>e. e\<lparr>al_default := False\<rparr>) (Lookup s m)"
    if "m \<noteq> []" "m \<noteq> aliasName t spec" for m
    using that by (simp add: recordAlias_def Lookup_def find_replaced)
  moreover have "recordAlias ?s spec t bin serve = ?s" "as_defaultAlias ?s = aliasName t spec"
    by (simp_all add: recordAlias_def replaceAlias_idem)
  ultimately show ?thesis
    unfolding Let_def using Lookup_recorded[of s spec t bin serve] by blast
qed

section \<open>Specs of a user, a host and a port\<close>

definition ssh_spec :: "string \<Rightarrow> string \<Rightarrow> nat \<Rightarrow> string" where
  "ssh_spec u h p = (if u = [] then [] else u @ ''@'') @ h @ (if p = 0 then [] else CHR '':'' # decimal p)"

definition host_token :: "string \<Rightarrow> bool" where
  "host_token h \<longleftrightarrow> h \<noteq> [] \<and> (\<forall>c\<in>set h. graphic c \<and> c \<notin> set ''@:['')"

definition user_token :: "string \<Rightarrow> bool" where
  "user_token u \<longleftrightarrow> u = [] \<or> graphic (hd u)"

lemma decimal_not_in: "\<not> is_digit c \<Longrightarrow> c \<notin> set (decimal p)"
  using decimal_digits by blast

lemma nondigits [simp]: "\<not> is_digit (CHR ''@'')" "\<not> is_digit (CHR '':'')" "\<not> is_digit (CHR '']'')"
  by (simp_all add: is_digit_iff)

lemma digit_graphic: "is_digit c \<Longrightarrow> graphic c"
  by (auto simp: is_digit_iff graphic_def)

lemma host_tokenD:
  assumes "host_token h"
  shows "h \<noteq> []" "CHR ''@'' \<notin> set h" "CHR '':'' \<notin> set h" "CHR ''['' \<notin> set h" "graphic (hd h)" "graphic (last h)"
  using assms by (auto simp: host_token_def)

lemma ssh_spec_parts:
  "ssh_spec [] h p = h @ (if p = 0 then [] else CHR '':'' # decimal p)"
  "u \<noteq> [] \<Longrightarrow> ssh_spec u h p = u @ CHR ''@'' # ssh_spec [] h p"
  by (simp_all add: ssh_spec_def)

lemma ssh_spec_not_Nil: "host_token h \<Longrightarrow> ssh_spec u h p \<noteq> []"
  by (auto simp: ssh_spec_def host_token_def)

lemma trim_ssh_spec:
  assumes "host_token h" "user_token u"
  shows "trim_space (ssh_spec u h p) = ssh_spec u h p"
proof (rule trim_space_id)
  have "graphic (hd (ssh_spec u h p))"
    using assms by (cases u) (auto simp: ssh_spec_def user_token_def host_tokenD)
  moreover have "graphic (last (ssh_spec u h p))"
    using host_tokenD[OF assms(1)] digit_graphic[OF decimal_digits[OF last_in_set[OF decimal_not_Nil]]]
    by (auto simp: ssh_spec_def last_append)
  ultimately show "ssh_spec u h p = [] \<or> graphic (hd (ssh_spec u h p)) \<and> graphic (last (ssh_spec u h p))" by simp
qed

lemma at_notin_spec: "host_token h \<Longrightarrow> CHR ''@'' \<notin> set (ssh_spec [] h p)"
  using decimal_not_in[of "CHR ''@''"] by (simp add: ssh_spec_def host_tokenD)

lemma last_index_at:
  "host_token h \<Longrightarrow> last_index (ssh_spec u h p) (CHR ''@'') = (if u = [] then None else Some (length u))"
  using at_notin_spec[of h p] by (cases "u = []") (simp_all add: ssh_spec_parts(2) last_index_append)

lemma split_at_spec:
  assumes "host_token h"
  shows "(case last_index (ssh_spec u h p) (CHR ''@'') of
            Some k \<Rightarrow> f (take k (ssh_spec u h p)) (drop (Suc k) (ssh_spec u h p)) | None \<Rightarrow> f [] (ssh_spec u h p)) =
         f u (ssh_spec [] h p)"
  using assms by (cases "u = []") (simp_all add: last_index_at, simp_all add: ssh_spec_parts(2))

lemma colon_count: "host_token h \<Longrightarrow> count_byte (ssh_spec [] h p) (CHR '':'') = (if p = 0 then 0 else 1)"
  using decimal_not_in[of "CHR '':''" p] by (auto simp: ssh_spec_def host_tokenD count_notin)

lemma colon_index:
  "host_token h \<Longrightarrow> p \<noteq> 0 \<Longrightarrow> index_byte (ssh_spec [] h p) (CHR '':'') = Some (length h)
     \<and> last_index (ssh_spec [] h p) (CHR '':'') = Some (length h)"
  using decimal_not_in[of "CHR '':''" p] by (simp add: ssh_spec_def host_tokenD index_byte_first last_index_append)

lemma host_spec_0 [simp]: "ssh_spec [] h 0 = h"
  by (simp add: ssh_spec_def)

lemma host_spec_split:
  "take (length h) (ssh_spec [] h p) = h"
  "p \<noteq> 0 \<Longrightarrow> drop (Suc (length h)) (ssh_spec [] h p) = decimal p"
  by (simp_all add: ssh_spec_def)

lemmas host_spec = colon_count colon_index host_spec_split host_tokenD

lemma no_bracket: "host_token h \<Longrightarrow> \<not> has_prefix (ssh_spec [] h p) ''[''"
  using host_tokenD[of h] by (cases h) (auto simp: has_prefix_def ssh_spec_def)

lemma parseSpec_spec:
  assumes "host_token h" "p < 2 ^ 63"
  shows "parseSpec (ssh_spec u h p) = Inr (u, h, int p)"
proof -
  have "parseSpec (ssh_spec u h p) = parse_host (ssh_spec u h p) u (ssh_spec [] h p)"
    unfolding parseSpec_def by (rule split_at_spec[OF assms(1)])
  also have "\<dots> = Inr (u, h, int p)"
    using assms ssh_spec_not_Nil[OF assms(1), of "[]" p] no_bracket[OF assms(1), of p] atoi_decimal[OF assms(2)]
    by (cases "p = 0") (simp_all add: parse_host_def parse_port_def host_spec)
  finally show ?thesis .
qed

text \<open>The configuration sets no proxy for the host token.\<close>

definition direct :: "config_resolver \<Rightarrow> string \<Rightarrow> bool" where
  "direct r h \<longleftrightarrow> \<not> proxy_set (cr_get r h ''ProxyJump'') \<and> \<not> proxy_set (cr_get r h ''ProxyCommand'')"

lemma resolve_spec:
  assumes "host_token h" "user_token u" "p < 2 ^ 63" "direct r h"
  shows "resolveTargetWith r home stat_ok (ssh_spec u h p) = Inr (build_target r home stat_ok u h (int p))"
  using assms by (simp add: resolveTargetWith_def trim_ssh_spec ssh_spec_not_Nil parseSpec_spec direct_def)

lemma port_digits_value:
  "list_all is_digit s \<Longrightarrow> port_digits s (int n) = Some (int (foldl (\<lambda>v c. v * 10 + digit_val c) n s))"
proof (induction s arbitrary: n)
  case (Cons c s)
  then show ?case using Cons.IH[of "n * 10 + digit_val c"] by simp
qed simp

lemma atoiPort_decimal: "0 < p \<Longrightarrow> p \<le> 65535 \<Longrightarrow> atoiPort (decimal p) = int p"
proof -
  assume p: "0 < p" "p \<le> 65535"
  have "list_all is_digit (decimal p)" by (auto simp: list_all_iff decimal_digits)
  from port_digits_value[OF this, of 0] have "port_digits (decimal p) 0 = Some (int p)"
    by (simp flip: dec_value_def)
  moreover have "length (decimal p) \<le> 5" using p by (intro length_decimal_le) simp_all
  ultimately show ?thesis using p by (simp add: atoiPort_def)
qed

lemma parseSSHSpec_spec:
  assumes "host_token h" "p \<le> 65535"
  shows "parseSSHSpec (ssh_spec u h p) = (u, h, int p)"
proof -
  have "(case last_index (ssh_spec u h p) (CHR ''@'') of
          Some k \<Rightarrow> (take k (ssh_spec u h p), drop (Suc k) (ssh_spec u h p)) | None \<Rightarrow> ([], ssh_spec u h p)) = (u, ssh_spec [] h p)"
    by (rule split_at_spec[OF assms(1), of Pair u p])
  then show ?thesis
    using assms unfolding parseSSHSpec_def Let_def
    by (cases "p = 0") (simp_all add: host_spec atoiPort_decimal)
qed

lemma aliasName_spec:
  assumes "host_token h"
  shows "aliasName t (ssh_spec u h p) = (if tg_configAlias t \<noteq> [] then tg_configAlias t else h)"
proof -
  have "(case last_index (ssh_spec u h p) (CHR ''@'') of
          Some k \<Rightarrow> drop (Suc k) (ssh_spec u h p) | None \<Rightarrow> ssh_spec u h p) = ssh_spec [] h p"
    by (rule split_at_spec[OF assms(1), of "\<lambda>_ x. x" u p])
  then show ?thesis
    using assms decimal_not_in[of "CHR '']''" p] unfolding aliasName_def Let_def
    by (cases "p = 0") (simp_all add: host_spec)
qed

section \<open>A sending command after \<open>setup\<close>\<close>

text \<open>The host the configuration dials for a token, and the port and user it gives.\<close>

definition real_host :: "config_resolver \<Rightarrow> string \<Rightarrow> string" where
  "real_host r h = (if cr_get r h ''HostName'' \<noteq> [] then cr_get r h ''HostName'' else h)"

definition default_port :: "config_resolver \<Rightarrow> string \<Rightarrow> int" where
  "default_port r h = (if config_port r h = 0 then 22 else config_port r h)"

lemma build_target_sel [simp]:
  "tg_user (build_target r home stat_ok u h p) = (if u = [] then cr_get r h ''User'' else u)"
  "tg_host (build_target r home stat_ok u h p) = real_host r h"
  "tg_port (build_target r home stat_ok u h p) = (if p = 0 then default_port r h else p)"
  "tg_configAlias (build_target r home stat_ok u h p) = (if real_host r h = h then [] else h)"
  by (auto simp: build_target_def real_host_def default_port_def Let_def)

text \<open>The spec of the recorded alias: the host token alone when the configuration rewrites the host.\<close>

lemma aliasSpec_recorded:
  assumes "host_token h"
  shows "aliasSpec (new_alias spec (build_target r home stat_ok u h p) bin serve) =
    ssh_spec (if real_host r h = h then (if u = [] then cr_get r h ''User'' else u) else []) h 0"
  using host_tokenD(1)[OF assms] by (simp add: aliasSpec_def new_alias_def ssh_spec_def)

lemma resolve_recorded:
  assumes "host_token h" "user_token u" "user_token (cr_get r h ''User'')" "direct r h"
  shows "resolveTargetWith r home stat_ok (aliasSpec (new_alias spec (build_target r home stat_ok u h p) bin serve)) =
    Inr ((build_target r home stat_ok u h p)\<lparr>tg_port := default_port r h,
      tg_user := (if u = [] \<or> real_host r h \<noteq> h then cr_get r h ''User'' else u)\<rparr>)"
proof -
  let ?v = "if real_host r h = h then (if u = [] then cr_get r h ''User'' else u) else []"
  have "user_token ?v" using assms by (auto simp: user_token_def)
  then have "resolveTargetWith r home stat_ok (ssh_spec ?v h 0) = Inr (build_target r home stat_ok ?v h 0)"
    using resolve_spec[OF assms(1) _ _ assms(4), of ?v 0] by simp
  also have "build_target r home stat_ok ?v h 0 = (build_target r home stat_ok u h p)\<lparr>tg_port := default_port r h,
      tg_user := (if u = [] \<or> real_host r h \<noteq> h then cr_get r h ''User'' else u)\<rparr>"
    by (simp add: build_target_def default_port_def Let_def)
  finally show ?thesis by (simp add: aliasSpec_recorded[OF assms(1)])
qed

text \<open>C39. What a sending command dials after \<open>setup\<close> of a spec \<open>[user@]host[:port]\<close>: the recorded alias is
  found and carries the remote binary path, and its spec resolves to the target of \<open>setup\<close> except that the
  port is the one of the ssh configuration (22 by default), and the user is the configuration's when it
  rewrites the host name. So an explicit port is lost, and so is an explicit user of a configured host.\<close>

theorem setup_then_send:
  assumes "host_token h" "user_token u" "user_token (cr_get r h ''User'')" "direct r h" "p \<le> 65535"
  shows "\<exists>t. resolveTargetWith r home stat_ok (ssh_spec u h p) = Inr t
    \<and> tg_host t = real_host r h
    \<and> tg_port t = (if p = 0 then default_port r h else int p)
    \<and> tg_user t = (if u = [] then cr_get r h ''User'' else u)
    \<and> (let s' = recordAlias s (ssh_spec u h p) t bin serve in \<exists>a. Lookup s' [] = Some a \<and> al_remoteBinPath a = bin
         \<and> resolveTargetWith r home stat_ok (aliasSpec a) =
             Inr (t\<lparr>tg_port := default_port r h, tg_user := (if real_host r h = h then tg_user t else cr_get r h ''User'')\<rparr>))"
proof -
  let ?t = "build_target r home stat_ok u h (int p)"
  have "resolveTargetWith r home stat_ok (ssh_spec u h p) = Inr ?t"
    using assms by (intro resolve_spec) simp_all
  moreover have "al_remoteBinPath (new_alias (ssh_spec u h p) ?t bin serve) = bin"
    by (simp add: new_alias_def)
  ultimately show ?thesis
    using Lookup_recorded(1) resolve_recorded[OF assms(1-4)]
    by (intro exI[of _ ?t]) (simp add: Let_def)
qed

definition no_config :: config_resolver where
  "no_config = \<lparr>cr_get = (\<lambda>_ _. []), cr_getAll = (\<lambda>_ _. [])\<rparr>"

text \<open>\<open>setup root@box:2222\<close>, then a send to the default target: it dials port 22.\<close>

theorem setup_then_send_witness:
  "\<exists>t. resolveTargetWith no_config ''/h'' (\<lambda>_. True) (ssh_spec ''root'' ''box'' 2222) = Inr t \<and> tg_port t = 2222
    \<and> (\<exists>a. Lookup (recordAlias \<lparr>as_aliases = [], as_defaultAlias = []\<rparr> (ssh_spec ''root'' ''box'' 2222) t ''/b'' ''exec'') [] = Some a
        \<and> resolveTargetWith no_config ''/h'' (\<lambda>_. True) (aliasSpec a) = Inr (t\<lparr>tg_port := 22\<rparr>))"
proof -
  have h: "host_token ''box''" "user_token ''root''" "user_token (cr_get no_config ''box'' ''User'')" "direct no_config ''box''"
    by (simp_all add: host_token_def user_token_def graphic_def no_config_def direct_def proxy_set_def)
  have "default_port no_config ''box'' = 22" "real_host no_config ''box'' = ''box''"
    by (simp_all add: default_port_def config_port_def no_config_def real_host_def)
  with setup_then_send[OF h, of 2222 "''/h''" "\<lambda>_. True" "\<lparr>as_aliases = [], as_defaultAlias = []\<rparr>" "''/b''" "''exec''"]
  show ?thesis by (auto simp: Let_def)
qed

lemma find_only_recorded:
  assumes "\<forall>e\<in>set es. \<not> P (e\<lparr>al_default := False\<rparr>)"
  shows "find P (replaceAlias es a) = (if P a then Some a else None)"
proof -
  have "find P (map (\<lambda>e. if al_name e = al_name a then a else e\<lparr>al_default := False\<rparr>) es) =
      (if P a \<and> al_name a \<in> al_name ` set es then Some a else None)"
    using assms by (induction es) auto
  then show ?thesis by (auto simp: replaceAlias_eq find_append)
qed

lemma real_host_not_Nil: "host_token h \<Longrightarrow> real_host r h \<noteq> []"
  by (auto simp: real_host_def host_token_def)

lemma spec_matches_recorded:
  assumes "host_token h"
  shows "spec_matches u h (int p) (new_alias spec (build_target r home stat_ok u h (int p)) bin serve) \<longleftrightarrow> real_host r h = h"
  using assms by (auto simp: spec_matches_def new_alias_def real_host_not_Nil)

text \<open>A sending command given the very spec of \<open>setup\<close>: in a store with no other alias of that name or
  host, the recorded alias is found for a bare host, and for a host the configuration does not rename. For a
  configured host written with a user or a port it is not found, and the command falls back to an unpaired
  target.\<close>

lemma lookup_after_setup:
  assumes "host_token h" "p \<le> 65535"
    "resolveTargetWith r home stat_ok (ssh_spec u h p) = Inr t"
    "\<forall>e\<in>set (as_aliases s). al_name e \<noteq> ssh_spec u h p \<and> al_sshHost e \<noteq> h"
    "user_token u" "direct r h"
  shows "LookupSpec (recordAlias s (ssh_spec u h p) t bin serve) (ssh_spec u h p) =
    (if real_host r h = h \<or> (u = [] \<and> p = 0) then Some (new_alias (ssh_spec u h p) t bin serve) else None)"
proof -
  let ?spec = "ssh_spec u h p" and ?t = "build_target r home stat_ok u h (int p)"
  let ?a = "new_alias ?spec ?t bin serve" and ?s = "recordAlias s ?spec t bin serve"
  have t: "t = ?t" using assms resolve_spec[of h u p r] by simp
  have n: "aliasName ?t ?spec = h" using assms(1) by (simp add: aliasName_spec)
  have other: "find (\<lambda>e. al_name e = ?spec) (replaceAlias (as_aliases s) ?a) = (if al_name ?a = ?spec then Some ?a else None)"
    using assms(4) by (intro find_only_recorded) auto
  have "find (spec_matches u h (int p)) (replaceAlias (as_aliases s) ?a) =
      (if spec_matches u h (int p) ?a then Some ?a else None)"
    using assms(4) by (intro find_only_recorded) (auto simp: spec_matches_def)
  moreover have "?spec = h \<longleftrightarrow> u = [] \<and> p = 0"
    using host_tokenD(2)[OF assms(1)] host_tokenD(3)[OF assms(1)] by (cases "u = []"; cases "p = 0") (auto simp: ssh_spec_def)
  ultimately show ?thesis
    using other ssh_spec_not_Nil[OF assms(1), of u p] host_tokenD(1)[OF assms(1)] assms(1,2)
    by (auto simp: LookupSpec_def Lookup_def recordAlias_def t n parseSSHSpec_spec spec_matches_recorded)
qed

definition renaming_config :: config_resolver where
  "renaming_config = \<lparr>cr_get = (\<lambda>h k. if h = ''mybox'' \<and> k = ''HostName'' then ''10.0.0.1'' else []), cr_getAll = (\<lambda>_ _. [])\<rparr>"

text \<open>\<open>setup root@mybox\<close> of a configured host, then a send to \<open>root@mybox\<close>: not found.\<close>

lemma lookup_after_setup_witness:
  "\<exists>t. resolveTargetWith renaming_config ''/h'' (\<lambda>_. True) (ssh_spec ''root'' ''mybox'' 0) = Inr t
    \<and> LookupSpec (recordAlias \<lparr>as_aliases = [], as_defaultAlias = []\<rparr> (ssh_spec ''root'' ''mybox'' 0) t ''/b'' ''exec'')
        (ssh_spec ''root'' ''mybox'' 0) = None"
proof -
  have h: "host_token ''mybox''" "user_token ''root''" "direct renaming_config ''mybox''"
    by (simp_all add: host_token_def user_token_def graphic_def renaming_config_def direct_def proxy_set_def)
  obtain t where t: "resolveTargetWith renaming_config ''/h'' (\<lambda>_. True) (ssh_spec ''root'' ''mybox'' 0) = Inr t"
    using resolve_spec[OF h(1,2) _ h(3), of 0] by simp
  have "real_host renaming_config ''mybox'' = ''10.0.0.1''"
    by (simp add: real_host_def renaming_config_def)
  with t lookup_after_setup[OF h(1) _ t _ h(2,3), of "\<lparr>as_aliases = [], as_defaultAlias = []\<rparr>" "''/b''" "''exec''"]
  show ?thesis by auto
qed

theorem recordAlias_invariant_witness:
  "\<exists>s t. map al_name (as_aliases s) = [''a'', ''b''] \<and>
    (let s' = recordAlias s ''root@a:22'' t ''/x'' ''exec'' in
     as_defaultAlias s' = ''a'' \<and> distinct (map al_name (as_aliases s'))
     \<and> filter al_default (as_aliases s') = [new_alias ''root@a:22'' t ''/x'' ''exec''])"
proof -
  let ?t = "\<lparr>tg_user = ''root'', tg_host = ''a'', tg_port = 22, tg_identityFiles = [], tg_configAlias = [], tg_acceptNew = False\<rparr>"
  let ?a = "\<lambda>n. (new_alias n ?t ''/b'' ''exec'')\<lparr>al_name := n\<rparr>"
  let ?s = "\<lparr>as_aliases = [?a ''a'', ?a ''b''], as_defaultAlias = ''b''\<rparr>"
  have "distinct (map al_name (as_aliases ?s))" by simp
  from recordAlias_invariant[OF this, of "''root@a:22''" ?t "''/x''" "''exec''"]
  have "aliasName ?t ''root@a:22'' = ''a'' \<Longrightarrow> ?thesis"
    by (intro exI[of _ ?s] exI[of _ ?t]) (simp add: Let_def)
  moreover have "aliasName ?t ''root@a:22'' = ''a''" by code_simp
  ultimately show ?thesis by blast
qed

text \<open>An explicit port with no host before it passes the check for a missing host, and dials the local machine.\<close>

lemma empty_host_accepted:
  assumes "0 < p" "p < 2 ^ 63"
  shows "\<exists>t. resolveTargetWith no_config home stat_ok (CHR '':'' # decimal p) = Inr t \<and> target_addr t = CHR '':'' # decimal p"
proof -
  have d: "CHR '':'' \<notin> set (decimal p)" "CHR ''@'' \<notin> set (decimal p)" by (simp_all add: decimal_not_in)
  have "graphic (last (decimal p))" by (rule digit_graphic[OF decimal_digits[OF last_in_set[OF decimal_not_Nil]]])
  then have "trim_space (CHR '':'' # decimal p) = CHR '':'' # decimal p"
    by (intro trim_space_id) (simp add: graphic_def)
  moreover have "parseSpec (CHR '':'' # decimal p) = Inr ([], [], int p)"
    using d assms(1) atoi_decimal[OF assms(2)]
    by (simp add: parseSpec_def parse_host_def parse_port_def has_prefix_def count_notin)
  ultimately have "resolveTargetWith no_config home stat_ok (CHR '':'' # decimal p) = Inr (build_target no_config home stat_ok [] [] (int p))"
    by (simp add: resolveTargetWith_def no_config_def proxy_set_def)
  moreover have "target_addr (build_target no_config home stat_ok [] [] (int p)) = CHR '':'' # decimal p"
    using assms(1) by (simp add: target_addr_def join_host_port_def itoa_int_def real_host_def no_config_def)
  ultimately show ?thesis by blast
qed

end
