(* ===== verification/Dial.thy ===== *)
theory Dial
  imports Target
begin

text \<open>
  The ssh client of package \<open>sshx\<close>: candidate keys (\<open>auth.go\<close>), the host key policy (\<open>hostkey.go\<close>), the
  connection and its errors (\<open>sshx.go\<close>) and one remote command (\<open>session.go\<close>). The library's dialer, the
  known-hosts check and its line format, the agent and the operating system are parameters.
\<close>

section \<open>Candidate keys\<close>

text \<open>What a call of the agent accessor meets: no connection, no signers, or signers.\<close>

datatype 'k agent_answer = AgentDialFails | AgentSignersFail | AgentSigners "'k list"

definition keyCandidates :: "target \<Rightarrow> string \<Rightarrow> string list" where
  "keyCandidates t home =
     (if tg_identityFiles t \<noteq> [] then tg_identityFiles t
      else if home = [] then []
      else map (\<lambda>n. path_join home (''.ssh/'' @ n)) [''id_ed25519'', ''id_ecdsa'', ''id_rsa''])"

fun loadKeySigners :: "(string \<Rightarrow> string option) \<Rightarrow> (string \<Rightarrow> 'k option) \<Rightarrow> string list \<Rightarrow> 'k list" where
  "loadKeySigners readFile parseKey [] = []"
| "loadKeySigners readFile parseKey (p # ps) =
     (case readFile p of
        None \<Rightarrow> loadKeySigners readFile parseKey ps
      | Some pem \<Rightarrow>
          (case parseKey pem of
             None \<Rightarrow> loadKeySigners readFile parseKey ps
           | Some k \<Rightarrow> k # loadKeySigners readFile parseKey ps))"

text \<open>\<open>$SSH_AUTH_SOCK\<close> decides whether there is an agent at all; it is contacted lazily.\<close>

definition agentSignersFunc :: "string \<Rightarrow> bool" where
  "agentSignersFunc sock \<longleftrightarrow> sock \<noteq> []"

text \<open>The agent connections: which one the provider holds, and those opened and closed so far.\<close>

record agent_conns =
  ac_held :: "nat option"
  ac_opened :: nat
  ac_closed :: "nat list"

definition no_conns :: agent_conns where
  "no_conns = \<lparr>ac_held = None, ac_opened = 0, ac_closed = []\<rparr>"

text \<open>One invocation of the merged callback.\<close>

definition merged_callback ::
  "bool \<Rightarrow> 'k list \<Rightarrow> 'k agent_answer \<Rightarrow> agent_conns \<Rightarrow> 'k list \<times> agent_conns" where
  "merged_callback agentOK fileSigners answer st =
     (if \<not> agentOK then (fileSigners, st)
      else case answer of
        AgentDialFails \<Rightarrow> (fileSigners, st)
      | AgentSignersFail \<Rightarrow>
          (fileSigners, st\<lparr>ac_opened := Suc (ac_opened st), ac_closed := ac_opened st # ac_closed st\<rparr>)
      | AgentSigners ags \<Rightarrow>
          (ags @ fileSigners,
           st\<lparr>ac_held := Some (ac_opened st), ac_opened := Suc (ac_opened st),
              ac_closed := (case ac_held st of Some c \<Rightarrow> c # ac_closed st | None \<Rightarrow> ac_closed st)\<rparr>))"

definition cleanup :: "agent_conns \<Rightarrow> agent_conns" where
  "cleanup st =
     (case ac_held st of None \<Rightarrow> st | Some c \<Rightarrow> st\<lparr>ac_held := None, ac_closed := c # ac_closed st\<rparr>)"

text \<open>The sentinels' texts.\<close>

fun sentinel_text :: "sentinel \<Rightarrow> string" where
  "sentinel_text SshHostKeyUnknown = ''clipbeam: host key unknown (run clipbeam setup)''"
| "sentinel_text SshHostKeyMismatch = ''clipbeam: host key mismatch''"
| "sentinel_text SshHostKeyCAUnsupported = ''clipbeam: host certificate (cert-authority) unsupported''"
| "sentinel_text SshProxyJumpUnsupported = ''clipbeam: ProxyJump/Include unsupported in clipbeam v1''"
| "sentinel_text SshDialFailed = ''clipbeam: ssh dial failed''"

text \<open>An error that is a sentinel, or wraps it before a text.\<close>

definition sentinel_error :: "sentinel \<Rightarrow> string \<Rightarrow> cli_error" where
  "sentinel_error s rest = \<lparr>ce_message = sentinel_text s @ rest, ce_code = None, ce_wraps = [s]\<rparr>"

definition auth_methods :: "bool \<Rightarrow> 'k list \<Rightarrow> (cli_error, bool \<times> 'k list) result" where
  "auth_methods agentOK fileSigners =
     (if \<not> agentOK \<and> fileSigners = []
      then Inl (sentinel_error SshDialFailed
        '': no ssh-agent and no usable private key (set $SSH_AUTH_SOCK or run `clipbeam setup`)'')
      else Inr (agentOK, fileSigners))"

section \<open>The host key policy\<close>

datatype 'k host_key = PlainKey 'k | CertKey 'k

text \<open>What the known-hosts check returns besides success: a key error with the wanted keys, a revoked
  key, or anything else.\<close>

datatype 'k verify_error = KeyErr "'k list" | RevokedErr | OtherVerifyErr

text \<open>The policy: the check over the existing files, if there are any, and the writable file. The
  library's address normalisation and line format are kept with it.\<close>

record 'k host_key_policy =
  hp_verify :: "(string \<Rightarrow> string option \<Rightarrow> 'k host_key \<Rightarrow> 'k verify_error option) option"
  hp_userKnownHosts :: string
  hp_normalize :: "string \<Rightarrow> string"
  hp_line :: "string list \<Rightarrow> 'k host_key \<Rightarrow> string"

definition newHostKeyPolicy ::
  "(string \<Rightarrow> bool) \<Rightarrow> (string list \<Rightarrow> (string \<Rightarrow> string option \<Rightarrow> 'k host_key \<Rightarrow> 'k verify_error option) option)
   \<Rightarrow> (string \<Rightarrow> string) \<Rightarrow> (string list \<Rightarrow> 'k host_key \<Rightarrow> string) \<Rightarrow> string \<Rightarrow> string list
   \<Rightarrow> (string, 'k host_key_policy) result" where
  "newHostKeyPolicy stat_ok knownhosts_New norm ln userKH files =
     (let existing = filter stat_ok files in
      if existing = [] then
        Inr \<lparr>hp_verify = None, hp_userKnownHosts = userKH, hp_normalize = norm, hp_line = ln\<rparr>
      else case knownhosts_New existing of
        None \<Rightarrow> Inl ''clipbeam: parse known_hosts''
      | Some cb \<Rightarrow> Inr \<lparr>hp_verify = Some cb, hp_userKnownHosts = userKH, hp_normalize = norm, hp_line = ln\<rparr>)"

definition defaultKnownHostsFiles :: "string \<Rightarrow> string list" where
  "defaultKnownHostsFiles home =
     (if home \<noteq> [] then [path_join home ''.ssh/known_hosts''] else []) @ [''/etc/ssh/ssh_known_hosts'']"

definition defaultUserKnownHosts :: "string \<Rightarrow> string option" where
  "defaultUserKnownHosts home = (if home = [] then None else Some (path_join home ''.ssh/known_hosts''))"

definition add_address :: "(string \<Rightarrow> string) \<Rightarrow> string \<Rightarrow> string list \<Rightarrow> string list" where
  "add_address norm a out =
     (if a = [] then out
      else let n = norm a in if n = [] \<or> n \<in> set out then out else out @ [n])"

definition knownHostAddresses :: "(string \<Rightarrow> string) \<Rightarrow> string \<Rightarrow> string option \<Rightarrow> string list" where
  "knownHostAddresses norm hostname remote =
     (let out = add_address norm hostname [] in
      case remote of None \<Rightarrow> out | Some a \<Rightarrow> add_address norm a out)"

text \<open>The step of an append that fails; the file is its text, empty when it does not exist.\<close>

datatype append_fault = AppendOk | KhMkdirFails | KhOpenFails | KhWriteFails nat | KhSyncFails

definition appendKnownHost ::
  "'k host_key_policy \<Rightarrow> append_fault \<Rightarrow> string \<Rightarrow> string option \<Rightarrow> 'k host_key \<Rightarrow> string \<Rightarrow> bool \<times> string" where
  "appendKnownHost p fault hostname remote key kh =
     (let line = hp_line p (knownHostAddresses (hp_normalize p) hostname remote) key @ [newline] in
      case fault of
        KhMkdirFails \<Rightarrow> (False, kh)
      | KhOpenFails \<Rightarrow> (False, kh)
      | KhWriteFails n \<Rightarrow> (False, kh @ take n line)
      | KhSyncFails \<Rightarrow> (False, kh @ line)
      | AppendOk \<Rightarrow> (True, kh @ line))"

definition handleUnknown ::
  "'k host_key_policy \<Rightarrow> append_fault \<Rightarrow> target \<Rightarrow> string \<Rightarrow> string option \<Rightarrow> 'k host_key \<Rightarrow> string
   \<Rightarrow> cli_error option \<times> string" where
  "handleUnknown p fault t hostname remote key kh =
     (if \<not> tg_acceptNew t then (Some (sentinel_error SshHostKeyUnknown []), kh)
      else if hp_userKnownHosts p = [] then
        (Some (sentinel_error SshHostKeyUnknown '': cannot resolve a writable known_hosts to record the new key''), kh)
      else
        let (ok, kh') = appendKnownHost p fault hostname remote key kh in
        if \<not> ok then (Some (sentinel_error SshHostKeyUnknown '': record new host key''), kh') else (None, kh'))"

definition hostkey_callback ::
  "'k host_key_policy \<Rightarrow> append_fault \<Rightarrow> target \<Rightarrow> string \<Rightarrow> string option \<Rightarrow> 'k host_key \<Rightarrow> string
   \<Rightarrow> cli_error option \<times> string" where
  "hostkey_callback p fault t hostname remote key kh =
     (case key of
        CertKey _ \<Rightarrow> (Some (sentinel_error SshHostKeyCAUnsupported []), kh)
      | PlainKey _ \<Rightarrow>
          (case hp_verify p of
             None \<Rightarrow> handleUnknown p fault t hostname remote key kh
           | Some verify \<Rightarrow>
               (case verify hostname remote key of
                  None \<Rightarrow> (None, kh)
                | Some (KeyErr want) \<Rightarrow>
                    if want = [] then handleUnknown p fault t hostname remote key kh
                    else (Some (sentinel_error SshHostKeyMismatch []), kh)
                | Some RevokedErr \<Rightarrow> (Some (sentinel_error SshHostKeyMismatch []), kh)
                | Some OtherVerifyErr \<Rightarrow> (Some (sentinel_error SshHostKeyMismatch []), kh))))"

section \<open>The connection\<close>

definition mapHostKeyErr :: "cli_error \<Rightarrow> cli_error option" where
  "mapHostKeyErr e =
     (if SshHostKeyMismatch \<in> set (ce_wraps e) then Some (sentinel_error SshHostKeyMismatch [])
      else if SshHostKeyUnknown \<in> set (ce_wraps e) then Some (sentinel_error SshHostKeyUnknown [])
      else if SshHostKeyCAUnsupported \<in> set (ce_wraps e) then Some (sentinel_error SshHostKeyCAUnsupported [])
      else None)"

text \<open>The library's dialer: from an address, a user, the candidate keys, the host key callback and the
  known-hosts file to a connection or an error, and the file afterwards.\<close>

type_synonym ('k, 'c) dialer =
  "string \<Rightarrow> string \<Rightarrow> 'k list \<Rightarrow> (string \<Rightarrow> string option \<Rightarrow> 'k host_key \<Rightarrow> string \<Rightarrow> cli_error option \<times> string)
   \<Rightarrow> string \<Rightarrow> (cli_error, 'c) result \<times> string"

record ('k, 'c) client_env =
  ev_user :: string
  ev_agentOK :: bool
  ev_agent :: "'k agent_answer"
  ev_fileSigners :: "target \<Rightarrow> 'k list"
  ev_policy :: "'k host_key_policy"
  ev_fault :: append_fault
  ev_dial :: "('k, 'c) dialer"

text \<open>\<open>client.ssh\<close>: the cached connection, or a dial whose candidate keys come from one invocation of the
  merged callback.\<close>

definition client_ssh ::
  "('k, 'c) client_env \<Rightarrow> target \<Rightarrow> 'c option \<Rightarrow> string \<Rightarrow> (cli_error, 'c) result \<times> 'c option \<times> string" where
  "client_ssh env t cached kh =
     (case cached of
        Some c \<Rightarrow> (Inr c, cached, kh)
      | None \<Rightarrow>
          (let user = (if tg_user t = [] then ev_user env else tg_user t) in
           case auth_methods (ev_agentOK env) (ev_fileSigners env t) of
             Inl e \<Rightarrow> (Inl e, None, kh)
           | Inr (agentOK, fileSigners) \<Rightarrow>
               (let keys = fst (merged_callback agentOK fileSigners (ev_agent env) no_conns) in
                case ev_dial env (target_addr t) user keys (hostkey_callback (ev_policy env) (ev_fault env) t) kh of
                  (Inl e, kh') \<Rightarrow>
                    (Inl (case mapHostKeyErr e of
                            Some m \<Rightarrow> m | None \<Rightarrow> sentinel_error SshDialFailed ('': '' @ ce_message e)), None, kh')
                | (Inr c, kh') \<Rightarrow> (Inr c, Some c, kh'))))"

text \<open>\<open>Dial\<close>: a session on the connection; opening it may fail.\<close>

definition client_Dial ::
  "('k, 'c) client_env \<Rightarrow> ('c \<Rightarrow> string option) \<Rightarrow> target \<Rightarrow> 'c option \<Rightarrow> string
   \<Rightarrow> (cli_error, 'c) result \<times> 'c option \<times> string" where
  "client_Dial env session_err t cached kh =
     (let (r, cached', kh') = client_ssh env t cached kh in
      case r of
        Inl e \<Rightarrow> (Inl e, cached', kh')
      | Inr c \<Rightarrow>
          (case session_err c of
             Some m \<Rightarrow> (Inl (sentinel_error SshDialFailed ('': open session: '' @ m)), cached', kh')
           | None \<Rightarrow> (Inr c, cached', kh')))"

datatype forward_error = ForwardDial cli_error | ForwardStream string | ForwardTcp string | ForwardNetwork string

definition client_Forward ::
  "('k, 'c) client_env \<Rightarrow> ('c \<Rightarrow> string \<Rightarrow> string \<Rightarrow> 'f option) \<Rightarrow> target \<Rightarrow> string \<Rightarrow> string \<Rightarrow> 'c option \<Rightarrow> string
   \<Rightarrow> (forward_error, 'f) result \<times> 'c option \<times> string" where
  "client_Forward env channel t network addr cached kh =
     (let (r, cached', kh') = client_ssh env t cached kh in
      case r of
        Inl e \<Rightarrow> (Inl (ForwardDial e), cached', kh')
      | Inr c \<Rightarrow>
          (if network = ''unix'' then
             (case channel c ''unix'' addr of None \<Rightarrow> Inl (ForwardStream addr) | Some f \<Rightarrow> Inr f)
           else if network \<in> {''tcp'', ''tcp4'', ''tcp6''} then
             (case channel c ''tcp'' addr of None \<Rightarrow> Inl (ForwardTcp addr) | Some f \<Rightarrow> Inr f)
           else Inl (ForwardNetwork network), cached', kh'))"

section \<open>One remote command\<close>

text \<open>What the library and the remote do with a command: the errors of each step, and the streams.\<close>

record exec_world =
  ew_pipe :: "string option"
  ew_start :: "string option"
  ew_write :: "string option"
  ew_close :: "string option"
  ew_wait :: "string option"
  ew_stdout :: string
  ew_stderr :: string

definition writeAndClose :: "string option \<Rightarrow> string option \<Rightarrow> string option" where
  "writeAndClose werr cerr = (case werr of Some e \<Rightarrow> Some e | None \<Rightarrow> cerr)"

definition session_Run :: "exec_world \<Rightarrow> string \<times> string \<times> string option" where
  "session_Run w =
     (case ew_pipe w of
        Some e \<Rightarrow> ([], [], Some (''clipbeam: ssh stdin pipe: '' @ e))
      | None \<Rightarrow>
          (case ew_start w of
             Some e \<Rightarrow> ([], [], Some (''clipbeam: ssh exec: '' @ e))
           | None \<Rightarrow>
               (let writeErr = writeAndClose (ew_write w) (ew_close w) in
                case (writeErr, ew_wait w) of
                  (Some e, None) \<Rightarrow> (ew_stdout w, ew_stderr w, Some (''clipbeam: ssh write stdin: '' @ e))
                | (_, Some e) \<Rightarrow> (ew_stdout w, ew_stderr w, Some (''clipbeam: remote command failed: '' @ e))
                | (None, None) \<Rightarrow> (ew_stdout w, ew_stderr w, None))))"

section \<open>Agent connections\<close>

fun callbacks :: "bool \<Rightarrow> 'k list \<Rightarrow> 'k agent_answer list \<Rightarrow> agent_conns \<Rightarrow> agent_conns" where
  "callbacks agentOK fileSigners [] st = st"
| "callbacks agentOK fileSigners (a # as) st = callbacks agentOK fileSigners as (snd (merged_callback agentOK fileSigners a st))"

text \<open>Every opened connection is closed once, but for the held one.\<close>

definition conns_raw :: "nat list \<Rightarrow> nat option \<Rightarrow> nat \<Rightarrow> bool" where
  "conns_raw cl h n \<longleftrightarrow> distinct cl \<and> set cl = {..<n} - set_option h \<and> set_option h \<subseteq> {..<n}"

definition conns_ok :: "agent_conns \<Rightarrow> bool" where
  "conns_ok st \<longleftrightarrow> conns_raw (ac_closed st) (ac_held st) (ac_opened st)"

lemma conns_raw_steps:
  "conns_raw cl None n \<Longrightarrow> conns_raw cl (Some n) (Suc n)"
  "conns_raw cl (Some c) n \<Longrightarrow> conns_raw (c # cl) (Some n) (Suc n)"
  "conns_raw cl h n \<Longrightarrow> conns_raw (n # cl) h (Suc n)"
  "conns_raw cl (Some c) n \<Longrightarrow> conns_raw (c # cl) None n"
  by (auto simp: conns_raw_def lessThan_Suc)

lemma conns_ok_callback: "conns_ok st \<Longrightarrow> conns_ok (snd (merged_callback agentOK fs a st))"
  by (cases a; cases "ac_held st") (simp_all add: conns_ok_def merged_callback_def conns_raw_steps)

lemma conns_ok_cleanup: "conns_ok st \<Longrightarrow> conns_ok (cleanup st) \<and> ac_held (cleanup st) = None \<and> ac_opened (cleanup st) = ac_opened st"
  by (cases "ac_held st") (simp_all add: conns_ok_def cleanup_def conns_raw_steps)

lemma conns_ok_callbacks: "conns_ok st \<Longrightarrow> conns_ok (callbacks agentOK fs as st)"
  by (induction as arbitrary: st) (simp_all add: conns_ok_callback)

text \<open>However often the library asks for the candidate keys and however the agent answers, after the
  cleanup every connection to the agent that was opened has been closed exactly once; until then only the
  one whose signers are in use is open.\<close>

lemma agent_conns_closed:
  "let st = callbacks agentOK fileSigners answers no_conns; st' = cleanup st in
     distinct (ac_closed st) \<and> set (ac_closed st) = {..<ac_opened st} - set_option (ac_held st)
     \<and> ac_held st' = None \<and> distinct (ac_closed st') \<and> set (ac_closed st') = {..<ac_opened st'}
     \<and> ac_opened st' = ac_opened st"
proof -
  have "conns_ok no_conns" by (simp add: conns_ok_def conns_raw_def no_conns_def)
  then have ok: "conns_ok (callbacks agentOK fileSigners answers no_conns)" by (rule conns_ok_callbacks)
  show ?thesis
    using ok conns_ok_cleanup[OF ok] by (simp add: Let_def conns_ok_def conns_raw_def)
qed

section \<open>Failing closed\<close>

definition hk_trusted :: "'k host_key_policy \<Rightarrow> string \<Rightarrow> string option \<Rightarrow> 'k host_key \<Rightarrow> bool" where
  "hk_trusted p hostname remote key \<longleftrightarrow>
     (case hp_verify p of None \<Rightarrow> False | Some f \<Rightarrow> f hostname remote key = None)"

definition hk_unknown :: "'k host_key_policy \<Rightarrow> string \<Rightarrow> string option \<Rightarrow> 'k host_key \<Rightarrow> bool" where
  "hk_unknown p hostname remote key \<longleftrightarrow>
     (case hp_verify p of None \<Rightarrow> True | Some f \<Rightarrow> f hostname remote key = Some (KeyErr []))"

definition recorded_line :: "'k host_key_policy \<Rightarrow> string \<Rightarrow> string option \<Rightarrow> 'k host_key \<Rightarrow> string" where
  "recorded_line p hostname remote key =
     hp_line p (knownHostAddresses (hp_normalize p) hostname remote) key @ [newline]"

definition may_record :: "'k host_key_policy \<Rightarrow> target \<Rightarrow> string \<Rightarrow> string option \<Rightarrow> 'k host_key \<Rightarrow> bool" where
  "may_record p t hostname remote key \<longleftrightarrow>
     tg_acceptNew t \<and> hp_userKnownHosts p \<noteq> [] \<and> hk_unknown p hostname remote key"

lemma handleUnknown_accepts:
  "fst (handleUnknown p fault t hostname remote key kh) = None \<longleftrightarrow>
     tg_acceptNew t \<and> hp_userKnownHosts p \<noteq> [] \<and> fault = AppendOk"
  by (cases fault) (simp_all add: handleUnknown_def appendKnownHost_def Let_def)

lemma handleUnknown_error:
  "fst (handleUnknown p fault t hostname remote key kh) = Some e \<Longrightarrow> ce_wraps e = [SshHostKeyUnknown]"
  by (cases fault) (auto simp: handleUnknown_def sentinel_error_def appendKnownHost_def Let_def split: if_splits)

lemma handleUnknown_file:
  "\<not> (tg_acceptNew t \<and> hp_userKnownHosts p \<noteq> []) \<Longrightarrow> snd (handleUnknown p fault t hostname remote key kh) = kh"
  by (auto simp: handleUnknown_def)

text \<open>The callback on a certificate, and on a plain key by what the check says of it.\<close>

lemma callback_cert:
  "hostkey_callback p fault t hostname remote (CertKey k) kh = (Some (sentinel_error SshHostKeyCAUnsupported []), kh)"
  by (simp add: hostkey_callback_def)

lemma callback_plain:
  "hostkey_callback p fault t hostname remote (PlainKey k) kh =
     (if hk_unknown p hostname remote (PlainKey k) then handleUnknown p fault t hostname remote (PlainKey k) kh
      else if hk_trusted p hostname remote (PlainKey k) then (None, kh)
      else (Some (sentinel_error SshHostKeyMismatch []), kh))"
proof (cases "hp_verify p")
  case (Some f)
  show ?thesis
  proof (cases "f hostname remote (PlainKey k)")
    case (Some e)
    with \<open>hp_verify p = Some f\<close> show ?thesis
      by (cases e) (simp_all add: hostkey_callback_def hk_unknown_def hk_trusted_def)
  qed (use Some in \<open>simp add: hostkey_callback_def hk_unknown_def hk_trusted_def\<close>)
qed (simp add: hostkey_callback_def hk_unknown_def)

lemma trusted_not_unknown: "hk_trusted p hostname remote key \<Longrightarrow> \<not> hk_unknown p hostname remote key"
  by (auto simp: hk_trusted_def hk_unknown_def split: option.splits)

text \<open>The callback accepts a key exactly when it is no certificate and is either trusted or new,
  allowed and recorded.\<close>

lemma callback_accepts:
  "fst (hostkey_callback p fault t hostname remote key kh) = None \<longleftrightarrow>
     (\<exists>k. key = PlainKey k) \<and> (hk_trusted p hostname remote key \<or> (may_record p t hostname remote key \<and> fault = AppendOk))"
  using trusted_not_unknown[of p hostname remote key]
  by (cases key) (auto simp: callback_cert callback_plain handleUnknown_accepts may_record_def)

lemma callback_file:
  "\<not> may_record p t hostname remote key \<or> hk_trusted p hostname remote key \<or> (\<exists>k. key = CertKey k)
     \<Longrightarrow> snd (hostkey_callback p fault t hostname remote key kh) = kh"
  using trusted_not_unknown[of p hostname remote key]
  by (cases key) (auto simp: callback_cert callback_plain may_record_def handleUnknown_file)

lemma callback_records:
  "may_record p t hostname remote (PlainKey k) \<Longrightarrow>
     snd (hostkey_callback p AppendOk t hostname remote (PlainKey k) kh) = kh @ recorded_line p hostname remote (PlainKey k)"
  by (simp add: callback_plain handleUnknown_def may_record_def recorded_line_def appendKnownHost_def Let_def)

lemma callback_error:
  "fst (hostkey_callback p fault t hostname remote key kh) = Some e \<Longrightarrow>
     ce_wraps e = [if \<exists>k. key = CertKey k then SshHostKeyCAUnsupported
       else if hk_unknown p hostname remote key then SshHostKeyUnknown else SshHostKeyMismatch]"
  by (cases key)
    (auto simp: callback_cert callback_plain handleUnknown_error sentinel_error_def split: if_splits)

lemma add_address_set:
  "set (add_address norm a out) = set out \<union> (if a = [] \<or> norm a = [] then {} else {norm a})"
  by (auto simp: add_address_def Let_def)

lemma add_address_distinct: "distinct out \<Longrightarrow> distinct (add_address norm a out)"
  by (auto simp: add_address_def Let_def)

text \<open>
  The library's contract for a dial: it hands the server's key to the callback (or fails before that), the
  callback alone touches the known-hosts file, a rejected key fails the dial with an error that wraps the
  callback's, and any other failure wraps none of the client's errors.
\<close>

definition honest_dialer :: "('k, 'c) dialer \<Rightarrow> bool" where
  "honest_dialer dial \<longleftrightarrow>
     (\<forall>addr user keys cb kh.
        (\<exists>e. dial addr user keys cb kh = (Inl e, kh) \<and> ce_wraps e = [])
        \<or> (\<exists>hostname remote key x kh'. cb hostname remote key kh = (Some x, kh')
             \<and> (\<exists>e. dial addr user keys cb kh = (Inl e, kh') \<and> ce_wraps e = ce_wraps x))
        \<or> (\<exists>hostname remote key kh'. cb hostname remote key kh = (None, kh')
             \<and> ((\<exists>c. dial addr user keys cb kh = (Inr c, kh')) \<or> (\<exists>e. dial addr user keys cb kh = (Inl e, kh') \<and> ce_wraps e = []))))"

lemma honest_dialerE:
  assumes "honest_dialer dial"
  obtains (early) e where "dial addr user keys cb kh = (Inl e, kh)" "ce_wraps e = []"
  | (reject) hostname remote key x kh' e where "cb hostname remote key kh = (Some x, kh')"
      "dial addr user keys cb kh = (Inl e, kh')" "ce_wraps e = ce_wraps x"
  | (accept) hostname remote key kh' where "cb hostname remote key kh = (None, kh')"
      "(\<exists>c. dial addr user keys cb kh = (Inr c, kh')) \<or> (\<exists>e. dial addr user keys cb kh = (Inl e, kh') \<and> ce_wraps e = [])"
  using assms unfolding honest_dialer_def by meson

lemma mapHostKeyErr_single:
  "ce_wraps e = [s] \<Longrightarrow> s \<in> {SshHostKeyUnknown, SshHostKeyMismatch, SshHostKeyCAUnsupported}
     \<Longrightarrow> mapHostKeyErr e = Some (sentinel_error s [])"
  "ce_wraps e = [] \<Longrightarrow> mapHostKeyErr e = None"
  by (auto simp: mapHostKeyErr_def)

lemma ssh_exit_sentinel:
  "sshErrToExit (Some (sentinel_error s rest)) =
     (if s = SshHostKeyCAUnsupported \<or> s = SshProxyJumpUnsupported then ExitConfig else ExitUnreachable)"
  by (cases s) (simp_all add: sshErrToExit_def sentinel_error_def exit_codes)

text \<open>A dial of the client, by what the callback said of the presented key.\<close>

lemma client_ssh_cases:
  assumes "honest_dialer (ev_dial env)" "client_ssh env t None kh = (r, cached, kh')"
  obtains (refused) e s where "r = Inl e" "cached = None" "kh' = kh" "e = sentinel_error SshDialFailed s"
  | (rejected) hostname remote key x where "fst (hostkey_callback (ev_policy env) (ev_fault env) t hostname remote key kh) = Some x"
      "kh' = snd (hostkey_callback (ev_policy env) (ev_fault env) t hostname remote key kh)" "cached = None"
      "r = Inl (sentinel_error (hd (ce_wraps x)) [])"
  | (accepted) hostname remote key where "fst (hostkey_callback (ev_policy env) (ev_fault env) t hostname remote key kh) = None"
      "kh' = snd (hostkey_callback (ev_policy env) (ev_fault env) t hostname remote key kh)"
      "(\<exists>c. r = Inr c \<and> cached = Some c) \<or> (\<exists>s. r = Inl (sentinel_error SshDialFailed s) \<and> cached = None)"
proof (cases "auth_methods (ev_agentOK env) (ev_fileSigners env t)")
  case (Inl e)
  then show ?thesis
    using assms(2) refused by (auto simp: client_ssh_def auth_methods_def Let_def split: if_splits)
next
  case (Inr ak)
  let ?cb = "hostkey_callback (ev_policy env) (ev_fault env) t"
  obtain aok fs where ak: "ak = (aok, fs)" by force
  let ?d = "ev_dial env (target_addr t) (if tg_user t = [] then ev_user env else tg_user t)
      (fst (merged_callback aok fs (ev_agent env) no_conns)) ?cb kh"
  have run: "(r, cached, kh') = (case ?d of
      (Inl e, kh') \<Rightarrow> (Inl (case mapHostKeyErr e of Some m \<Rightarrow> m | None \<Rightarrow> sentinel_error SshDialFailed ('': '' @ ce_message e)), None, kh')
    | (Inr c, kh') \<Rightarrow> (Inr c, Some c, kh'))"
    using assms(2) Inr ak by (simp add: client_ssh_def Let_def)
  show ?thesis
  proof (rule honest_dialerE[OF assms(1), of "target_addr t" "if tg_user t = [] then ev_user env else tg_user t"
      "fst (merged_callback aok fs (ev_agent env) no_conns)" ?cb kh])
    fix e assume "?d = (Inl e, kh)" "ce_wraps e = []"
    then show ?thesis using run refused by (simp add: mapHostKeyErr_single(2))
  next
    fix hostname remote key x kh1 e
    assume cb: "?cb hostname remote key kh = (Some x, kh1)" and e: "?d = (Inl e, kh1)" "ce_wraps e = ce_wraps x"
    obtain s where "ce_wraps x = [s]" "s \<in> {SshHostKeyUnknown, SshHostKeyMismatch, SshHostKeyCAUnsupported}"
      using callback_error[of "ev_policy env" "ev_fault env" t hostname remote key kh x] cb by auto
    then show ?thesis
      using run cb e rejected[of hostname remote key x] by (simp add: mapHostKeyErr_single(1))
  next
    fix hostname remote key kh1
    assume "?cb hostname remote key kh = (None, kh1)"
      "(\<exists>c. ?d = (Inr c, kh1)) \<or> (\<exists>e. ?d = (Inl e, kh1) \<and> ce_wraps e = [])"
    then show ?thesis
    proof (elim disjE exE conjE)
      fix c assume "?d = (Inr c, kh1)"
      then show ?thesis using run accepted[of hostname remote key] \<open>?cb hostname remote key kh = (None, kh1)\<close> by simp
    next
      fix e assume "?d = (Inl e, kh1)" "ce_wraps e = []"
      then show ?thesis
        using run accepted[of hostname remote key] \<open>?cb hostname remote key kh = (None, kh1)\<close>
        by (simp add: mapHostKeyErr_single(2)) blast
    qed
  qed
qed

lemma callback_outcome:
  assumes "fst (hostkey_callback p fault t hostname remote key kh) = None"
  obtains k where "key = PlainKey k" "hk_trusted p hostname remote key" "snd (hostkey_callback p fault t hostname remote key kh) = kh"
  | k where "key = PlainKey k" "may_record p t hostname remote key"
      "snd (hostkey_callback p fault t hostname remote key kh) = kh @ recorded_line p hostname remote key"
  using assms callback_file[of p t hostname remote key fault kh] callback_records[of p t hostname remote _ kh]
  unfolding callback_accepts by blast


text \<open>A dialer that reaches a server with a given key and lets the callback decide.\<close>

definition witness_dialer :: "'k host_key \<Rightarrow> ('k, nat) dialer" where
  "witness_dialer key addr user keys cb kh =
     (case cb addr None key kh of (Some x, kh') \<Rightarrow> (Inl x, kh') | (None, kh') \<Rightarrow> (Inr 7, kh'))"

lemma witness_dialer_honest: "honest_dialer (witness_dialer k)"
proof -
  have "(\<exists>hostname remote key x kh'. cb hostname remote key kh = (Some x, kh')
          \<and> (\<exists>e. witness_dialer k addr user keys cb kh = (Inl e, kh') \<and> ce_wraps e = ce_wraps x))
        \<or> (\<exists>hostname remote key kh'. cb hostname remote key kh = (None, kh')
          \<and> ((\<exists>c. witness_dialer k addr user keys cb kh = (Inr c, kh')) \<or> (\<exists>e. witness_dialer k addr user keys cb kh = (Inl e, kh') \<and> ce_wraps e = [])))"
    for addr user keys cb kh
  proof (cases "cb addr None k kh")
    case (Pair o' kh')
    then show ?thesis
    proof (cases o')
      case (Some x)
      with Pair have "cb addr None k kh = (Some x, kh') \<and> witness_dialer k addr user keys cb kh = (Inl x, kh')"
        by (simp add: witness_dialer_def)
      then show ?thesis by blast
    qed (auto simp: witness_dialer_def)
  qed
  then show ?thesis unfolding honest_dialer_def by blast
qed

definition witness_client :: "bool \<Rightarrow> (string, nat) client_env" where
  "witness_client known =
     \<lparr>ev_user = ''me'', ev_agentOK = True, ev_agent = AgentDialFails, ev_fileSigners = (\<lambda>_. []),
      ev_policy = \<lparr>hp_verify = Some (\<lambda>_ _ _. Some (KeyErr (if known then [''old''] else []))), hp_userKnownHosts = ''/kh'',
        hp_normalize = id, hp_line = (\<lambda>as k. concat as @ '' key'')\<rparr>,
      ev_fault = AppendOk, ev_dial = witness_dialer (PlainKey ''new'')\<rparr>"


end
