(* ===== verification/Config.thy ===== *)
theory Config
  imports Target Wire
begin

text \<open>
  Package \<open>config\<close>: the layout of files (\<open>paths.go\<close>), the configuration and alias files (\<open>config.go\<close>,
  \<open>alias.go\<close>), atomic private writes (\<open>fsutil.go\<close>) and the token stores (\<open>token.go\<close>). The decoding of
  JSON, the programs that hold a key ring and the failing step of a write are parameters.
\<close>

section \<open>Paths\<close>

datatype goos = Darwin | Linux

record paths =
  pa_saveDir :: string
  pa_agentInbox :: string
  pa_lastPath :: string
  pa_recents :: string
  pa_config :: string
  pa_aliases :: string
  pa_token :: string
  pa_log :: string

definition darwinPaths :: "string \<Rightarrow> paths" where
  "darwinPaths home =
     (let dot = path_join home ''.clipbeam'' in
      \<lparr>pa_saveDir = path_join home ''Downloads/ClipBeam'', pa_agentInbox = path_join dot ''agent-inbox'',
       pa_lastPath = path_join dot ''last_path'', pa_recents = path_join dot ''recents.json'',
       pa_config = path_join dot ''config.json'', pa_aliases = path_join dot ''cli-aliases.json'',
       pa_token = [], pa_log = path_join dot ''clipbeam.log''\<rparr>)"

definition xdgDir :: "(string \<Rightarrow> string) \<Rightarrow> string \<Rightarrow> string \<Rightarrow> string" where
  "xdgDir getenv var fallback =
     (let v = getenv var in if v \<noteq> [] \<and> has_prefix v ''/'' then v else fallback)"

definition linuxPaths :: "(string \<Rightarrow> string) \<Rightarrow> string \<Rightarrow> paths" where
  "linuxPaths getenv home =
     (let dataHome = xdgDir getenv ''XDG_DATA_HOME'' (path_join home ''.local/share'');
          stateHome = xdgDir getenv ''XDG_STATE_HOME'' (path_join home ''.local/state'');
          configHome = xdgDir getenv ''XDG_CONFIG_HOME'' (path_join home ''.config'');
          stateDir = path_join stateHome ''clipbeam'';
          configDir = path_join configHome ''clipbeam'' in
      \<lparr>pa_saveDir = path_join dataHome ''clipbeam'', pa_agentInbox = path_join stateDir ''agent-inbox'',
       pa_lastPath = path_join stateDir ''last_path'', pa_recents = path_join stateDir ''recents.json'',
       pa_config = path_join configDir ''config.json'', pa_aliases = path_join configDir ''aliases.json'',
       pa_token = path_join configDir ''token'', pa_log = path_join stateDir ''clipbeam.log''\<rparr>)"

text \<open>\<open>Resolve\<close>: an unknown home directory is the empty string.\<close>

definition Resolve :: "goos \<Rightarrow> (string \<Rightarrow> string) \<Rightarrow> string \<Rightarrow> paths option" where
  "Resolve os getenv home =
     (if home = [] then None
      else Some (case os of Darwin \<Rightarrow> darwinPaths home | Linux \<Rightarrow> linuxPaths getenv home))"

definition expandTilde :: "string \<Rightarrow> string \<Rightarrow> string option" where
  "expandTilde home p =
     (if p = ''~'' \<or> (2 \<le> length p \<and> p ! 0 = CHR ''~'' \<and> p ! 1 = slash) then
        (if home = [] then None
         else if p = ''~'' then Some home
         else Some (path_join home (drop 2 p)))
      else Some p)"

section \<open>Private files\<close>

text \<open>A file is its bytes and its permission bits.\<close>

abbreviation mode0600 :: nat where
  "mode0600 \<equiv> 384"

type_synonym cfs = "string \<Rightarrow> (string \<times> nat) option"

datatype cfg_error =
    CfgNoHome | CfgEmptyDir | CfgMkdir | CfgChmodDir | CfgCreate | CfgWrite | CfgSync | CfgClose | CfgChmod | CfgRename
  | CfgReadOnly | CfgEncode | CfgRead | CfgDecode | CfgStat | CfgUnavailable | CfgUnknownKind | CfgBackend

datatype cfg_fault =
    NoFault | MkdirFault | ChmodDirFault | CreateFault | WriteFault nat | SyncFault | CloseFault | ChmodFault | RenameFault

definition ensureDir0700 :: "cfg_fault \<Rightarrow> string \<Rightarrow> cfg_error option" where
  "ensureDir0700 fault dir =
     (if dir = [] then Some CfgEmptyDir
      else if fault = MkdirFault then Some CfgMkdir
      else if fault = ChmodDirFault then Some CfgChmodDir
      else None)"

text \<open>The temporary file exists from \<open>CreateTemp\<close> (mode 0600) to the rename; the deferred removal runs on
  every failure in between.\<close>

definition writeFileAtomic0600 ::
  "string \<Rightarrow> cfg_fault \<Rightarrow> cfs \<Rightarrow> string \<Rightarrow> string \<Rightarrow> cfg_error option \<times> cfs" where
  "writeFileAtomic0600 tmp fault fs path payload =
     (case ensureDir0700 fault (path_dir path) of
        Some e \<Rightarrow> (Some e, fs)
      | None \<Rightarrow>
          if fault = CreateFault then (Some CfgCreate, fs)
          else
            let fs1 = fs(tmp \<mapsto> ([], mode0600));
                written = (case fault of WriteFault n \<Rightarrow> take n payload | _ \<Rightarrow> payload);
                fs2 = fs1(tmp \<mapsto> (written, mode0600));
                undo = fs2(tmp := None) in
            case fault of
              WriteFault _ \<Rightarrow> (Some CfgWrite, undo)
            | SyncFault \<Rightarrow> (Some CfgSync, undo)
            | CloseFault \<Rightarrow> (Some CfgClose, undo)
            | ChmodFault \<Rightarrow> (Some CfgChmod, undo)
            | RenameFault \<Rightarrow> (Some CfgRename, undo)
            | _ \<Rightarrow> (None, fs2(tmp := None, path \<mapsto> (payload, mode0600))))"

section \<open>Configuration and aliases\<close>

record config_data =
  cf_port :: nat
  cf_peers :: "(string \<times> string \<times> string) list"
  cf_defaultPeerID :: string
  cf_saveDir :: string
  cf_maxBytes :: int
  cf_keyCode :: nat
  cf_modifiers :: "string list"
  cf_saveTextToDisk :: bool
  cf_longTextThreshold :: int
  cf_notify :: bool
  cf_linuxClipboard :: bool

definition DefaultConfig :: config_data where
  "DefaultConfig =
     \<lparr>cf_port = 8787, cf_peers = [], cf_defaultPeerID = [], cf_saveDir = [], cf_maxBytes = DefaultMaxBytes,
      cf_keyCode = 9, cf_modifiers = [''control'', ''option'', ''command''], cf_saveTextToDisk = False,
      cf_longTextThreshold = 8192, cf_notify = True, cf_linuxClipboard = False\<rparr>"

text \<open>What reading a file gives: its bytes, its absence, or another failure.\<close>

datatype read_outcome = ReadOk string | ReadMissing | ReadFails

text \<open>The decoder changes the fields the file has and keeps the others.\<close>

definition Load ::
  "(string \<Rightarrow> config_data \<Rightarrow> config_data option) \<Rightarrow> paths option \<Rightarrow> (string \<Rightarrow> read_outcome) \<Rightarrow> (cfg_error, config_data) result" where
  "Load unmarshal ps readFile =
     (case ps of
        None \<Rightarrow> Inl CfgNoHome
      | Some p \<Rightarrow>
          (case readFile (pa_config p) of
             ReadMissing \<Rightarrow> Inr DefaultConfig
           | ReadFails \<Rightarrow> Inl CfgRead
           | ReadOk txt0 \<Rightarrow> (case unmarshal txt0 DefaultConfig of None \<Rightarrow> Inl CfgDecode | Some c \<Rightarrow> Inr c)))"

definition Save ::
  "goos \<Rightarrow> (config_data \<Rightarrow> string option) \<Rightarrow> paths option \<Rightarrow> string \<Rightarrow> cfg_fault \<Rightarrow> cfs \<Rightarrow> config_data
   \<Rightarrow> cfg_error option \<times> cfs" where
  "Save os marshal ps tmp fault fs c =
     (if os = Darwin then (Some CfgReadOnly, fs)
      else case ps of
        None \<Rightarrow> (Some CfgNoHome, fs)
      | Some p \<Rightarrow>
          (case marshal c of
             None \<Rightarrow> (Some CfgEncode, fs)
           | Some txt0 \<Rightarrow> writeFileAtomic0600 tmp fault fs (pa_config p) txt0))"

definition ResolvedSaveDir :: "paths option \<Rightarrow> string \<Rightarrow> cfg_fault \<Rightarrow> config_data \<Rightarrow> (cfg_error, string) result" where
  "ResolvedSaveDir ps home fault c =
     (case ps of
        None \<Rightarrow> Inl CfgNoHome
      | Some p \<Rightarrow>
          (case (if cf_saveDir c = [] then Some (pa_saveDir p) else expandTilde home (cf_saveDir c)) of
             None \<Rightarrow> Inl CfgNoHome
           | Some dir \<Rightarrow> (case ensureDir0700 fault dir of Some e \<Rightarrow> Inl e | None \<Rightarrow> Inr dir)))"

definition LoadAliases ::
  "(string \<Rightarrow> alias_store option) \<Rightarrow> paths \<Rightarrow> (string \<Rightarrow> read_outcome) \<Rightarrow> (cfg_error, alias_store) result" where
  "LoadAliases unmarshal p readFile =
     (case readFile (pa_aliases p) of
        ReadMissing \<Rightarrow> Inr \<lparr>as_aliases = [], as_defaultAlias = []\<rparr>
      | ReadFails \<Rightarrow> Inl CfgRead
      | ReadOk txt0 \<Rightarrow> (case unmarshal txt0 of None \<Rightarrow> Inl CfgDecode | Some s \<Rightarrow> Inr s))"

definition SaveAliases ::
  "(alias_store \<Rightarrow> string option) \<Rightarrow> paths \<Rightarrow> string \<Rightarrow> cfg_fault \<Rightarrow> cfs \<Rightarrow> alias_store \<Rightarrow> cfg_error option \<times> cfs" where
  "SaveAliases marshal p tmp fault fs s =
     (case marshal s of
        None \<Rightarrow> (Some CfgEncode, fs)
      | Some txt0 \<Rightarrow> writeFileAtomic0600 tmp fault fs (pa_aliases p) txt0)"

section \<open>Token stores\<close>

datatype token_store_kind = TokenStoreAuto | TokenStoreKeychain | TokenStoreSecretService | TokenStoreFile | TokenStoreOther string

datatype token_store = KeychainStore | SecretServiceStore string | FileTokenStore string

definition newSecretServiceStore :: "(string \<Rightarrow> string) \<Rightarrow> string option \<Rightarrow> token_store option" where
  "newSecretServiceStore getenv secret_tool =
     (if getenv ''DBUS_SESSION_BUS_ADDRESS'' = [] then None
      else case secret_tool of None \<Rightarrow> None | Some b \<Rightarrow> Some (SecretServiceStore b))"

definition newFileTokenStore :: "paths \<Rightarrow> string \<Rightarrow> token_store" where
  "newFileTokenStore p home =
     FileTokenStore (if pa_token p = [] \<and> home \<noteq> [] then home @ ''/.clipbeam/token'' else pa_token p)"

definition OpenTokenStore ::
  "goos \<Rightarrow> (string \<Rightarrow> string) \<Rightarrow> string option \<Rightarrow> string \<Rightarrow> token_store_kind \<Rightarrow> paths \<Rightarrow> (cfg_error, token_store) result" where
  "OpenTokenStore os getenv secret_tool home kind p =
     (case kind of
        TokenStoreKeychain \<Rightarrow> if os \<noteq> Darwin then Inl CfgUnavailable else Inr KeychainStore
      | TokenStoreSecretService \<Rightarrow>
          (case newSecretServiceStore getenv secret_tool of None \<Rightarrow> Inl CfgUnavailable | Some s \<Rightarrow> Inr s)
      | TokenStoreFile \<Rightarrow> Inr (newFileTokenStore p home)
      | TokenStoreAuto \<Rightarrow>
          if os = Darwin then Inr KeychainStore
          else (case newSecretServiceStore getenv secret_tool of
                  Some s \<Rightarrow> Inr s | None \<Rightarrow> Inr (newFileTokenStore p home))
      | TokenStoreOther k \<Rightarrow> if k = [] then
            (if os = Darwin then Inr KeychainStore
             else (case newSecretServiceStore getenv secret_tool of
                     Some s \<Rightarrow> Inr s | None \<Rightarrow> Inr (newFileTokenStore p home)))
          else Inl CfgUnknownKind)"

text \<open>A run of a helper program: its output, a non-zero exit, or a failure to run it.\<close>

datatype exec_result = ExecOk string | ExecExit | ExecFails

definition file_token_Load :: "string \<Rightarrow> bool \<Rightarrow> read_outcome \<Rightarrow> cfs \<Rightarrow> (cfg_error, string option) result \<times> cfs" where
  "file_token_Load path stat_fails read_fault fs =
     (if path = [] then (Inl CfgNoHome, fs)
      else if stat_fails then (Inl CfgStat, fs)
      else case fs path of
        None \<Rightarrow> (Inr None, fs)
      | Some (txt0, m) \<Rightarrow>
          let fs' = fs(path \<mapsto> (txt0, mode0600)) in
          if read_fault = ReadFails then (Inl CfgRead, fs')
          else
            let tok = trim_space txt0 in
            (Inr (if tok = [] then None else Some tok), fs'))"

text \<open>Both key rings are asked through a program that prints the secret and a line end.\<close>

definition ring_token_Load :: "exec_result \<Rightarrow> (cfg_error, string option) result" where
  "ring_token_Load run =
     (case run of
        ExecFails \<Rightarrow> Inl CfgBackend
      | ExecExit \<Rightarrow> Inr None
      | ExecOk out0 \<Rightarrow>
          let tok = trim_right_cutset out0 [newline] in Inr (if tok = [] then None else Some tok))"

definition TokenStore_Load ::
  "token_store \<Rightarrow> exec_result \<Rightarrow> bool \<Rightarrow> read_outcome \<Rightarrow> cfs \<Rightarrow> (cfg_error, string option) result \<times> cfs" where
  "TokenStore_Load ts run stat_fails read_fault fs =
     (case ts of
        FileTokenStore path \<Rightarrow> file_token_Load path stat_fails read_fault fs
      | KeychainStore \<Rightarrow> (ring_token_Load run, fs)
      | SecretServiceStore b \<Rightarrow> (ring_token_Load run, fs))"

definition TokenStore_Save ::
  "token_store \<Rightarrow> exec_result \<Rightarrow> string \<Rightarrow> cfg_fault \<Rightarrow> string \<Rightarrow> cfs \<Rightarrow> cfg_error option \<times> cfs" where
  "TokenStore_Save ts run tmp fault token fs =
     (case ts of
        FileTokenStore path \<Rightarrow> if path = [] then (Some CfgNoHome, fs) else writeFileAtomic0600 tmp fault fs path token
      | _ \<Rightarrow> (case run of ExecOk _ \<Rightarrow> None | _ \<Rightarrow> Some CfgBackend, fs))"

fun TokenStore_Kind :: "token_store \<Rightarrow> string" where
  "TokenStore_Kind KeychainStore = ''keychain''"
| "TokenStore_Kind (SecretServiceStore b) = ''secret-service''"
| "TokenStore_Kind (FileTokenStore p) = ''file''"

section \<open>Lemmas\<close>

lemma path_clean_absolute: "has_prefix p ''/'' \<Longrightarrow> has_prefix (path_clean p) ''/''"
  by (simp add: path_clean_def Let_def) (simp add: has_prefix_def)

lemma path_join_absolute: "has_prefix a ''/'' \<Longrightarrow> has_prefix (path_join a b) ''/''"
  using path_clean_absolute[of "a"] path_clean_absolute[of "a @ slash # b"]
  by (cases a) (auto simp: path_join_def has_prefix_def)

lemma xdgDir_absolute: "has_prefix fallback ''/'' \<Longrightarrow> has_prefix (xdgDir getenv var fallback) ''/''"
  by (simp add: xdgDir_def Let_def)

lemma write_atomic_cases:
  assumes "tmp \<noteq> path" "fs tmp = None"
  shows "writeFileAtomic0600 tmp fault fs path payload =
     (case fst (writeFileAtomic0600 tmp fault fs path payload) of
        None \<Rightarrow> (None, fs(path \<mapsto> (payload, mode0600))) | Some e \<Rightarrow> (Some e, fs))"
  using assms by (cases fault) (auto simp: writeFileAtomic0600_def Let_def fun_upd_twist split: option.splits)

section \<open>The layout is absolute\<close>

definition tilde_path :: "string \<Rightarrow> bool" where
  "tilde_path p \<longleftrightarrow> p = ''~'' \<or> has_prefix p ''~/''"

lemma tilde_test: "(2 \<le> length p \<and> p ! 0 = CHR ''~'' \<and> p ! 1 = slash) \<longleftrightarrow> has_prefix p ''~/''"
proof (cases p)
  case (Cons a q)
  then show ?thesis by (cases q) (auto simp: has_prefix_def)
qed (simp add: has_prefix_def)

lemma expandTilde_eq:
  "expandTilde home p =
     (if tilde_path p then (if home = [] then None else if p = ''~'' then Some home else Some (path_join home (drop 2 p)))
      else Some p)"
  unfolding expandTilde_def tilde_test tilde_path_def by simp

lemma tilde_not_absolute: "tilde_path p \<Longrightarrow> \<not> has_prefix p ''/''"
  by (cases p) (auto simp: tilde_path_def has_prefix_def)

text \<open>C40. With an absolute home directory every file of the layout is absolute on both systems, whatever
  the environment holds, and the token file exists on Linux only. The resolved save directory is absolute
  exactly when the configured one is empty, absolute or starts with a tilde: a relative one is used as it
  is, from the working directory.\<close>

theorem paths_absolute:
  assumes "has_prefix home ''/''" "Resolve os getenv home = Some p"
  shows "(\<forall>x\<in>{pa_saveDir p, pa_agentInbox p, pa_lastPath p, pa_recents p, pa_config p, pa_aliases p, pa_log p}. has_prefix x ''/'')
    \<and> (if os = Linux then has_prefix (pa_token p) ''/'' else pa_token p = [])
    \<and> (\<forall>dir. ResolvedSaveDir (Some p) home NoFault c = Inr dir \<longrightarrow>
         (has_prefix dir ''/'' \<longleftrightarrow> cf_saveDir c = [] \<or> has_prefix (cf_saveDir c) ''/'' \<or> tilde_path (cf_saveDir c))
         \<and> (\<not> has_prefix dir ''/'' \<longrightarrow> dir = cf_saveDir c))"
proof -
  have p: "p = (case os of Darwin \<Rightarrow> darwinPaths home | Linux \<Rightarrow> linuxPaths getenv home)" and home: "home \<noteq> []"
    using assms(2) by (auto simp: Resolve_def split: if_splits)
  have a: "(\<forall>x\<in>{pa_saveDir p, pa_agentInbox p, pa_lastPath p, pa_recents p, pa_config p, pa_aliases p, pa_log p}. has_prefix x ''/'')"
    and tok: "if os = Linux then has_prefix (pa_token p) ''/'' else pa_token p = []"
    using assms(1) unfolding p
    by (cases os; simp add: darwinPaths_def linuxPaths_def Let_def path_join_absolute xdgDir_absolute)+
  have "(has_prefix dir ''/'' \<longleftrightarrow> cf_saveDir c = [] \<or> has_prefix (cf_saveDir c) ''/'' \<or> tilde_path (cf_saveDir c))
         \<and> (\<not> has_prefix dir ''/'' \<longrightarrow> dir = cf_saveDir c)" if "ResolvedSaveDir (Some p) home NoFault c = Inr dir" for dir
    using that home a assms(1) path_join_absolute[OF assms(1)] tilde_not_absolute[of "cf_saveDir c"]
    by (auto simp: ResolvedSaveDir_def ensureDir0700_def expandTilde_eq split: if_splits)
  with a tok show ?thesis by blast
qed

theorem paths_absolute_witness:
  "\<exists>p. Resolve Linux (\<lambda>_. []) ''/root'' = Some p \<and> has_prefix (pa_token p) ''/''
    \<and> ResolvedSaveDir (Some p) ''/root'' NoFault (DefaultConfig\<lparr>cf_saveDir := ''inbox''\<rparr>) = Inr ''inbox''
    \<and> \<not> has_prefix ''inbox'' ''/''"
proof -
  let ?p = "linuxPaths (\<lambda>_. []) ''/root''"
  have r: "Resolve Linux (\<lambda>_. []) ''/root'' = Some ?p" "has_prefix ''/root'' ''/''"
    by (simp_all add: Resolve_def has_prefix_def)
  have d: "ResolvedSaveDir (Some ?p) ''/root'' NoFault (DefaultConfig\<lparr>cf_saveDir := ''inbox''\<rparr>) = Inr ''inbox''"
    by (simp add: ResolvedSaveDir_def ensureDir0700_def expandTilde_eq tilde_path_def has_prefix_def)
  from paths_absolute[OF r(2,1), of "DefaultConfig\<lparr>cf_saveDir := ''inbox''\<rparr>"] r d show ?thesis
    by (simp add: has_prefix_def)
qed

lemma path_clean_not_Nil: "path_clean p \<noteq> []"
proof -
  have "e \<noteq> []" if "e \<in> set (fold (clean_step r) ws acc)" "\<forall>e\<in>set acc. e \<noteq> []" for e r ws acc
    using that
  proof (induction ws arbitrary: acc)
    case (Cons w ws)
    have "\<forall>e\<in>set (clean_step r w acc). e \<noteq> []" using Cons.prems(2) by (auto simp: clean_step_def split: list.splits if_splits)
    then show ?case using Cons by simp
  qed simp
  moreover have "join_with slash es \<noteq> []" if "es \<noteq> []" "\<forall>e\<in>set es. e \<noteq> []" for es
    using that by (cases es; cases "tl es") auto
  ultimately show ?thesis
    by (simp add: path_clean_def Let_def)
qed

lemma path_dir_not_Nil: "path_dir p \<noteq> []"
  by (simp add: path_dir_def path_clean_not_Nil)

section \<open>Tokens\<close>

text \<open>A token saved to the file store (trimmed, as generated tokens are) is read back by the store, by
  the same value, in a file of mode 0600, or the save fails and leaves every file as it was; reading a token
  file tightens its mode.\<close>

lemma token_file_roundtrip:
  assumes "path \<noteq> []" "tmp \<noteq> path" "fs tmp = None" "trim_space token = token" "token \<noteq> []"
  shows "(case TokenStore_Save (FileTokenStore path) run tmp fault token fs of
      (None, fs') \<Rightarrow> fs' = fs(path \<mapsto> (token, mode0600))
        \<and> TokenStore_Load (FileTokenStore path) run False (ReadOk []) fs' = (Inr (Some token), fs')
    | (Some e, fs') \<Rightarrow> fs' = fs)
    \<and> (fault = NoFault \<longrightarrow> fst (TokenStore_Save (FileTokenStore path) run tmp fault token fs) = None)
    \<and> (\<forall>txt0 m r. fs path = Some (txt0, m) \<longrightarrow>
        snd (TokenStore_Load (FileTokenStore path) run False r fs) = fs(path \<mapsto> (txt0, mode0600)))"
proof -
  let ?w = "writeFileAtomic0600 tmp fault fs path token"
  have s: "TokenStore_Save (FileTokenStore path) run tmp fault token fs = ?w"
    using assms(1) by (simp add: TokenStore_Save_def)
  have w: "?w = (None, fs(path \<mapsto> (token, mode0600))) \<or> (\<exists>e. ?w = (Some e, fs))"
    using write_atomic_cases[of tmp path fs fault token] assms(2,3) by (cases "fst ?w") auto
  have l: "TokenStore_Load (FileTokenStore path) run False (ReadOk []) (fs(path \<mapsto> (token, mode0600))) =
      (Inr (Some token), fs(path \<mapsto> (token, mode0600)))"
    using assms by (simp add: TokenStore_Load_def file_token_Load_def Let_def)
  have "path_dir path \<noteq> []" by (rule path_dir_not_Nil)
  then have "fst (writeFileAtomic0600 tmp NoFault fs path token) = None"
    by (simp add: writeFileAtomic0600_def ensureDir0700_def Let_def)
  then show ?thesis
    using s w l assms(1) by (auto simp: TokenStore_Load_def file_token_Load_def Let_def)
qed

lemma token_file_roundtrip_witness:
  "snd (TokenStore_Save (FileTokenStore ''/t'') ExecFails ''/tmp'' NoFault ''ABC'' (\<lambda>_. None)) ''/t'' = Some (''ABC'', mode0600)"
proof -
  have "trim_space ''ABC'' = ''ABC''" by (rule trim_space_id) (simp add: graphic_def)
  from token_file_roundtrip[OF _ _ _ this, of "''/t''" "''/tmp''" "\<lambda>_. None" ExecFails NoFault]
  show ?thesis by (auto split: prod.splits option.splits)
qed

section \<open>Pairing\<close>

text \<open>The path the remote shell of \<open>writeRemoteToken\<close> computes from its environment.\<close>

definition remote_token_path :: "(string \<Rightarrow> string) \<Rightarrow> string \<Rightarrow> string" where
  "remote_token_path getenv home =
     (let base = (if getenv ''XDG_CONFIG_HOME'' \<noteq> [] then getenv ''XDG_CONFIG_HOME'' else home @ ''/.config'');
          dir = base @ ''/clipbeam'';
          dir' = (if has_prefix dir ''/'' then dir else home @ ''/.config/clipbeam'')
      in dir' @ ''/token'')"

lemma abs_dir_append: "es \<noteq> [] \<Longrightarrow> abs_dir es @ slash # x = abs_dir (es @ [x])"
  by (simp add: abs_dir_snoc)

lemma linux_token_path:
  assumes "\<forall>e\<in>set hs. leaf_elem e" "hs \<noteq> []"
    "\<not> has_prefix (getenv ''XDG_CONFIG_HOME'') ''/'' \<or> (\<exists>xs. xs \<noteq> [] \<and> (\<forall>e\<in>set xs. leaf_elem e) \<and> getenv ''XDG_CONFIG_HOME'' = abs_dir xs)"
  shows "pa_token (linuxPaths getenv (abs_dir hs)) = remote_token_path getenv (abs_dir hs)"
proof -
  have leafs: "leaf_elem ''.config''" "leaf_elem ''clipbeam''" "leaf_elem ''token''"
    by (simp_all add: leaf_elem_def)
  have j: "path_join (path_join (abs_dir es) ''clipbeam'') ''token'' = abs_dir es @ ''/clipbeam/token''"
    if "es \<noteq> []" "\<forall>e\<in>set es. leaf_elem e" for es
  proof -
    have "abs_dir es @ ''/clipbeam/token'' = (abs_dir es @ ''/clipbeam'') @ ''/token''" by simp
    also have "\<dots> = abs_dir ((es @ [''clipbeam'']) @ [''token''])"
      using that(1) abs_dir_append[of es "''clipbeam''"] abs_dir_append[of "es @ [''clipbeam'']" "''token''"] by simp
    finally show ?thesis using that leafs path_join_abs_dir[of es] path_join_abs_dir[of "es @ [''clipbeam'']"] by simp
  qed
  let ?x = "getenv ''XDG_CONFIG_HOME''"
  show ?thesis
  proof (cases "has_prefix ?x ''/''")
    case True
    then obtain xs where xs: "xs \<noteq> []" "\<forall>e\<in>set xs. leaf_elem e" "?x = abs_dir xs" using assms(3) by blast
    have "remote_token_path getenv (abs_dir hs) = ?x @ ''/clipbeam/token''"
      using True xs(3) by (simp add: remote_token_path_def Let_def abs_dir_def has_prefix_def)
    then show ?thesis
      using True xs j[OF xs(1,2)] by (simp add: linuxPaths_def Let_def xdgDir_def abs_dir_def)
  next
    case False
    have r: "remote_token_path getenv (abs_dir hs) = abs_dir hs @ ''/.config/clipbeam/token''"
      using False by (cases ?x) (simp_all add: remote_token_path_def Let_def has_prefix_def abs_dir_def)
    have "path_join (abs_dir hs) ''.config'' = abs_dir (hs @ [''.config''])"
      using assms(1) leafs by (simp add: path_join_abs_dir)
    moreover have "abs_dir (hs @ [''.config'']) = abs_dir hs @ ''/.config''"
      using abs_dir_append[OF assms(2), of "''.config''"] by simp
    ultimately show ?thesis
      using False r j[of "hs @ [''.config'']"] assms(1) leafs
      by (simp add: linuxPaths_def Let_def xdgDir_def)
  qed
qed

text \<open>C31. The token \<open>setup\<close> writes on a remote Linux box without a key ring is at the path the remote's
  own token store reads, in whatever way the box sets \<open>XDG_CONFIG_HOME\<close>, so the pair shares it. A remote
  macOS box, or one with a D-Bus session and \<open>secret-tool\<close>, opens a key ring instead, and what it loads does
  not depend on the file.\<close>

theorem setup_pairs_token:
  assumes "\<forall>e\<in>set hs. leaf_elem e" "hs \<noteq> []" "trim_space token = token" "token \<noteq> []"
    "\<not> has_prefix (getenv ''XDG_CONFIG_HOME'') ''/'' \<or> (\<exists>xs. xs \<noteq> [] \<and> (\<forall>e\<in>set xs. leaf_elem e) \<and> getenv ''XDG_CONFIG_HOME'' = abs_dir xs)"
    "fs (remote_token_path getenv (abs_dir hs)) = Some (token, m)"
    "Resolve os getenv (abs_dir hs) = Some p"
  shows "case (os, newSecretServiceStore getenv secret_tool) of
      (Linux, None) \<Rightarrow> (\<exists>ts. OpenTokenStore os getenv secret_tool (abs_dir hs) TokenStoreAuto p = Inr ts
        \<and> fst (TokenStore_Load ts run False (ReadOk []) fs) = Inr (Some token))
    | _ \<Rightarrow> (\<exists>ts. OpenTokenStore os getenv secret_tool (abs_dir hs) TokenStoreAuto p = Inr ts
        \<and> TokenStore_Load ts run False (ReadOk []) fs = (ring_token_Load run, fs))"
proof -
  have kr: "\<exists>b. ts = SecretServiceStore b" if "newSecretServiceStore getenv secret_tool = Some ts" for ts
    using that by (auto simp: newSecretServiceStore_def split: if_splits option.splits)
  show ?thesis
  proof (cases os)
    case Darwin
    then show ?thesis by (simp add: OpenTokenStore_def TokenStore_Load_def)
  next
    case Linux
    have p: "p = linuxPaths getenv (abs_dir hs)"
      using assms(7) Linux by (simp add: Resolve_def split: if_splits)
    have "pa_token p = remote_token_path getenv (abs_dir hs)"
      unfolding p using assms(1,2,5) by (intro linux_token_path)
    moreover have "remote_token_path getenv (abs_dir hs) \<noteq> []" by (simp add: remote_token_path_def Let_def)
    ultimately show ?thesis
      using Linux assms(3,4,6) kr
      by (cases "newSecretServiceStore getenv secret_tool")
        (auto simp: OpenTokenStore_def TokenStore_Load_def newFileTokenStore_def file_token_Load_def Let_def)
  qed
qed

definition witness_env :: "string \<Rightarrow> string" where
  "witness_env v = (if v = ''XDG_CONFIG_HOME'' then ''/cfg'' else [])"

theorem setup_pairs_token_witness:
  "\<exists>p ts. Resolve Linux witness_env ''/root'' = Some p
    \<and> OpenTokenStore Linux witness_env None ''/root'' TokenStoreAuto p = Inr ts
    \<and> fst (TokenStore_Load ts ExecFails False (ReadOk []) [''/cfg/clipbeam/token'' \<mapsto> (''ABC'', 0)]) = Inr (Some ''ABC'')
    \<and> (\<exists>q. Resolve Darwin witness_env ''/root'' = Some q
        \<and> OpenTokenStore Darwin witness_env None ''/root'' TokenStoreAuto q = Inr KeychainStore)"
proof -
  have h: "''/root'' = abs_dir [''root'']" by (simp add: abs_dir_def)
  have t: "trim_space ''ABC'' = ''ABC''" by (rule trim_space_id) (simp add: graphic_def)
  have x: "witness_env ''XDG_CONFIG_HOME'' = abs_dir [''cfg'']" "leaf_elem ''cfg''" "leaf_elem ''root''"
    by (simp_all add: abs_dir_def leaf_elem_def witness_env_def)
  have "remote_token_path witness_env (abs_dir [''root'']) = ''/cfg/clipbeam/token''"
    by (simp add: remote_token_path_def witness_env_def has_prefix_def Let_def)
  then have f: "[''/cfg/clipbeam/token'' \<mapsto> (''ABC'', 0)] (remote_token_path witness_env (abs_dir [''root''])) = Some (''ABC'', 0)"
    by simp
  have r: "Resolve Linux witness_env (abs_dir [''root'']) = Some (linuxPaths witness_env (abs_dir [''root'']))"
    by (simp add: Resolve_def abs_dir_def)
  have d: "\<not> has_prefix (witness_env ''XDG_CONFIG_HOME'') ''/'' \<or>
      (\<exists>xs. xs \<noteq> [] \<and> (\<forall>e\<in>set xs. leaf_elem e) \<and> witness_env ''XDG_CONFIG_HOME'' = abs_dir xs)"
    using x by (metis empty_iff insert_iff list.distinct(1) list.simps(15) set_empty)
  have n: "newSecretServiceStore witness_env None = None" by (simp add: newSecretServiceStore_def)
  note pairs = setup_pairs_token[where hs = "[''root'']" and getenv = witness_env and token = "''ABC''" and os = Linux
      and fs = "[''/cfg/clipbeam/token'' \<mapsto> (''ABC'', 0)]" and secret_tool = None and run = ExecFails]
  show ?thesis
    using pairs[OF _ _ t _ d f r] x n r unfolding h
    by (auto simp: OpenTokenStore_def Resolve_def abs_dir_def)
qed

end
