(* ===== verification/Tailscale.thy ===== *)
theory Tailscale
  imports Target Classify
begin

text \<open>
  Package \<open>tailscale\<close> and the part of \<open>verbs_send_tailscale.go\<close> that decides whether a target is a tailnet
  peer. The files and the path of the machine, the output of \<open>tailscale status\<close> and its decoding are
  parameters; so is the order of the peers, a Go map. Names are folded as ASCII (\<open>strings.EqualFold\<close> also folds
  letters beyond ASCII, which host and DNS names do not have).
\<close>

section \<open>Nodes\<close>

record node =
  nd_hostName :: string
  nd_dnsName :: string
  nd_os :: string
  nd_online :: bool
  nd_ips :: "string list"

text \<open>A decoded entry: an absent list of addresses is nil.\<close>

record node_json =
  nj_hostName :: string
  nj_dnsName :: string
  nj_os :: string
  nj_online :: bool
  nj_ips :: "string list option"

record status_json =
  sj_self :: "node_json option"
  sj_peers :: "node_json option list"

definition toNode :: "node_json \<Rightarrow> node" where
  "toNode n =
     \<lparr>nd_hostName = nj_hostName n, nd_dnsName = nj_dnsName n, nd_os = nj_os n, nd_online = nj_online n,
      nd_ips = (case nj_ips n of None \<Rightarrow> [] | Some l \<Rightarrow> l)\<rparr>"

text \<open>A file as \<open>Stat\<close> sees it: whether it is regular, and its permission bits.\<close>

definition isExecutable :: "(string \<Rightarrow> (bool \<times> nat) option) \<Rightarrow> string \<Rightarrow> bool" where
  "isExecutable stat path =
     (case stat path of
        None \<Rightarrow> False
      | Some (regular, perm) \<Rightarrow> if \<not> regular then False else perm AND 73 \<noteq> 0)"

definition probeOrder :: "string list" where
  "probeOrder = [''/usr/bin/tailscale'', ''/usr/local/bin/tailscale'', ''/opt/homebrew/bin/tailscale'',
     ''/Applications/Tailscale.app/Contents/MacOS/Tailscale'']"

definition FindBinary :: "(string \<Rightarrow> (bool \<times> nat) option) \<Rightarrow> string option \<Rightarrow> string option" where
  "FindBinary stat lookPath =
     (case find (isExecutable stat) probeOrder of Some p \<Rightarrow> Some p | None \<Rightarrow> lookPath)"

text \<open>\<open>Status\<close>: no node on any failure.\<close>

definition ts_Status :: "string option \<Rightarrow> (string \<Rightarrow> string option) \<Rightarrow> (string \<Rightarrow> status_json option) \<Rightarrow> node list" where
  "ts_Status bin run unmarshal =
     (case bin of
        None \<Rightarrow> []
      | Some b \<Rightarrow>
          (case run b of
             None \<Rightarrow> []
           | Some out0 \<Rightarrow>
               if out0 = [] then []
               else case unmarshal out0 of
                 None \<Rightarrow> []
               | Some s \<Rightarrow>
                   (case sj_self s of None \<Rightarrow> [] | Some n \<Rightarrow> [toNode n])
                   @ map toNode (List.map_filter id (sj_peers s))))"

section \<open>Names\<close>

definition cut_label :: "string \<Rightarrow> string option" where
  "cut_label s = map_option (\<lambda>i. take i s) (index_byte s (CHR ''.''))"

definition nameMatches :: "node \<Rightarrow> string \<Rightarrow> bool" where
  "nameMatches n rawName =
     (let name = trim_suffix rawName ''.''; dns = trim_suffix (nd_dnsName n) ''.'' in
      if equal_fold (nd_hostName n) name then True
      else if equal_fold dns name then True
      else (case cut_label dns of Some label \<Rightarrow> equal_fold label name | None \<Rightarrow> False))"

definition tailnetPrefixV4 :: string where
  "tailnetPrefixV4 = ''100.''"

fun firstTailnetV4 :: "string list \<Rightarrow> string" where
  "firstTailnetV4 [] = []"
| "firstTailnetV4 (ip # ips) = (if has_prefix ip tailnetPrefixV4 then ip else firstTailnetV4 ips)"

fun resolve_loop :: "node list \<Rightarrow> string \<Rightarrow> string option" where
  "resolve_loop [] name = None"
| "resolve_loop (n # ns) name =
     (if nameMatches n name then
        (let v4 = firstTailnetV4 (nd_ips n) in if v4 \<noteq> [] then Some v4 else resolve_loop ns name)
      else resolve_loop ns name)"

definition ts_Resolve :: "node list \<Rightarrow> string \<Rightarrow> string option" where
  "ts_Resolve nodes rawName =
     (let name = trim_space rawName in
      if name = [] then None
      else if has_prefix name tailnetPrefixV4 then Some name
      else resolve_loop nodes name)"

definition tailscaleTargetIP :: "node list \<Rightarrow> string \<Rightarrow> string option" where
  "tailscaleTargetIP nodes rawSpec =
     (let spec = trim_space rawSpec in
      if spec = [] then None
      else if CHR ''@'' \<in> set spec then None
      else if count_byte spec (CHR '':'') = 1 then None
      else ts_Resolve nodes spec)"

section \<open>Lemmas\<close>

lemma firstTailnetV4_spec:
  "firstTailnetV4 ips = (case find (\<lambda>ip. has_prefix ip tailnetPrefixV4) ips of None \<Rightarrow> [] | Some ip \<Rightarrow> ip)"
  by (induction ips) auto

lemma prefix_not_Nil: "has_prefix ip tailnetPrefixV4 \<Longrightarrow> ip \<noteq> []"
  by (auto simp: tailnetPrefixV4_def has_prefix_def)

text \<open>The addresses a name may resolve to.\<close>

definition candidates :: "node list \<Rightarrow> string \<Rightarrow> string set" where
  "candidates nodes name =
     {ip. \<exists>n\<in>set nodes. nameMatches n name \<and> find (\<lambda>ip. has_prefix ip tailnetPrefixV4) (nd_ips n) = Some ip}"

lemma resolve_loop_None: "resolve_loop nodes name = None \<longleftrightarrow> candidates nodes name = {}"
proof (induction nodes)
  case (Cons n ns)
  have "candidates (n # ns) name =
      (if nameMatches n name then set_option (find (\<lambda>ip. has_prefix ip tailnetPrefixV4) (nd_ips n)) else {}) \<union> candidates ns name"
    by (auto simp: candidates_def)
  then show ?case
    using Cons prefix_not_Nil
    by (cases "find (\<lambda>ip. has_prefix ip tailnetPrefixV4) (nd_ips n)")
      (auto simp: firstTailnetV4_spec Let_def dest!: find_Some_iff[THEN iffD1])
qed (simp add: candidates_def)

lemma resolve_loop_in: "resolve_loop nodes name = Some ip \<Longrightarrow> ip \<in> candidates nodes name"
proof (induction nodes)
  case (Cons n ns)
  then show ?case
    by (auto simp: candidates_def firstTailnetV4_spec Let_def split: if_splits option.splits)
qed simp

lemma candidates_prefix: "ip \<in> candidates nodes name \<Longrightarrow> has_prefix ip tailnetPrefixV4"
  by (auto simp: candidates_def find_Some_iff)

lemma candidates_set: "set nodes = set nodes' \<Longrightarrow> candidates nodes name = candidates nodes' name"
  by (simp add: candidates_def)

text \<open>A spec in one of the SSH forms.\<close>

definition ssh_form :: "string \<Rightarrow> bool" where
  "ssh_form spec \<longleftrightarrow> CHR ''@'' \<in> set spec \<or> count_byte spec (CHR '':'') = 1"

text \<open>The target of a spec whose trimmed form \<open>Resolve\<close> trims to itself (a spec of visible bytes).\<close>

lemma target_ip_cases:
  assumes "trim_space spec = spec"
  shows "tailscaleTargetIP nodes spec =
    (if spec = [] \<or> ssh_form spec then None
     else if has_prefix spec tailnetPrefixV4 then Some spec else resolve_loop nodes spec)"
  using assms by (simp add: tailscaleTargetIP_def ts_Resolve_def ssh_form_def)

lemma quad_100_prefix: "octets [100, b, c, d] \<Longrightarrow> has_prefix (quad_of [100, b, c, d]) tailnetPrefixV4"
proof -
  have "decimal 100 = ''100''" by code_simp
  then show ?thesis by (simp add: quad_of_def quad_def tailnetPrefixV4_def has_prefix_def)
qed

lemma quad_not_ssh: "\<not> ssh_form (quad_of x)"
proof -
  have "CHR ''@'' \<notin> set (quad_of x)" "CHR '':'' \<notin> set (quad_of x)"
    using quad_of_chars[of "CHR ''@''" x] quad_of_chars[of "CHR '':''" x] by (auto simp: is_digit_iff)
  then show ?thesis by (simp add: ssh_form_def count_notin)
qed


definition witness_node :: node where
  "witness_node = \<lparr>nd_hostName = ''box'', nd_dnsName = ''my-box.tail.ts.net.'', nd_os = [], nd_online = True,
     nd_ips = [''fd7a::1'', ''100.64.0.9'']\<rparr>"


end
