(* ===== verification/Send.thy ===== *)
theory Send
  imports ReadVerbs Shell Dial Config Tailscale
begin

text \<open>
  The sending commands: target resolution and the push over SSH (\<open>verbs_send.go\<close>), the push over the tailnet
  (\<open>verbs_send_tailscale.go\<close>) and the commands themselves (\<open>verbs_sendrun.go\<close>). What the other side does
  with a command or a request is a parameter over a state of its own, so the push can be composed with the
  models of \<open>ingest\<close> and of the clip route; the environment, files and the relayed error texts are parameters
  too.
\<close>

section \<open>Resolving a target\<close>

record resolved_target =
  rt_target :: target
  rt_remoteBinPath :: string
  rt_transport :: string
  rt_peerIP :: string
  rt_peerPort :: nat

definition no_target :: target where
  "no_target = \<lparr>tg_user = [], tg_host = [], tg_port = 0, tg_identityFiles = [], tg_configAlias = [], tg_acceptNew = False\<rparr>"

text \<open>What resolution reads: the layout, the configuration (a zero one when loading failed), the alias store,
  the ssh configuration, the home directory and files, the tailnet, and the texts of resolve errors.\<close>

record resolve_env =
  rv_paths :: "paths option"
  rv_port :: nat
  rv_aliases :: "(cfg_error, alias_store) result"
  rv_resolver :: config_resolver
  rv_home :: string
  rv_stat :: "string \<Rightarrow> bool"
  rv_nodes :: "node list"
  rv_text :: "resolve_error \<Rightarrow> string"

definition isTypedSSHErr :: "cli_error \<Rightarrow> bool" where
  "isTypedSSHErr e = list_ex (\<lambda>s. s \<in> set (ce_wraps e))
     [SshHostKeyUnknown, SshHostKeyMismatch, SshHostKeyCAUnsupported, SshProxyJumpUnsupported, SshDialFailed]"

definition resolveErr :: "cli_error \<Rightarrow> cli_error option" where
  "resolveErr e =
     (if isTypedSSHErr e then codedSSH (Some e)
      else coded ExitConfig (Some (e\<lparr>ce_message := ''cannot resolve target: '' @ ce_message e\<rparr>)))"

definition resolve_cli_error :: "resolve_env \<Rightarrow> resolve_error \<Rightarrow> cli_error" where
  "resolve_cli_error env x = \<lparr>ce_message = rv_text env x, ce_code = None, ce_wraps = resolve_wraps x\<rparr>"

definition tailscaleResolvedTarget :: "string \<Rightarrow> nat \<Rightarrow> (cli_error, resolved_target) result" where
  "tailscaleResolvedTarget peerIP cfgPort =
     (if trim_space peerIP = [] then
        Inl (configError ''tailscale target has no peer IP; re-run `clipbeam setup` or pass a literal 100.x address'')
      else Inr \<lparr>rt_target = no_target, rt_remoteBinPath = [], rt_transport = ''tailscale'', rt_peerIP = peerIP,
             rt_peerPort = (if cfgPort = 0 then 8787 else cfgPort)\<rparr>)"

definition ssh_resolved :: "resolve_env \<Rightarrow> string \<Rightarrow> string \<Rightarrow> (cli_error, resolved_target) result" where
  "ssh_resolved env spec bin =
     (case resolveTargetWith (rv_resolver env) (rv_home env) (rv_stat env) spec of
        Inl x \<Rightarrow> Inl (the (resolveErr (resolve_cli_error env x)))
      | Inr t \<Rightarrow> Inr \<lparr>rt_target = t, rt_remoteBinPath = bin, rt_transport = ''ssh'', rt_peerIP = [], rt_peerPort = 0\<rparr>)"

definition resolveTarget :: "resolve_env \<Rightarrow> string \<Rightarrow> (cli_error, resolved_target) result" where
  "resolveTarget env spec =
     (if rv_paths env = None then Inl (configError ''clipbeam: cannot resolve home directory'')
      else case rv_aliases env of
        Inl _ \<Rightarrow> Inl (configError ''alias store'')
      | Inr aliases \<Rightarrow>
          (case LookupSpec aliases spec of
             Some al \<Rightarrow>
               if al_transport al = ''tailscale'' then tailscaleResolvedTarget (al_peerIP al) (rv_port env)
               else ssh_resolved env (aliasSpec al) (al_remoteBinPath al)
           | None \<Rightarrow>
               if spec = [] then
                 Inl (configError ''no target given and no default alias; run `clipbeam setup user@host` first'')
               else case tailscaleTargetIP (rv_nodes env) spec of
                 Some ip \<Rightarrow> tailscaleResolvedTarget ip (rv_port env)
               | None \<Rightarrow> ssh_resolved env spec []))"

section \<open>The envelope\<close>

text \<open>The machine's name; an unknown one is empty.\<close>

definition senderHostname :: "string \<Rightarrow> string" where
  "senderHostname hostname = (if hostname \<noteq> [] then hostname else ''clipbeam'')"

definition envelope_item :: "cb01_item \<Rightarrow> item" where
  "envelope_item it =
     (let kind = KindString (ci_kind it) in
      if kind = KindText then
        \<lparr>item_kind = kind, item_name = None, item_uti = None, item_mime = None, item_bytesB64 = None,
         item_text = Some (ci_payload it)\<rparr>
      else
        \<lparr>item_kind = kind, item_name = nilIfEmpty (ci_name it), item_uti = nilIfEmpty (ci_uti it),
         item_mime = nilIfEmpty (ci_mime it), item_bytesB64 = Some (b64_encode (ci_payload it)), item_text = None\<rparr>)"

definition buildEnvelope :: "string \<Rightarrow> string \<Rightarrow> cb01_item list \<Rightarrow> (cli_error, envelope) result" where
  "buildEnvelope hostname channel items =
     (let env = \<lparr>env_version = 1, env_sender = senderHostname hostname, env_items = map envelope_item items,
                 env_channel = (if channel = ChannelAgent then Some ChannelAgent else None)\<rparr> in
      if env_items env = [] then Inl (usageError ''send: nothing to send (empty items)'') else Inr env)"

definition decodedSumExceeds :: "cb01_item list \<Rightarrow> int \<Rightarrow> bool \<times> int" where
  "decodedSumExceeds items maxBytes =
     (let tot = foldl (\<lambda>n it. n + int (length (ci_payload it))) 0 items in (tot > maxBytes, tot))"

definition loadSendToken ::
  "paths option \<Rightarrow> (paths \<Rightarrow> (cfg_error, token_store) result) \<Rightarrow> (token_store \<Rightarrow> (cfg_error, string option) result)
   \<Rightarrow> (cli_error, string) result" where
  "loadSendToken ps opening loading =
     (case ps of
        None \<Rightarrow> Inl (configError ''clipbeam: cannot resolve home directory'')
      | Some p \<Rightarrow>
          (case opening p of
             Inl _ \<Rightarrow> Inl (configError ''open token store'')
           | Inr ts \<Rightarrow>
               (case loading ts of
                  Inl _ \<Rightarrow> Inl (configError ''load token'')
                | Inr None \<Rightarrow> Inl (configError ''no shared token; run `clipbeam setup` to pair before sending'')
                | Inr (Some tok) \<Rightarrow>
                    if tok = [] then Inl (configError ''no shared token; run `clipbeam setup` to pair before sending'')
                    else Inr tok)))"

section \<open>Pushing\<close>

record send_outcome =
  so_sentItems :: nat
  so_remotePath :: string

text \<open>
  The world of a push, over the state \<open>'r\<close> of the other side: the client or the error of making it, opening a
  session, what a remote command does with its input, the token, the machine's name, the configured cap, and
  what a POST of a body to a URL with a token and a sender gives (an error or a status).
\<close>

record ('k, 'c, 'r) send_world =
  sw_client :: "(string, ('k, 'c) client_env) result"
  sw_session :: "'c \<Rightarrow> string option"
  sw_remote :: "'c \<Rightarrow> string \<Rightarrow> string \<Rightarrow> 'r \<Rightarrow> exec_world \<times> 'r"
  sw_token :: "(cli_error, string) result"
  sw_hostname :: string
  sw_maxBytes :: int
  sw_post :: "string \<Rightarrow> string \<Rightarrow> string \<Rightarrow> string \<Rightarrow> 'r \<Rightarrow> (string, int) result \<times> 'r"

definition sshNotReady :: "string \<Rightarrow> cli_error" where
  "sshNotReady msg = codedf ExitConfig (''ssh client unavailable (check ~/.ssh/known_hosts): '' @ msg)"

definition encodeFrame :: "string \<Rightarrow> cb01_item list \<Rightarrow> (enc_error, string) result" where
  "encodeFrame channel items = EncodeCB01 (ChannelByte channel) items"

definition push_url :: "resolved_target \<Rightarrow> string" where
  "push_url rt = ''http://'' @ join_host_port (rt_peerIP rt) (portString (rt_peerPort rt)) @ ''/clip''"

definition pushTailscale ::
  "('k, 'c, 'r) send_world \<Rightarrow> resolved_target \<Rightarrow> string \<Rightarrow> cb01_item list \<Rightarrow> 'r \<Rightarrow> (cli_error, send_outcome) result \<times> 'r" where
  "pushTailscale w rt channel items r =
     (case sw_token w of
        Inl e \<Rightarrow> (Inl e, r)
      | Inr token \<Rightarrow>
          (case buildEnvelope (sw_hostname w) channel items of
             Inl e \<Rightarrow> (Inl e, r)
           | Inr env \<Rightarrow>
               if fst (decodedSumExceeds items (maxBytesOf (sw_maxBytes w))) then
                 (Inl (codedf ExitTooLarge ''payload exceeds the cap''), r)
               else
                 (case sw_post w (push_url rt) token (senderHostname (sw_hostname w)) (MarshalEnvelope env) r of
                    (Inl m, r') \<Rightarrow> (Inl (codedf ExitUnreachable (''tailscale send to '' @ rt_peerIP rt @ '': '' @ m)), r')
                  | (Inr status, r') \<Rightarrow>
                      if status \<noteq> 200 then
                        (Inl (codedf (httpStatusToExit status) (''peer /clip returned HTTP '' @ decimal (nat status))), r')
                      else (Inr \<lparr>so_sentItems = length items, so_remotePath = []\<rparr>, r'))))"

definition pushCB01 ::
  "('k, 'c, 'r) send_world \<Rightarrow> resolved_target \<Rightarrow> string \<Rightarrow> cb01_item list \<Rightarrow> string \<Rightarrow> 'r
   \<Rightarrow> (cli_error, send_outcome) result \<times> string \<times> 'r" where
  "pushCB01 w rt channel items kh r =
     (if rt_transport rt = ''tailscale'' then
        (case pushTailscale w rt channel items r of (res, r') \<Rightarrow> (res, kh, r'))
      else case sw_client w of
        Inl m \<Rightarrow> (Inl (sshNotReady m), kh, r)
      | Inr env \<Rightarrow>
          (case client_Dial env (sw_session w) (rt_target rt) None kh of
             (Inl e, _, kh') \<Rightarrow> (Inl (the (codedSSH (Some e))), kh', r)
           | (Inr c, _, kh') \<Rightarrow>
               (case encodeFrame channel items of
                  Inl _ \<Rightarrow> (Inl (codedf ExitGeneric ''encode''), kh', r)
                | Inr frame \<Rightarrow>
                    (case sw_remote w c (remoteIngestCommand (rt_remoteBinPath rt)) frame r of
                       (ew, r') \<Rightarrow>
                         (case session_Run ew of
                            (stdout, stderr, Some e) \<Rightarrow>
                              (Inl (codedf ExitRemoteIO (''remote ingest failed: '' @ e @ '': '' @ stderr)), kh', r')
                          | (stdout, stderr, None) \<Rightarrow>
                              (Inr \<lparr>so_sentItems = length items, so_remotePath = stdout\<rparr>, kh', r'))))))"

section \<open>The commands\<close>

definition sendJSON :: "send_outcome \<Rightarrow> string" where
  "sendJSON o' = json_head @ CHR '','' # jmember ''sentItems'' (decimal (so_sentItems o')) @
     CHR '','' # jmember ''remotePath'' (jnull (nilIfEmpty (so_remotePath o'))) @ ''}''"

definition emitSendOutcome :: "global_flags \<Rightarrow> send_outcome \<Rightarrow> streams \<Rightarrow> verb_result" where
  "emitSendOutcome g o' st =
     (if gf_json g then emitJSON (sendJSON o') st
      else
        let st1 = dataln (''{'' @ jmember ''ok'' ''true'' @ CHR '','' # jmember ''sentItems'' (decimal (so_sentItems o')) @ ''}'') st in
        if so_remotePath o' \<noteq> [] then (None, data (so_remotePath o') st1) else (None, st1))"

definition channelFor :: "bool \<Rightarrow> string" where
  "channelFor agent = (if agent then ChannelAgent else ChannelClipboard)"

definition lastSlashIdx :: "string \<Rightarrow> nat option" where
  "lastSlashIdx s = last_index s slash"

text \<open>Reading the payload: the file, or standard input for \<open>-\<close>.\<close>

definition readFilePayload :: "(string \<Rightarrow> string option) \<Rightarrow> string option \<Rightarrow> string \<Rightarrow> (cli_error, string) result" where
  "readFilePayload readFile stdin file =
     (if file = ''-'' then (case stdin of Some b \<Rightarrow> Inr b | None \<Rightarrow> Inl (plain_error ''read stdin''))
      else case readFile file of Some b \<Rightarrow> Inr b | None \<Rightarrow> Inl (configError (''send: read '' @ file)))"

definition fileCB01Items :: "(string \<Rightarrow> string option) \<Rightarrow> string option \<Rightarrow> string \<Rightarrow> (cli_error, cb01_item list) result" where
  "fileCB01Items readFile stdin file =
     (let name = (if file = ''-'' then ''clipbeam-stdin''
                  else case lastSlashIdx file of Some i \<Rightarrow> drop (Suc i) file | None \<Rightarrow> file) in
      map_sum id (\<lambda>payload. [\<lparr>ci_kind = KindByte KindFile, ci_name = name, ci_uti = [], ci_mime = [], ci_payload = payload\<rparr>])
        (readFilePayload readFile stdin file))"

definition readLocalClipboardItems :: "(cli_error, cb01_item list) result" where
  "readLocalClipboardItems = Inl (configError ''push: local clipboard read is not available in this build'')"

definition captureScreenshotItems :: "(cli_error, cb01_item list) result" where
  "captureScreenshotItems = Inl (configError ''shot: screenshot capture is not available in this build'')"

text \<open>The common course: resolve, make the items, push, print.\<close>

definition run_push ::
  "('k, 'c, 'r) send_world \<Rightarrow> resolve_env \<Rightarrow> global_flags \<Rightarrow> string \<Rightarrow> string \<Rightarrow> (cli_error, cb01_item list) result
   \<Rightarrow> string \<Rightarrow> 'r \<Rightarrow> streams \<Rightarrow> verb_result \<times> string \<times> 'r" where
  "run_push w env g spec channel items kh r st =
     (case resolveTarget env spec of
        Inl e \<Rightarrow> ((Some e, st), kh, r)
      | Inr rt \<Rightarrow>
          (case items of
             Inl e \<Rightarrow> ((Some e, st), kh, r)
           | Inr its \<Rightarrow>
               (case pushCB01 w rt channel its kh r of
                  (Inl e, kh', r') \<Rightarrow> ((Some e, st), kh', r')
                | (Inr o', kh', r') \<Rightarrow> (emitSendOutcome g o' st, kh', r'))))"

definition runMsg ::
  "('k, 'c, 'r) send_world \<Rightarrow> resolve_env \<Rightarrow> global_flags \<Rightarrow> string \<Rightarrow> string \<Rightarrow> string \<Rightarrow> string \<Rightarrow> 'r \<Rightarrow> streams
   \<Rightarrow> verb_result \<times> string \<times> 'r" where
  "runMsg w env g text0 spec replyTo kh r st =
     (let text1 = (if replyTo \<noteq> [] then prependCid replyTo text0 else text0) in
      run_push w env g spec ChannelAgent
        (Inr [\<lparr>ci_kind = KindByte KindText, ci_name = [], ci_uti = [], ci_mime = [], ci_payload = text1\<rparr>]) kh r st)"

definition runPush ::
  "('k, 'c, 'r) send_world \<Rightarrow> resolve_env \<Rightarrow> global_flags \<Rightarrow> string \<Rightarrow> string \<Rightarrow> 'r \<Rightarrow> streams \<Rightarrow> verb_result \<times> string \<times> 'r" where
  "runPush w env g spec kh r st = run_push w env g spec ChannelClipboard readLocalClipboardItems kh r st"

definition runShot ::
  "('k, 'c, 'r) send_world \<Rightarrow> resolve_env \<Rightarrow> global_flags \<Rightarrow> string \<Rightarrow> bool \<Rightarrow> string \<Rightarrow> 'r \<Rightarrow> streams
   \<Rightarrow> verb_result \<times> string \<times> 'r" where
  "runShot w env g spec agent kh r st = run_push w env g spec (channelFor agent) captureScreenshotItems kh r st"

definition runSend ::
  "('k, 'c, 'r) send_world \<Rightarrow> resolve_env \<Rightarrow> global_flags \<Rightarrow> (string \<Rightarrow> string option) \<Rightarrow> string option \<Rightarrow> string \<Rightarrow> string \<Rightarrow> bool
   \<Rightarrow> string \<Rightarrow> 'r \<Rightarrow> streams \<Rightarrow> verb_result \<times> string \<times> 'r" where
  "runSend w env g readFile stdin file spec agent kh r st =
     (if file \<noteq> ''-'' \<and> \<not> rv_stat env file then ((Some (configError (''send: cannot read '' @ file)), st), kh, r)
      else run_push w env g spec (channelFor agent) (fileCB01Items readFile stdin file) kh r st)"

definition targetArg :: "string list \<Rightarrow> nat \<Rightarrow> string" where
  "targetArg args i = (if i < length args then args ! i else [])"

section \<open>What the other side makes of the items\<close>

text \<open>The save path reads the name, type and media type of an item only for files and images, and the
  channel only of the first item, to tell the agent channel from any other.\<close>

definition alike :: "ingest_item \<Rightarrow> ingest_item \<Rightarrow> bool" where
  "alike a b \<longleftrightarrow> it_kind a = it_kind b \<and> it_reader a = it_reader b
     \<and> (it_kind a \<noteq> KindText \<longrightarrow> it_name a = it_name b \<and> it_uti a = it_uti b)"

lemma kinds_differ: "KindImage \<noteq> KindText" "KindFile \<noteq> KindText"
  by (simp_all add: KindImage_def KindFile_def KindText_def)

lemma clip_loop_alike:
  "list_all2 alike its its' \<Longrightarrow> clip_loop ops m its tot saved s = clip_loop ops m its' tot saved s"
proof (induction its its' arbitrary: tot saved s rule: list_all2_induct)
  case (Cons a its b its')
  then show ?case
    using kinds_differ by (simp add: alike_def split: option.split sum.split)
qed simp

lemma agent_loop_alike:
  "list_all2 alike its its' \<Longrightarrow> agent_loop ops m sender its tot saved s = agent_loop ops m sender its' tot saved s"
proof (induction its its' arbitrary: tot saved s rule: list_all2_induct)
  case (Cons a its b its')
  then show ?case
    using kinds_differ by (simp add: alike_def split: option.split sum.split prod.split)
qed simp

lemma Ingest_alike:
  assumes "list_all2 alike its its'" "its \<noteq> [] \<Longrightarrow> it_channel (hd its) = ChannelAgent \<longleftrightarrow> it_channel (hd its') = ChannelAgent"
  shows "Ingest ops m its s = Ingest ops m its' s"
proof -
  have len: "length its = length its'" and "its = [] \<longleftrightarrow> its' = []" using assms(1) by (auto dest: list_all2_lengthD)
  then show ?thesis
    using assms(2)
    unfolding Ingest_def ingestClipboard_def ingestAgent_def ok_response_def senderOf_def
      clip_loop_alike[OF assms(1)] agent_loop_alike[OF assms(1)] len
    by simp
qed

text \<open>An item as the peer's parser takes it from the envelope.\<close>

definition received_item :: "string \<Rightarrow> cb01_item \<Rightarrow> ingest_item" where
  "received_item channel it =
     (let tx = KindString (ci_kind it) = KindText; keep = (\<lambda>v. if tx then [] else v) in
      \<lparr>it_kind = KindString (ci_kind it), it_name = keep (ci_name it), it_uti = keep (ci_uti it), it_mime = keep (ci_mime it),
       it_channel = channel, it_reader = Some \<lparr>src_data = ci_payload it, src_fails = False\<rparr>\<rparr>)"

lemma coerced_nilIfEmpty: "valid_utf8 v \<Longrightarrow> coerced (nilIfEmpty v) = v"
  by (simp add: coerced_def nilIfEmpty_def utf8_coerce_valid)

lemma meant_envelope_item: "utf8_item it \<Longrightarrow> meant_item ch (envelope_item it) = Some (received_item ch it)"
  by (simp add: meant_item_def envelope_item_def received_item_def utf8_item_def coerced_nilIfEmpty utf8_coerce_valid
      payload_of_def b64_stream_encode Let_def del: b64_encode.simps) (simp add: coerced_def utf8_coerce_valid valid_names)

lemma meant_envelope_items:
  "\<forall>it\<in>set its. utf8_item it \<Longrightarrow> meant_items ch (map envelope_item its) = Some (map (received_item ch) its)"
  by (induction its) (simp_all add: meant_envelope_item)

lemma sendable_envelope_item: "sendable (envelope_item it)"
  by (auto simp: envelope_item_def sendable_def Let_def simp del: b64_encode.simps)

lemma channel_of_byte: "ChannelString (ChannelByte channel) = ChannelAgent \<longleftrightarrow> channel = ChannelAgent"
  by (simp add: ChannelString_def ChannelByte_def cb01ChannelAgent_def cb01ChannelClipboard_def ChannelAgent_def ChannelClipboard_def)

lemma received_alike: "list_all2 alike (map (received_item ch) its) (map (ingest_item_of b) its)"
  by (induction its) (simp_all add: alike_def received_item_def ingest_item_of_def Let_def)

definition wire_channel :: "string \<Rightarrow> string option" where
  "wire_channel channel = (if channel = ChannelAgent then Some ChannelAgent else None)"

lemma ChannelAgent_not_Nil: "[] \<noteq> ChannelAgent"
  by (simp add: ChannelAgent_def)

lemma Ingest_received:
  "Ingest ops m (map (received_item (coerced (wire_channel channel))) its) s =
     Ingest ops m (map (ingest_item_of (ChannelByte channel)) its) s"
proof (rule Ingest_alike[OF received_alike])
  have "coerced (wire_channel channel) = ChannelAgent \<longleftrightarrow> channel = ChannelAgent"
    using valid_names(4)
    by (cases "channel = ChannelAgent") (simp_all add: coerced_def wire_channel_def utf8_coerce_valid ChannelAgent_not_Nil)
  then show "it_channel (hd (map (received_item (coerced (wire_channel channel))) its)) = ChannelAgent \<longleftrightarrow>
      it_channel (hd (map (ingest_item_of (ChannelByte channel)) its)) = ChannelAgent"
    if "map (received_item (coerced (wire_channel channel))) its \<noteq> []"
    using that channel_of_byte[of channel] by (cases its) (simp_all add: received_item_def ingest_item_of_def Let_def)
qed

lemma buildEnvelope_ok:
  "items \<noteq> [] \<Longrightarrow> buildEnvelope hostname channel items =
     Inr \<lparr>env_version = 1, env_sender = senderHostname hostname, env_items = map envelope_item items,
          env_channel = wire_channel channel\<rparr>"
  by (simp add: buildEnvelope_def wire_channel_def Let_def)

lemma decode_sent:
  assumes "scratch_ok senv" "scratch_fresh senv sc" "items \<noteq> []" "\<forall>it\<in>set items. utf8_item it"
    "buildEnvelope hostname channel items = Inr en"
  shows "\<exists>sc'. sc_files sc' = sc_files sc \<and> decodeAndIngest ops m e senv (MarshalEnvelope en) (s, sc) =
    map_option (\<lambda>(r, s'). (map_sum FromIngest id r, s', sc')) (Ingest ops m (map (ingest_item_of (ChannelByte channel)) items) s)"
proof -
  have en: "en = \<lparr>env_version = 1, env_sender = senderHostname hostname, env_items = map envelope_item items, env_channel = wire_channel channel\<rparr>"
    using assms(3,5) buildEnvelope_ok by simp
  have "\<forall>it\<in>set (env_items en). sendable it" by (simp add: en sendable_envelope_item)
  from decode_marshal[OF assms(1,2) this, where t = "[]" and ops = ops and maxBytes = m and s = s and e = e]
  show ?thesis
    using meant_envelope_items[OF assms(4)] assms(3) Ingest_received[of ops m channel items s] by (simp add: en)
qed

section \<open>A push and its peer\<close>

text \<open>
  A peer over SSH whose shell reads the command as the two words of an absolute or bare binary and
  \<open>ingest\<close>, and runs the model of \<open>clipbeam ingest\<close> on the input; anything else is an unknown command.
\<close>

definition exec_ok :: "string \<Rightarrow> exec_world" where
  "exec_ok out0 = \<lparr>ew_pipe = None, ew_start = None, ew_write = None, ew_close = None, ew_wait = None, ew_stdout = out0, ew_stderr = []\<rparr>"

definition exec_failed :: "string \<Rightarrow> exec_world" where
  "exec_failed msg = (exec_ok [])\<lparr>ew_wait := Some msg\<rparr>"

definition ingest_remote ::
  "'r receive_store \<Rightarrow> int \<Rightarrow> nat \<Rightarrow> (nat \<Rightarrow> temp_fault) \<Rightarrow> 'c \<Rightarrow> string \<Rightarrow> string \<Rightarrow> 'r \<Rightarrow> exec_world \<times> 'r" where
  "ingest_remote ops cfg alloc_max faults c cmd stdin r =
     (case sh_words cmd of
        Some [W b, W v] \<Rightarrow>
          if v = ''ingest'' then
            (case runIngest ops cfg alloc_max faults stdin r of
               None \<Rightarrow> (exec_failed ''killed'', r)
             | Some (Inl cd, r') \<Rightarrow> (exec_failed (''exit status '' @ decimal (nat cd)), r')
             | Some (Inr out0, r') \<Rightarrow> (exec_ok out0, r'))
          else (exec_failed ''unknown command'', r)
      | _ \<Rightarrow> (exec_failed ''unknown command'', r))"

text \<open>A peer over the tailnet: the clip route of a daemon, on the request the client makes.\<close>

definition clip_request :: "string \<Rightarrow> string \<Rightarrow> string \<Rightarrow> request" where
  "clip_request src_addr token body =
     \<lparr>rq_method = ''POST'', rq_remote = src_addr, rq_header = (\<lambda>k. if k = tokenHeader then [token] else []),
      rq_query = (\<lambda>_. []), rq_length = int (length body), rq_body = (body, CleanEOF)\<rparr>"

definition clip_peer ::
  "'s receive_store \<Rightarrow> scratch_env \<Rightarrow> (clip_failure \<Rightarrow> string) \<Rightarrow> server_options \<Rightarrow> string
   \<Rightarrow> string \<Rightarrow> string \<Rightarrow> string \<Rightarrow> string \<Rightarrow> 's route_state \<Rightarrow> (string, int) result \<times> 's route_state" where
  "clip_peer ops senv err_text opts src_addr url token sender body st =
     (case handleClip ops senv err_text opts (clip_request src_addr token body) st of
        None \<Rightarrow> (Inl ''timeout'', st)
      | Some (resp, st') \<Rightarrow> (Inr (int (rp_status resp)), st'))"

lemma session_Run_worlds:
  "session_Run (exec_ok out0) = (out0, [], None)"
  "session_Run (exec_failed msg) = ([], [], Some (''clipbeam: remote command failed: '' @ msg))"
  by (simp_all add: session_Run_def exec_ok_def exec_failed_def writeAndClose_def Let_def)

text \<open>C7. A push over SSH saves exactly what \<open>Ingest\<close> saves: once dialed, the frame the client writes and the
  command it sends make the remote \<open>clipbeam ingest\<close> call \<open>Ingest\<close> on the items as given, and the push
  returns the number of items with the saved paths the remote printed, or exit 9 when \<open>Ingest\<close> fails. The
  binary's recorded path may hold any characters.\<close>

theorem push_over_ssh:
  assumes "items \<noteq> []" "\<forall>it\<in>set items. item_ok it" "\<And>i. faults i = TempOk" "length items \<le> alloc_max" "length items < 2 ^ 63"
    and "rt_transport rt \<noteq> ''tailscale''" "sw_client w = Inr env"
    and "client_Dial env (sw_session w) (rt_target rt) None kh = (Inr c, cached, kh')"
    and "sw_remote w = ingest_remote ops cfg alloc_max faults"
    and "Ingest ops (maxBytesOf cfg) (map (ingest_item_of (ChannelByte channel)) items) r = Some (res, r')"
  shows "\<exists>p. pushCB01 w rt channel items kh r = (p, kh', r') \<and>
    (case res of
       Inr resp \<Rightarrow> p = Inr \<lparr>so_sentItems = length items, so_remotePath = write_paths 0 (resp_saved resp)\<rparr>
     | Inl e \<Rightarrow> (\<exists>x. p = Inl x \<and> ce_code x = Some ExitRemoteIO))"
proof -
  obtain frame where f: "EncodeCB01 (ChannelByte channel) items = Inr frame"
    "runIngest ops cfg alloc_max faults frame r =
       map_option (\<lambda>(r, s'). (map_sum ingestErrToCoded (\<lambda>resp. write_paths 0 (resp_saved resp)) r, s'))
         (Ingest ops (maxBytesOf cfg) (map (ingest_item_of (ChannelByte channel)) items) r)"
    using runIngest_frame[of items faults alloc_max "ChannelByte channel" ops cfg r] assms(1-5) by auto
  have "sh_words (remoteIngestCommand (rt_remoteBinPath rt)) =
      Some [W (if rt_remoteBinPath rt = [] then ''clipbeam'' else rt_remoteBinPath rt), W ''ingest'']"
    by (rule remoteIngest_words)
  then show ?thesis
    using assms(6-10) f
    by (cases res) (simp_all add: pushCB01_def encodeFrame_def ingest_remote_def session_Run_worlds codedf_def)
qed

text \<open>C8. A push over the tailnet saves exactly what \<open>Ingest\<close> saves too: a peer whose gate lets the sender in
  with the shared token, whose slot is free and whose cap is the sender's answers the envelope the sender
  builds by \<open>Ingest\<close> of the same items; the push returns the number of items, or the exit code of the
  peer's status. The scratch files are gone and the slot is free again.\<close>

theorem push_over_tailnet:
  assumes "items \<noteq> []" "\<forall>it\<in>set items. utf8_item it" "scratch_ok senv" "scratch_fresh senv sc"
    and "sw_token w = Inr (so_token opts)" "sw_post w = clip_peer ops senv err_text opts src_addr"
    and "so_listen opts = ListenTailscale" "Classify (RemoteEndpoint src_addr) (so_peerHost opts) = Peer"
    and "maxBytesOf (sw_maxBytes w) = srv_maxBytes opts"
    and "\<not> fst (decodedSumExceeds items (srv_maxBytes opts))"
    and "buildEnvelope (sw_hostname w) channel items = Inr en"
    and "int (length (MarshalEnvelope en)) \<le> HardCeiling (srv_maxBytes opts)"
    and "Ingest ops (srv_maxBytes opts) (map (ingest_item_of (ChannelByte channel)) items) s = Some (res, s')"
  shows "\<exists>p sc'. pushTailscale w rt channel items (s, sc, False) = (p, s', sc', False) \<and> sc_files sc' = sc_files sc \<and>
    (case res of
       Inr resp \<Rightarrow> p = Inr \<lparr>so_sentItems = length items, so_remotePath = []\<rparr>
     | Inl e \<Rightarrow> (\<exists>x. p = Inl x \<and> ce_code x = Some (httpStatusToExit (int (clip_status (FromIngest e))))))"
proof -
  let ?body = "MarshalEnvelope en" and ?m = "srv_maxBytes opts"
  let ?r = "clip_request src_addr (so_token opts) ?body"
  have gate: "clipGate opts ?r = (0, [])"
    using assms(7,8) by (simp add: clipGate_class token_verdict_def remoteHost_def clip_request_def headerPtr_def)
  obtain sc' where sc': "sc_files sc' = sc_files sc" and d: "decodeAndIngest ops ?m CleanEOF senv ?body (s, sc) =
      Some (map_sum FromIngest id res, s', sc')"
    using decode_sent[OF assms(3,4,1,2,11), where ops = ops and m = ?m and e = CleanEOF and s = s] assms(13) by auto
  have h: "handleClip ops senv err_text opts ?r (s, sc, False) =
      Some (case map_sum FromIngest id res of Inl x \<Rightarrow> writeClipError err_text x | Inr resp \<Rightarrow> writeJSON 200 (marshal_response resp),
        s', sc', False)"
    using gate assms(12) d
    by (simp add: handleClip_def clip_request_def tryAcquire_def release_def max_bytes_reader_def Let_def)
  have e: "rp_status (writeClipError err_text x) = clip_status x" for x
    by (rule writeClipError_status)
  show ?thesis
  proof (cases res)
    case (Inl x)
    have "clip_status (FromIngest x) \<noteq> 200" by (cases x) (simp_all add: clip_status_def)
    then show ?thesis
      using Inl assms(5,6,9,10,11) h sc' by (simp add: pushTailscale_def clip_peer_def e codedf_def)
  next
    case (Inr resp)
    then show ?thesis
      using assms(5,6,9,10,11) h sc' by (simp add: pushTailscale_def clip_peer_def writeJSON_def)
  qed
qed

section \<open>The size of the body\<close>

lemma ascii_escape_length: "length (ascii_escape c) \<le> 6"
  by (auto simp: ascii_escape_def hex4_def Let_def)

lemma rune_escape_length: "s \<noteq> [] \<Longrightarrow> length (fst (rune_escape s)) \<le> 6 * min (snd (rune_escape s)) (length s)"
  using ascii_escape_length[of "hd s"] decode_rune_size[of s]
  by (auto simp: rune_escape_def Let_def min_def split: prod.splits)

lemma marshal_string_length: "length (marshal_string s) \<le> 6 * length s"
proof (induction s rule: marshal_string.induct)
  case (1 s)
  show ?case
  proof (cases "s = []")
    case False
    have "length (marshal_string s) = length (fst (rune_escape s)) + length (marshal_string (drop (snd (rune_escape s)) s))"
      using False by (subst marshal_string.simps) simp
    then show ?thesis
      using 1[OF False] rune_escape_length[OF False] by (simp add: min_def split: if_splits)
  qed (simp add: marshal_string.simps)
qed

lemma marshal_string_plain:
  "\<forall>c\<in>set s. code c < 128 \<and> ascii_escape c = [c] \<Longrightarrow> marshal_string s = s"
proof (induction s)
  case (Cons c s)
  then show ?case
    by (subst marshal_string.simps) (simp add: rune_escape_def decode_rune_ascii)
qed (simp add: marshal_string.simps)

lemma jstr_length: "length (jstr v) \<le> 6 * length v + 2"
  using marshal_string_length[of v] by (simp add: jstr_def)

lemma jstr_b64: "length (jstr (b64_encode d)) = length (b64_encode d) + 2"
proof -
  have a: "list_all (\<lambda>c. code c < 128 \<and> ascii_escape c = [c]) (pad_char # b64_alphabet)" by code_simp
  have "\<forall>c\<in>set (b64_encode d). code c < 128 \<and> ascii_escape c = [c]"
  proof
    fix c assume "c \<in> set (b64_encode d)"
    then have "c \<in> set (pad_char # b64_alphabet)" using b64_encode_chars[of c d] by auto
    with a show "code c < 128 \<and> ascii_escape c = [c]" unfolding list_all_iff by blast
  qed
  then show ?thesis by (simp add: jstr_def marshal_string_plain)
qed

lemma jopt_length: "length (jopt key v) \<le> (case v of None \<Rightarrow> 0 | Some x \<Rightarrow> length key + 4 + length (jstr x))"
  by (cases v) (simp_all add: jopt_def jmember_def)

lemma jopt_nil_length: "length (jopt key (nilIfEmpty v)) \<le> length key + 6 + 6 * length v"
  using jstr_length[of v] by (simp add: nilIfEmpty_def jopt_def jmember_def)

definition item_names :: "cb01_item \<Rightarrow> nat" where
  "item_names it = length (ci_name it) + length (ci_uti it) + length (ci_mime it)"

lemma KindString_length: "length (KindString k) \<le> 5"
  by (simp add: KindString_def KindFile_def KindText_def KindImage_def)

lemma marshal_item_length:
  assumes "KindString (ci_kind it) \<noteq> KindText"
  shows "length (marshal_item (envelope_item it)) < 100 + 6 * item_names it + length (b64_encode (ci_payload it))"
proof -
  have "length (jstr (KindString (ci_kind it))) \<le> 32"
    using jstr_length[of "KindString (ci_kind it)"] KindString_length[of "ci_kind it"] by linarith
  then show ?thesis
    using assms jopt_nil_length[of "''name''" "ci_name it"] jopt_nil_length[of "''uti''" "ci_uti it"]
      jopt_nil_length[of "''mime''" "ci_mime it"] jstr_b64[of "ci_payload it"]
    by (simp add: marshal_item_def envelope_item_def item_names_def jmember_def jopt_def[of _ None] jopt_def[of _ "Some _"] Let_def)
qed

lemma join_with_length: "length (join_with b ws) \<le> sum_list (map (Suc \<circ> length) ws)"
  by (induction b ws rule: join_with.induct) auto

lemma items_length:
  "\<forall>it\<in>set items. KindString (ci_kind it) \<noteq> KindText \<Longrightarrow>
     sum_list (map (Suc \<circ> length) (map marshal_item (map envelope_item items)))
       \<le> sum_list (map (\<lambda>it. 100 + 6 * item_names it) items) + sum_list (map (length \<circ> b64_encode \<circ> ci_payload) items)"
proof (induction items)
  case (Cons it its)
  then show ?case using marshal_item_length[of it] by simp
qed simp

lemma marshal_envelope_length:
  assumes "env_version en = 1" "env_channel en = wire_channel ch"
  shows "length (MarshalEnvelope en) \<le> 100 + 6 * length (env_sender en) + sum_list (map (Suc \<circ> length) (map marshal_item (env_items en)))"
proof -
  have "length (jopt ''channel'' (env_channel en)) \<le> 44"
    using jstr_length[of ChannelAgent] assms(2) by (simp add: wire_channel_def jopt_def jmember_def ChannelAgent_def)
  moreover have "length (marshal_int 1) = 1" by (simp add: marshal_int_def decimal.simps)
  ultimately show ?thesis
    using jstr_length[of "env_sender en"] join_with_length[of "CHR '',''" "map marshal_item (env_items en)"] assms(1)
    by (simp add: MarshalEnvelope_def jmember_def del: map_map)
qed

lemma decodedSum: "decodedSumExceeds items m = (int (sum_list (map (length \<circ> ci_payload) items)) > m, int (sum_list (map (length \<circ> ci_payload) items)))"
proof -
  have "foldl (\<lambda>n it. n + int (length (ci_payload it))) a items = a + int (sum_list (map (length \<circ> ci_payload) items))" for a
    by (induction items arbitrary: a) simp_all
  then show ?thesis by (simp add: decodedSumExceeds_def Let_def)
qed

lemma marshal_string_ctrl: "length (marshal_string (replicate n (CHR 0x01))) = 6 * n"
proof (induction n)
  case (Suc n)
  have "length (ascii_escape (CHR 0x01)) = 6" by code_simp
  then show ?case
    using Suc by (subst marshal_string.simps) (simp add: rune_escape_def decode_rune_ascii)
qed (simp add: marshal_string.simps)

lemma ceiling_value: "0 \<le> m \<Longrightarrow> m < 2 ^ 61 \<Longrightarrow> HardCeiling m = m * 4 div 3 + 65536"
  by (rule HardCeiling_exact)

text \<open>C32. The sender's pre-flight and the receiver's ceiling. For files and images with names of moderate size,
  whatever passes the pre-flight fits the ceiling of a peer with the same cap, base64 and JSON included. For
  text it does not: a message of control bytes of exactly the cap (20000 bytes or more) passes the pre-flight,
  but its escapes make the body larger than the ceiling.\<close>

theorem preflight_and_ceiling:
  assumes "0 \<le> m" "m < 2 ^ 61" "items \<noteq> []" "\<forall>it\<in>set items. KindString (ci_kind it) \<noteq> KindText"
    and "buildEnvelope hostname channel items = Inr en" "\<not> fst (decodedSumExceeds items m)"
    and "100 + 6 * length (senderHostname hostname) + sum_list (map (\<lambda>it. 103 + 6 * item_names it) items) \<le> 65536"
  shows "int (length (MarshalEnvelope en)) \<le> HardCeiling m \<and>
    (\<forall>n h en' tx. tx = \<lparr>ci_kind = KindByte KindText, ci_name = [], ci_uti = [], ci_mime = [], ci_payload = replicate n (CHR 0x01)\<rparr> \<longrightarrow>
       m = int n \<longrightarrow> 20000 \<le> n \<longrightarrow> buildEnvelope h channel [tx] = Inr en' \<longrightarrow>
       \<not> fst (decodedSumExceeds [tx] m) \<and> HardCeiling m < int (length (MarshalEnvelope en')))"
proof (intro conjI allI impI)
  let ?ps = "map ci_payload items"
  have en: "env_version en = 1" "env_channel en = wire_channel channel" "env_sender en = senderHostname hostname"
    "env_items en = map envelope_item items"
    using assms(3,5) by (auto simp: buildEnvelope_ok)
  have len: "length (MarshalEnvelope en) \<le> 100 + 6 * length (senderHostname hostname)
      + (sum_list (map (\<lambda>it. 100 + 6 * item_names it) items) + sum_list (map (length \<circ> b64_encode) ?ps))"
    using marshal_envelope_length[OF en(1,2)] items_length[OF assms(4)] unfolding en(3,4)
    by (simp add: comp_assoc del: map_map flip: map_map[of "length \<circ> b64_encode"]) (simp add: comp_def)
  have "sum_list (map (\<lambda>it. 103 + 6 * item_names it) items) = sum_list (map (\<lambda>it. 100 + 6 * item_names it) items) + 3 * length items"
    by (induction items) simp_all
  moreover have "int (sum_list (map (length \<circ> b64_encode) ?ps)) \<le> int (sum_list (map length ?ps)) * 4 div 3 + 3 * int (length ?ps)"
    by (rule b64_fits_all)
  moreover have "int (sum_list (map length ?ps)) * 4 div 3 \<le> m * 4 div 3"
    using assms(6) by (intro zdiv_mono1) (simp_all add: decodedSum)
  ultimately show "int (length (MarshalEnvelope en)) \<le> HardCeiling m"
    using len assms(7) ceiling_value[OF assms(1,2)] by simp
next
  fix n h en' tx
  assume tx: "tx = \<lparr>ci_kind = KindByte KindText, ci_name = [], ci_uti = [], ci_mime = [], ci_payload = replicate n (CHR 0x01)\<rparr>"
    and n: "m = int n" "20000 \<le> n" and e: "buildEnvelope h channel [tx] = Inr en'"
  show "\<not> fst (decodedSumExceeds [tx] m)" by (simp add: decodedSum tx n)
  have k: "KindString (KindByte KindText) = KindText" by code_simp
  have "6 * n \<le> length (jstr (replicate n (CHR 0x01)))" by (simp add: jstr_def marshal_string_ctrl)
  then have "6 * n \<le> length (marshal_item (envelope_item tx))"
    by (simp add: marshal_item_def envelope_item_def tx k jopt_def jmember_def Let_def)
  moreover have "length (marshal_item (envelope_item tx)) \<le> length (MarshalEnvelope en')"
    using e by (auto simp: buildEnvelope_ok MarshalEnvelope_def jmember_def)
  ultimately have "6 * n \<le> length (MarshalEnvelope en')" by (rule order_trans)
  moreover have "m * 4 div 3 + 65536 < 6 * int n" using n by presburger
  ultimately show "HardCeiling m < int (length (MarshalEnvelope en'))"
    using ceiling_value[OF assms(1,2)] by simp
qed

section \<open>Witnesses\<close>

definition witness_known :: "(string, nat) client_env" where
  "witness_known = (witness_client False)\<lparr>ev_policy := (ev_policy (witness_client False))\<lparr>hp_verify := Some (\<lambda>_ _ _. None)\<rparr>\<rparr>"

definition witness_target :: resolved_target where
  "witness_target = \<lparr>rt_target = no_target\<lparr>tg_host := ''h''\<rparr>, rt_remoteBinPath = ''/opt/my tools/clipbeam'', rt_transport = ''ssh'',
     rt_peerIP = [], rt_peerPort = 0\<rparr>"

definition witness_ssh_world :: "(string, nat, unit) send_world" where
  "witness_ssh_world = \<lparr>sw_client = Inr witness_known, sw_session = (\<lambda>_. None),
     sw_remote = ingest_remote witness_store_ops 0 9 (\<lambda>_. TempOk), sw_token = Inr ''T'', sw_hostname = [], sw_maxBytes = 0,
     sw_post = (\<lambda>_ _ _ _ r. (Inl [], r))\<rparr>"

lemma witness_items_ok: "\<forall>it\<in>set witness_items. item_ok it" "\<forall>it\<in>set witness_items. utf8_item it" "witness_items \<noteq> []"
  "length witness_items = 2"
  by (simp_all add: witness_items_def item_ok_def cb01MaxStringLen_def utf8_item_def valid_utf8_ascii KindString_def
      cb01KindImage_def cb01KindText_def cb01KindFile_def KindImage_def KindText_def)

lemma witness_ingest:
  "Ingest witness_store_ops DefaultMaxBytes (map (ingest_item_of (ChannelByte ChannelClipboard)) witness_items) () =
     Some (Inr (ok_response [''/d/f''] (map (ingest_item_of (ChannelByte ChannelClipboard)) witness_items)), ())"
  by (simp add: Ingest_def ingestClipboard_def witness_items_def ingest_item_of_def witness_store_ops_def readText_def
      ChannelString_def ChannelByte_def KindString_def cb01KindImage_def cb01KindText_def cb01KindFile_def KindImage_def KindText_def
      KindFile_def cb01ChannelAgent_def cb01ChannelClipboard_def ChannelAgent_def ChannelClipboard_def DefaultMaxBytes_def)

theorem push_over_ssh_witness:
  "\<exists>p. pushCB01 witness_ssh_world witness_target ChannelClipboard witness_items [] () = (p, [], ())
    \<and> p = Inr \<lparr>so_sentItems = 2, so_remotePath = ''/d/f''\<rparr>"
proof -
  have a: "target_addr (rt_target witness_target) = ''h:22''" by code_simp
  have d: "client_Dial witness_known (sw_session witness_ssh_world) (rt_target witness_target) None [] = (Inr 7, Some 7, [])"
    unfolding client_Dial_def client_ssh_def a
    by (simp add: witness_known_def witness_client_def auth_methods_def merged_callback_def witness_dialer_def
        hostkey_callback_def witness_ssh_world_def Let_def)
  have m: "maxBytesOf 0 = DefaultMaxBytes" by (simp add: maxBytesOf_def)
  have "Ingest witness_store_ops (maxBytesOf 0) (map (ingest_item_of (ChannelByte ChannelClipboard)) witness_items) () =
      Some (Inr (ok_response [''/d/f''] (map (ingest_item_of (ChannelByte ChannelClipboard)) witness_items)), ())"
    unfolding m by (rule witness_ingest)
  from push_over_ssh[OF witness_items_ok(3,1) _ _ _ _ _ d _ this, of "\<lambda>_. TempOk" 9]
  show ?thesis
    using witness_items_ok(4) by (simp add: witness_target_def witness_ssh_world_def ok_response_def)
qed

definition witness_tailnet_world :: "(string, nat, unit route_state) send_world" where
  "witness_tailnet_world = \<lparr>sw_client = Inl [], sw_session = (\<lambda>_. None), sw_remote = (\<lambda>_ _ _ r. (exec_ok [], r)),
     sw_token = Inr ''T'', sw_hostname = [], sw_maxBytes = 0,
     sw_post = clip_peer witness_store_ops witness_scratch (\<lambda>_. []) witness_options ''100.1.2.3:9''\<rparr>"

definition witness_file :: cb01_item where
  "witness_file = \<lparr>ci_kind = KindByte KindFile, ci_name = ''a.bin'', ci_uti = [], ci_mime = [], ci_payload = ''xy''\<rparr>"

lemma witness_file_ok: "KindString (ci_kind witness_file) = KindFile" "utf8_item witness_file"
  by (simp_all add: witness_file_def utf8_item_def valid_utf8_ascii KindString_def KindByte_def
      cb01KindImage_def cb01KindText_def cb01KindFile_def KindFile_def KindText_def)

lemma kind_file [simp]: "KindString (KindByte KindFile) = KindFile"
  by (simp add: KindString_def KindByte_def)

lemma witness_file_ingest:
  "Ingest witness_store_ops DefaultMaxBytes (map (ingest_item_of (ChannelByte ChannelClipboard)) [witness_file]) () =
     Some (Inr (ok_response [''/d/f''] (map (ingest_item_of (ChannelByte ChannelClipboard)) [witness_file])), ())"
  by (simp add: Ingest_def ingestClipboard_def ingest_item_of_def witness_file_ok witness_store_ops_def witness_file_def
      ChannelString_def ChannelByte_def cb01ChannelAgent_def cb01ChannelClipboard_def ChannelAgent_def ChannelClipboard_def
      DefaultMaxBytes_def)

lemma witness_file_fits:
  "buildEnvelope [] ChannelClipboard [witness_file] = Inr en \<Longrightarrow> length (MarshalEnvelope en) \<le> 1000"
proof -
  assume "buildEnvelope [] ChannelClipboard [witness_file] = Inr en"
  then have en: "env_version en = 1" "env_channel en = wire_channel ChannelClipboard" "env_sender en = ''clipbeam''"
    "env_items en = map envelope_item [witness_file]" by (auto simp: buildEnvelope_ok senderHostname_def)
  have "KindString (ci_kind witness_file) \<noteq> KindText" by (simp add: witness_file_ok kinds_differ)
  from marshal_item_length[OF this] marshal_envelope_length[OF en(1,2)] show ?thesis
    unfolding en(3,4) by (simp add: item_names_def witness_file_def length_b64_encode del: b64_encode.simps)
qed

theorem preflight_and_ceiling_witness:
  "\<exists>en. buildEnvelope [] ChannelClipboard [witness_file] = Inr en \<and> int (length (MarshalEnvelope en)) \<le> HardCeiling 2"
proof -
  obtain en where en: "buildEnvelope [] ChannelClipboard [witness_file] = Inr en" by (simp add: buildEnvelope_ok)
  have "\<forall>it\<in>set [witness_file]. KindString (ci_kind it) \<noteq> KindText" by (simp add: witness_file_ok kinds_differ)
  from preflight_and_ceiling[OF _ _ _ this en, of 2] show ?thesis
    using en by (simp add: decodedSum witness_file_def item_names_def senderHostname_def)
qed

theorem push_over_tailnet_witness:
  "\<exists>p sc'. pushTailscale witness_tailnet_world witness_target ChannelClipboard [witness_file] ((), \<lparr>sc_files = [], sc_next = 0\<rparr>, False)
     = (p, (), sc', False) \<and> sc_files sc' = [] \<and> p = Inr \<lparr>so_sentItems = 1, so_remotePath = []\<rparr>"
proof -
  obtain en where en: "buildEnvelope [] ChannelClipboard [witness_file] = Inr en" by (simp add: buildEnvelope_ok)
  have m: "srv_maxBytes witness_options = DefaultMaxBytes" by (simp add: srv_maxBytes_def witness_options_def)
  have c: "HardCeiling DefaultMaxBytes = 69970602" by code_simp
  have q: "quad_of [100, 1, 2, 3] = ''100.1.2.3''" "plain_remote (quad_of [100, 1, 2, 3]) 9 = ''100.1.2.3:9''" by code_simp+
  have o: "octets [100, 1, 2, 3]" "zone_ok []" by (simp_all add: octets_def zone_ok_def)
  have p: "Classify (RemoteEndpoint ''100.1.2.3:9'') (so_peerHost witness_options) = Peer"
    using Classify_remote[OF o(1,1,2,2), of "''100.1.2.3:9''" 9 "''100.1.2.3''"] q by (simp add: witness_options_def v4_class_def)
  note push = push_over_tailnet[where items = "[witness_file]" and w = witness_tailnet_world and opts = witness_options
      and senv = witness_scratch and sc = "\<lparr>sc_files = [], sc_next = 0\<rparr>" and ops = witness_store_ops
      and err_text = "\<lambda>_. []" and src_addr = "''100.1.2.3:9''" and channel = ChannelClipboard and en = en and s = "()",
      OF _ _ witness_scratch_ok witness_scratch_fresh]
  show ?thesis
    using push[of _ "()" witness_target] witness_file_ok witness_file_fits[OF en] en p c m witness_file_ingest
    by (force simp: witness_tailnet_world_def witness_options_def maxBytesOf_def decodedSum witness_file_def DefaultMaxBytes_def)
qed

end
