(* ===== verification/Release.thy ===== *)
theory Release
  imports Target Exit JsonStream
begin

text \<open>
  The pure parts of installing a remote binary: the choice of the route (\<open>verbs_setup_release.go\<close>) and the
  release archive (\<open>verbs_setup_tarball.go\<close>): its name, its download, its checksum and the binary in it. The
  answers of the download server, SHA-256, and the entries gzip and tar find in an archive are parameters.
\<close>

section \<open>Routes\<close>

record setup_options =
  so_serve :: string
  so_acceptNew :: bool
  so_force :: bool
  so_fromRelease :: bool

datatype installer = StreamInstaller | ReleaseInstaller string | TarballInstaller string

definition selectInstaller :: "setup_options \<Rightarrow> string \<Rightarrow> (cli_error, installer) result" where
  "selectInstaller opts version =
     (if so_fromRelease opts then
        (if version = ''dev'' then
           Inl (configError ''setup: --from-release needs a released version; this is a dev build (no matching release tag)'')
         else Inr (ReleaseInstaller version))
      else if version = ''dev'' then Inr StreamInstaller
      else Inr (TarballInstaller version))"

section \<open>Names\<close>

definition releaseBaseURL :: string where
  "releaseBaseURL = ''https://github.com/vybzai/clipbeam-cli/releases/download''"

definition releaseAssetName :: "string \<Rightarrow> string \<Rightarrow> string \<Rightarrow> string" where
  "releaseAssetName goos goarch version =
     (let ver = trim_prefix version ''v''; arch = (if goos = ''darwin'' then ''universal'' else goarch)
      in ''clipbeam_'' @ ver @ ''_'' @ goos @ ''_'' @ arch @ ''.tar.gz'')"

section \<open>Downloads\<close>

definition maxReleaseDownloadBytes :: nat where
  "maxReleaseDownloadBytes = 512 * 2 ^ 20"

text \<open>An answer is a status and the bytes of the body, after which reading may fail.\<close>

datatype http_get = GetFails string | GetAnswer nat string bool

text \<open>\<open>ReadAll\<close> of a reader limited to one byte over the cap: a failure after that byte is not seen.\<close>

definition read_limited :: "nat \<Rightarrow> string \<Rightarrow> bool \<Rightarrow> string option" where
  "read_limited cap body fails =
     (let limited = take (cap + 1) body in
      if fails \<and> length body < cap + 1 then None else Some limited)"

definition fetchBytes :: "(string \<Rightarrow> http_get) \<Rightarrow> string \<Rightarrow> (string, string) result" where
  "fetchBytes httpGet url =
     (case httpGet url of
        GetFails e \<Rightarrow> Inl e
      | GetAnswer status body0 fails \<Rightarrow>
          if status < 200 \<or> 300 \<le> status then Inl (''http '' @ decimal status @ '' for '' @ url)
          else (case read_limited maxReleaseDownloadBytes body0 fails of
             None \<Rightarrow> Inl ''read''
           | Some body \<Rightarrow>
               if length body > maxReleaseDownloadBytes
               then Inl (''release body for '' @ url @ '' exceeds '' @ decimal maxReleaseDownloadBytes @ '' bytes (capped)'')
               else Inr body))"

section \<open>Checksums\<close>

text \<open>\<open>strings.Fields\<close>: the maximal runs without white space.\<close>

function fields_loop :: "string \<Rightarrow> string \<Rightarrow> string list" where
  "fields_loop w s =
     (if s = [] then (if w = [] then [] else [w])
      else if is_space_rune (fst (decode_rune s)) then
        (if w = [] then fields_loop [] (drop (snd (decode_rune s)) s) else w # fields_loop [] (drop (snd (decode_rune s)) s))
      else fields_loop (w @ take (snd (decode_rune s)) s) (drop (snd (decode_rune s)) s))"
  by pat_completeness auto
termination
proof (relation "measure (length \<circ> snd)", goal_cases)
  case (2 w s)
  with decode_rune_size[of s] show ?case by simp
next
  case (3 w s)
  with decode_rune_size[of s] show ?case by simp
next
  case (4 w s)
  with decode_rune_size[of s] show ?case by simp
qed simp

declare fields_loop.simps [simp del]

definition fields :: "string \<Rightarrow> string list" where
  "fields s = fields_loop [] s"

text \<open>\<open>hex.EncodeToString\<close>.\<close>

definition hex_encode :: "string \<Rightarrow> string" where
  "hex_encode s = concat (map (\<lambda>c. [hex_char (code c div 16), hex_char (code c mod 16)]) s)"

fun checksum_loop :: "string \<Rightarrow> string \<Rightarrow> string list \<Rightarrow> string option" where
  "checksum_loop asset want [] = Some (''checksums.txt has no entry for '' @ asset)"
| "checksum_loop asset want (ln # rest) =
     (case fields ln of
        [digest, file_name] \<Rightarrow>
          if file_name = asset then
            (if \<not> equal_fold digest want
             then Some (''checksum mismatch for '' @ asset @ '' (got '' @ want @ '', want '' @ digest @ '')'')
             else None)
          else checksum_loop asset want rest
      | _ \<Rightarrow> checksum_loop asset want rest)"

definition verifyChecksum :: "(string \<Rightarrow> string) \<Rightarrow> string \<Rightarrow> string \<Rightarrow> string \<Rightarrow> string option" where
  "verifyChecksum sha256 asset archive checks =
     checksum_loop asset (hex_encode (sha256 archive)) (split_on newline checks)"

section \<open>The archive\<close>

text \<open>What \<open>Next\<close> finds: an entry with its name, whether it is a regular file, its bytes and whether reading
  them fails after those, or an error. The end of the list is the end of the archive.\<close>

datatype tar_step = TarEntry string bool string bool | TarError string

definition entry_leaf :: "string \<Rightarrow> string" where
  "entry_leaf name = (case last_index name slash of Some i \<Rightarrow> drop (Suc i) name | None \<Rightarrow> name)"

fun extract_loop :: "tar_step list \<Rightarrow> (string, string) result" where
  "extract_loop [] = Inl ''no clipbeam binary in archive''"
| "extract_loop (TarError e # rest) = Inl e"
| "extract_loop (TarEntry name regular body fails # rest) =
     (if entry_leaf name = ''clipbeam'' \<and> regular then
        (case read_limited maxReleaseDownloadBytes body fails of
           None \<Rightarrow> Inl ''read''
         | Some bin \<Rightarrow>
             if length bin > maxReleaseDownloadBytes
             then Inl (''clipbeam binary in archive exceeds '' @ decimal maxReleaseDownloadBytes @ '' bytes (capped)'')
             else Inr bin)
      else extract_loop rest)"

definition extractClipbeamBinary :: "(string \<Rightarrow> (string, tar_step list) result) \<Rightarrow> string \<Rightarrow> (string, string) result" where
  "extractClipbeamBinary untar archive = bind_result (untar archive) extract_loop"

section \<open>Lemmas\<close>

lemma read_limited_whole:
  "read_limited cap body fails = Some b \<Longrightarrow> length b \<le> cap \<Longrightarrow> b = body \<and> \<not> fails"
  by (auto simp: read_limited_def Let_def split: if_splits)

text \<open>A download that succeeds is the whole body of a success status, within the cap.\<close>

lemma fetchBytes_ok:
  "fetchBytes httpGet url = Inr body \<longleftrightarrow>
     (\<exists>status. httpGet url = GetAnswer status body False \<and> 200 \<le> status \<and> status < 300)
     \<and> length body \<le> maxReleaseDownloadBytes"
  by (auto simp: fetchBytes_def read_limited_def Let_def split: http_get.splits if_splits option.splits)

text \<open>The entry the extraction takes: the first regular one whose last element is \<open>clipbeam\<close>, when no error
  comes before it.\<close>

definition decisive :: "tar_step \<Rightarrow> bool" where
  "decisive st = (case st of TarEntry name regular _ _ \<Rightarrow> entry_leaf name = ''clipbeam'' \<and> regular | TarError _ \<Rightarrow> True)"

lemma extract_loop_ok:
  "extract_loop steps = Inr bin \<longleftrightarrow>
     (\<exists>name. find decisive steps = Some (TarEntry name True bin False)) \<and> length bin \<le> maxReleaseDownloadBytes"
  by (induction steps rule: extract_loop.induct)
    (auto simp: decisive_def read_limited_def Let_def split: if_splits)

text \<open>The line a checksum is taken from: the first with two fields of which the second is the asset.\<close>

definition asset_sums :: "string \<Rightarrow> string \<Rightarrow> string list" where
  "asset_sums asset checks =
     List.map_filter (\<lambda>ln. case fields ln of [digest, file_name] \<Rightarrow> if file_name = asset then Some digest else None | _ \<Rightarrow> None) (split_on newline checks)"

lemma checksum_loop_ok:
  "checksum_loop asset want lns = None \<longleftrightarrow>
     (case List.map_filter (\<lambda>ln. case fields ln of [digest, file_name] \<Rightarrow> if file_name = asset then Some digest else None | _ \<Rightarrow> None) lns of
        [] \<Rightarrow> False | digest # _ \<Rightarrow> equal_fold digest want)"
  by (induction lns) (auto split: list.split simp: map_filter_simps)

lemma verifyChecksum_ok:
  "verifyChecksum sha256 asset archive checks = None \<longleftrightarrow>
     (case asset_sums asset checks of [] \<Rightarrow> False | digest # _ \<Rightarrow> equal_fold digest (hex_encode (sha256 archive)))"
  by (simp add: verifyChecksum_def asset_sums_def checksum_loop_ok)

end
