(* ===== verification/Setup.thy ===== *)
theory Setup
  imports Send Release Auth
begin

text \<open>
  The bootstrap of a remote box: \<open>setup\<close> (\<open>verbs_setup.go\<close>, \<open>verbs_setup_run.go\<close>) with the three ways of
  installing the binary. One run is a chain of actions over a state that holds the cached SSH connection, the
  known-hosts file, the other side, the local files, the scratch files and the output streams. What the other
  side does with a command, the build, the downloads, randomness and the failures of system calls are
  parameters. Traces and the closing of sessions are left out.
\<close>

section \<open>Actions\<close>

type_synonym ('s, 'a) action = "'s \<Rightarrow> (cli_error, 'a) result \<times> 's"

definition and_then :: "('s, 'a) action \<Rightarrow> ('a \<Rightarrow> ('s, 'b) action) \<Rightarrow> ('s, 'b) action" where
  "and_then m f s = (case m s of (Inl e, s') \<Rightarrow> (Inl e, s') | (Inr a, s') \<Rightarrow> f a s')"

definition okay :: "'a \<Rightarrow> ('s, 'a) action" where
  "okay a s = (Inr a, s)"

text \<open>The state of a run; \<open>bo_log\<close> is its history of remote commands with their input.\<close>

record ('c, 'r) boot =
  bo_conn :: "'c option"
  bo_kh :: string
  bo_remote :: 'r
  bo_fs :: cfs
  bo_tmps :: "string \<Rightarrow> string option"
  bo_io :: streams
  bo_log :: "(string \<times> string) list"

text \<open>The local machine: its platform, environment, helper programs, randomness and failures.\<close>

record local_env =
  le_os :: goos
  le_getenv :: "string \<Rightarrow> string"
  le_home :: string
  le_secretTool :: "string option"
  le_loadRun :: exec_result
  le_statFails :: bool
  le_readFault :: read_outcome
  le_random :: "string option"
  le_saveRun :: exec_result
  le_tokenTmp :: string
  le_tokenFault :: cfg_fault
  le_aliasReadFails :: bool
  le_unmarshal :: "string \<Rightarrow> alias_store option"
  le_marshal :: "alias_store \<Rightarrow> string option"
  le_aliasTmp :: string
  le_aliasFault :: cfg_fault

record ('k, 'c, 'r) setup_world =
  su_flags :: global_flags
  su_version :: string
  su_quote :: "string \<Rightarrow> string"
  su_client :: "(string, ('k, 'c) client_env) result"
  su_session :: "'r \<Rightarrow> 'c \<Rightarrow> string option"
  su_remote :: "'c \<Rightarrow> string \<Rightarrow> string \<Rightarrow> 'r \<Rightarrow> exec_world \<times> 'r"
  su_versionField :: "string \<Rightarrow> string option"
  su_temp :: "string option"
  su_build :: "string \<Rightarrow> string \<Rightarrow> (string, string) result"
  su_tempWrite :: "nat option"
  su_tempCloseFails :: bool
  su_readFails :: bool
  su_get :: "string \<Rightarrow> http_get"
  su_sha256 :: "string \<Rightarrow> string"
  su_untar :: "string \<Rightarrow> (string, tar_step list) result"
  su_local :: local_env

definition says :: "('k, 'c, 'r) setup_world \<Rightarrow> string \<Rightarrow> (('c, 'r) boot, unit) action" where
  "says w msg s = (Inr (), s\<lparr>bo_io := diag (su_flags w) msg (bo_io s)\<rparr>)"

text \<open>A session of the one client of the run, which keeps its connection.\<close>

definition setup_dial ::
  "('k, 'c, 'r) setup_world \<Rightarrow> ('k, 'c) client_env \<Rightarrow> target \<Rightarrow> (('c, 'r) boot, 'c) action" where
  "setup_dial w env t s =
     (case client_Dial env (su_session w (bo_remote s)) t (bo_conn s) (bo_kh s) of
        (r, conn, kh) \<Rightarrow> (r, s\<lparr>bo_conn := conn, bo_kh := kh\<rparr>))"

definition dial_coded ::
  "('k, 'c, 'r) setup_world \<Rightarrow> ('k, 'c) client_env \<Rightarrow> target \<Rightarrow> (('c, 'r) boot, 'c) action" where
  "dial_coded w env t s =
     (case setup_dial w env t s of (Inl e, s') \<Rightarrow> (Inl (the (codedSSH (Some e))), s') | (Inr c, s') \<Rightarrow> (Inr c, s'))"

definition setup_run ::
  "('k, 'c, 'r) setup_world \<Rightarrow> 'c \<Rightarrow> string \<Rightarrow> string \<Rightarrow> ('c, 'r) boot \<Rightarrow> (string \<times> string \<times> string option) \<times> ('c, 'r) boot" where
  "setup_run w c cmd input s =
     (case su_remote w c cmd input (bo_remote s) of
        (ew, r) \<Rightarrow> (session_Run ew, s\<lparr>bo_remote := r, bo_log := bo_log s @ [(cmd, input)]\<rparr>))"

text \<open>A command that has to succeed, on a new session.\<close>

definition must_run ::
  "('k, 'c, 'r) setup_world \<Rightarrow> 'c \<Rightarrow> string \<Rightarrow> string \<Rightarrow> int \<Rightarrow> string \<Rightarrow> (('c, 'r) boot, string) action" where
  "must_run w c cmd input exit_code what s =
     (case setup_run w c cmd input s of
        ((stdout, stderr, Some e), s') \<Rightarrow> (Inl (codedf exit_code (what @ '': '' @ e @ '': '' @ trim_space stderr)), s')
      | ((stdout, stderr, None), s') \<Rightarrow> (Inr stdout, s'))"

section \<open>The remote platform\<close>

definition detectCommand :: string where
  "detectCommand = ''uname -s; uname -m; printf '' @ [squote] @ ''%s'' @ [bslash] @ ''n'' @ [squote] @ '' '' @
     [CHR 0x22] @ ''$HOME'' @ [CHR 0x22]"

text \<open>\<open>strings.ToLower\<close> for the comparison with an ASCII word: besides the ASCII letters, only U+0130 and
  U+212A have a lower case in ASCII.\<close>

fun lower_word :: "string \<Rightarrow> string" where
  "lower_word (a # b # c # s) =
     (if [a, b] = [CHR 0xC4, CHR 0xB0] then CHR ''i'' # lower_word (c # s)
      else if [a, b, c] = [CHR 0xE2, CHR 0x84, CHR 0xAA] then CHR ''k'' # lower_word s
      else lower_char a # lower_word (b # c # s))"
| "lower_word [a, b] = (if [a, b] = [CHR 0xC4, CHR 0xB0] then ''i'' else [lower_char a, lower_char b])"
| "lower_word s = map lower_char s"

definition unameToGOOS :: "string \<Rightarrow> string option" where
  "unameToGOOS s =
     (let l = lower_word (trim_space s) in
      if l = ''linux'' then Some ''linux'' else if l = ''darwin'' then Some ''darwin'' else None)"

definition unameToGOARCH :: "string \<Rightarrow> string option" where
  "unameToGOARCH s =
     (let l = lower_word (trim_space s) in
      if l = ''x86_64'' \<or> l = ''amd64'' then Some ''amd64''
      else if l = ''arm64'' \<or> l = ''aarch64'' then Some ''arm64'' else None)"

definition parsePlatform :: "(string \<Rightarrow> string) \<Rightarrow> string \<Rightarrow> string \<Rightarrow> (cli_error, string \<times> string \<times> string) result" where
  "parsePlatform qt user stdout =
     (let lns = split_on newline (trim_right_cutset stdout [newline]) in
      if length lns < 3 then Inl (configError (''setup: unexpected platform-detect output '' @ qt (trim_space stdout)))
      else case unameToGOOS (lns ! 0) of
        None \<Rightarrow> Inl (configError (''setup: unsupported remote OS '' @ qt (lns ! 0) @ '' (clipbeam v1 targets Linux and macOS)''))
      | Some goos \<Rightarrow>
          (case unameToGOARCH (lns ! 1) of
             None \<Rightarrow> Inl (configError (''setup: unsupported remote arch '' @ qt (lns ! 1)))
           | Some goarch \<Rightarrow>
               (let home = trim_space (lns ! 2);
                    home' = (if home = [] \<or> \<not> has_prefix home ''/'' then remoteHomeFor user else home)
                in Inr (goos, goarch, home'))))"

definition detectRemotePlatform ::
  "('k, 'c, 'r) setup_world \<Rightarrow> ('k, 'c) client_env \<Rightarrow> target \<Rightarrow> (('c, 'r) boot, string \<times> string \<times> string) action" where
  "detectRemotePlatform w env t =
     and_then (dial_coded w env t) (\<lambda>c.
     and_then (must_run w c detectCommand [] ExitUnreachable ''setup: detect remote platform'') (\<lambda>stdout s.
       (parsePlatform (su_quote w) (tg_user t) stdout, s)))"

text \<open>\<open>remoteVersion\<close>: every failure counts as not installed.\<close>

definition remoteVersion ::
  "('k, 'c, 'r) setup_world \<Rightarrow> ('k, 'c) client_env \<Rightarrow> target \<Rightarrow> string \<Rightarrow> ('c, 'r) boot \<Rightarrow> string option \<times> ('c, 'r) boot" where
  "remoteVersion w env t remoteBin s =
     (case setup_dial w env t s of
        (Inl e, s') \<Rightarrow> (None, s')
      | (Inr c, s') \<Rightarrow>
          (case setup_run w c (versionCommand remoteBin) [] s' of
             ((stdout, stderr, Some e), s'') \<Rightarrow> (None, s'')
           | ((stdout, stderr, None), s'') \<Rightarrow>
               (case su_versionField w (trim_space stdout) of
                  None \<Rightarrow> (None, s'')
                | Some v \<Rightarrow> (if v = [] then None else Some v, s''))))"

section \<open>Installing\<close>

definition set_temp :: "string \<Rightarrow> string option \<Rightarrow> ('c, 'r) boot \<Rightarrow> ('c, 'r) boot" where
  "set_temp tmp v s = s\<lparr>bo_tmps := (bo_tmps s)(tmp := v)\<rparr>"

text \<open>The deferred removal of a scratch file.\<close>

definition removing :: "string \<Rightarrow> (('c, 'r) boot, 'a) action \<Rightarrow> (('c, 'r) boot, 'a) action" where
  "removing tmp m s = (case m s of (r, s') \<Rightarrow> (r, set_temp tmp None s'))"

definition buildCrossBinary :: "('k, 'c, 'r) setup_world \<Rightarrow> string \<Rightarrow> string \<Rightarrow> (('c, 'r) boot, string) action" where
  "buildCrossBinary w goos goarch s =
     (case su_temp w of
        None \<Rightarrow> (Inl (codedf ExitGeneric ''setup: temp file''), s)
      | Some tmp \<Rightarrow>
          and_then (says w (''setup: building static '' @ goos @ ''/'' @ goarch @ '' binary (CGO_ENABLED=0) ...'')) (\<lambda>_ s1.
            case su_build w goos goarch of
              Inl e \<Rightarrow> (Inl (codedf ExitGeneric (''setup: cross-build failed: '' @ e)), set_temp tmp None s1)
            | Inr bin \<Rightarrow> (Inr tmp, set_temp tmp (Some bin) s1))
          (set_temp tmp (Some []) s))"

definition streamBinary ::
  "('k, 'c, 'r) setup_world \<Rightarrow> ('k, 'c) client_env \<Rightarrow> target \<Rightarrow> string \<Rightarrow> string \<Rightarrow> (('c, 'r) boot, unit) action" where
  "streamBinary w env t localPath remoteBin s =
     (case (if su_readFails w then None else bo_tmps s localPath) of
        None \<Rightarrow> (Inl (codedf ExitGeneric ''setup: read built binary''), s)
      | Some payload \<Rightarrow>
          and_then (dial_coded w env t) (\<lambda>c.
          and_then (must_run w c (placeCommand remoteBin) payload ExitRemoteIO ''setup: place remote binary'') (\<lambda>_. okay ())) s)"

definition stream_install ::
  "('k, 'c, 'r) setup_world \<Rightarrow> ('k, 'c) client_env \<Rightarrow> target \<Rightarrow> string \<Rightarrow> string \<Rightarrow> string \<Rightarrow> (('c, 'r) boot, unit) action" where
  "stream_install w env t goos goarch remoteBin =
     and_then (buildCrossBinary w goos goarch) (\<lambda>bin. removing bin (streamBinary w env t bin remoteBin))"

definition release_install ::
  "('k, 'c, 'r) setup_world \<Rightarrow> ('k, 'c) client_env \<Rightarrow> target \<Rightarrow> string \<Rightarrow> (('c, 'r) boot, unit) action" where
  "release_install w env t version =
     and_then (dial_coded w env t) (\<lambda>c.
     and_then (says w (''setup: --from-release: remote box fetching '' @ rawInstallURL @ '' (CLIPBEAM_VERSION='' @ version @ '')'')) (\<lambda>_.
     and_then (must_run w c (releaseInstallCommand version) [] ExitRemoteIO ''setup: --from-release remote install failed'') (\<lambda>_.
       okay ())))"

definition release_url :: "string \<Rightarrow> string \<Rightarrow> string" where
  "release_url version leaf = releaseBaseURL @ ''/'' @ version @ ''/'' @ leaf"

text \<open>Downloading, verifying and unpacking.\<close>

definition release_binary :: "('k, 'c, 'r) setup_world \<Rightarrow> string \<Rightarrow> string \<Rightarrow> (cli_error, string) result" where
  "release_binary w version asset =
     (case fetchBytes (su_get w) (release_url version asset) of
        Inl e \<Rightarrow> Inl (codedf ExitUnreachable (''setup: download release asset '' @ asset @ '': '' @ e))
      | Inr archive \<Rightarrow>
          (case fetchBytes (su_get w) (release_url version ''checksums.txt'') of
             Inl e \<Rightarrow> Inl (codedf ExitUnreachable (''setup: download checksums.txt: '' @ e))
           | Inr checks \<Rightarrow>
               (case verifyChecksum (su_sha256 w) asset archive checks of
                  Some e \<Rightarrow> Inl (codedf ExitGeneric (''setup: '' @ e))
                | None \<Rightarrow>
                    (case extractClipbeamBinary (su_untar w) archive of
                       Inl e \<Rightarrow> Inl (codedf ExitGeneric (''setup: extract clipbeam from '' @ asset @ '': '' @ e))
                     | Inr bin \<Rightarrow> Inr bin))))"

text \<open>Writing the binary to a scratch file and streaming it.\<close>

definition stream_temp ::
  "('k, 'c, 'r) setup_world \<Rightarrow> ('k, 'c) client_env \<Rightarrow> target \<Rightarrow> string \<Rightarrow> string \<Rightarrow> (('c, 'r) boot, unit) action" where
  "stream_temp w env t bin remoteBin s =
     (case su_temp w of
        None \<Rightarrow> (Inl (codedf ExitGeneric ''setup: temp file''), s)
      | Some tmp \<Rightarrow>
          removing tmp (\<lambda>s1.
            case su_tempWrite w of
              Some n \<Rightarrow> (Inl (codedf ExitGeneric ''setup: write temp binary''), set_temp tmp (Some (take n bin)) s1)
            | None \<Rightarrow>
                if su_tempCloseFails w then (Inl (codedf ExitGeneric ''setup: close temp binary''), set_temp tmp (Some bin) s1)
                else streamBinary w env t tmp remoteBin (set_temp tmp (Some bin) s1))
          (set_temp tmp (Some []) s))"

definition tarball_install ::
  "('k, 'c, 'r) setup_world \<Rightarrow> ('k, 'c) client_env \<Rightarrow> target \<Rightarrow> string \<Rightarrow> string \<Rightarrow> string \<Rightarrow> string \<Rightarrow> (('c, 'r) boot, unit) action" where
  "tarball_install w env t version goos goarch remoteBin =
     (let asset = releaseAssetName goos goarch version in
      and_then (says w (''setup: downloading release asset '' @ asset @ '' ...'')) (\<lambda>_.
      and_then (\<lambda>s. (release_binary w version asset, s)) (\<lambda>bin.
        stream_temp w env t bin remoteBin)))"

definition install ::
  "('k, 'c, 'r) setup_world \<Rightarrow> ('k, 'c) client_env \<Rightarrow> target \<Rightarrow> string \<Rightarrow> string \<Rightarrow> string \<Rightarrow> installer \<Rightarrow> (('c, 'r) boot, unit) action" where
  "install w env t goos goarch remoteBin ins =
     (case ins of
        StreamInstaller \<Rightarrow> stream_install w env t goos goarch remoteBin
      | ReleaseInstaller v \<Rightarrow> release_install w env t v
      | TarballInstaller v \<Rightarrow> tarball_install w env t v goos goarch remoteBin)"

section \<open>Pairing and recording\<close>

definition local_paths :: "local_env \<Rightarrow> paths option" where
  "local_paths le = Resolve (le_os le) (le_getenv le) (le_home le)"

definition local_store :: "local_env \<Rightarrow> paths \<Rightarrow> (cfg_error, token_store) result" where
  "local_store le p = OpenTokenStore (le_os le) (le_getenv le) (le_secretTool le) (le_home le) TokenStoreAuto p"

definition ensureLocalToken :: "('k, 'c, 'r) setup_world \<Rightarrow> (('c, 'r) boot, string) action" where
  "ensureLocalToken w s =
     (let le = su_local w in
      case local_paths le of
        None \<Rightarrow> (Inl (configError ''clipbeam: cannot resolve home directory''), s)
      | Some p \<Rightarrow>
          (case local_store le p of
             Inl e \<Rightarrow> (Inl (configError ''setup: open token store''), s)
           | Inr ts \<Rightarrow>
               (case TokenStore_Load ts (le_loadRun le) (le_statFails le) (le_readFault le) (bo_fs s) of
                  (Inr (Some tok), fs1) \<Rightarrow> (Inr tok, s\<lparr>bo_fs := fs1\<rparr>)
                | (_, fs1) \<Rightarrow>
                    (case MakeToken (le_random le) of
                       None \<Rightarrow> (Inl (codedf ExitGeneric ''setup: generate token''), s\<lparr>bo_fs := fs1\<rparr>)
                     | Some tok \<Rightarrow>
                         (case TokenStore_Save ts (le_saveRun le) (le_tokenTmp le) (le_tokenFault le) tok fs1 of
                            (Some e, fs2) \<Rightarrow> (Inl (configError ''setup: save local token''), s\<lparr>bo_fs := fs2\<rparr>)
                          | (None, fs2) \<Rightarrow> (Inr tok, s\<lparr>bo_fs := fs2\<rparr>))))))"

definition tokenCommand :: string where
  "tokenCommand =
     (let dq = [CHR 0x22] in
      ''dir='' @ dq @ ''${XDG_CONFIG_HOME:-$HOME/.config}/clipbeam'' @ dq @ ''; '' @
      ''case '' @ dq @ ''$dir'' @ dq @ '' in /*) ;; *) dir='' @ dq @ ''$HOME/.config/clipbeam'' @ dq @ '';; esac; '' @
      ''mkdir -p '' @ dq @ ''$dir'' @ dq @ '' && chmod 700 '' @ dq @ ''$dir'' @ dq @
      '' && cat > '' @ dq @ ''$dir/token'' @ dq @ '' && chmod 600 '' @ dq @ ''$dir/token'' @ dq)"

definition writeRemoteToken ::
  "('k, 'c, 'r) setup_world \<Rightarrow> ('k, 'c) client_env \<Rightarrow> target \<Rightarrow> string \<Rightarrow> (('c, 'r) boot, unit) action" where
  "writeRemoteToken w env t token =
     and_then (dial_coded w env t) (\<lambda>c.
     and_then (must_run w c tokenCommand token ExitRemoteIO ''setup: write remote token'') (\<lambda>_. okay ()))"

definition read_file :: "bool \<Rightarrow> cfs \<Rightarrow> string \<Rightarrow> read_outcome" where
  "read_file fails fs path =
     (case fs path of None \<Rightarrow> ReadMissing | Some (b, m) \<Rightarrow> if fails then ReadFails else ReadOk b)"

definition record_alias ::
  "('k, 'c, 'r) setup_world \<Rightarrow> string \<Rightarrow> target \<Rightarrow> string \<Rightarrow> string \<Rightarrow> (('c, 'r) boot, unit) action" where
  "record_alias w spec t remoteBin serve s =
     (let le = su_local w in
      case local_paths le of
        None \<Rightarrow> (Inl (configError ''clipbeam: cannot resolve home directory''), s)
      | Some p \<Rightarrow>
          (case LoadAliases (le_unmarshal le) p (read_file (le_aliasReadFails le) (bo_fs s)) of
             Inl e \<Rightarrow> (Inl (configError ''alias store''), s)
           | Inr st \<Rightarrow>
               (case SaveAliases (le_marshal le) p (le_aliasTmp le) (le_aliasFault le) (bo_fs s) (recordAlias st spec t remoteBin serve) of
                  (Some e, fs') \<Rightarrow> (Inl (configError ''setup: save alias store''), s\<lparr>bo_fs := fs'\<rparr>)
                | (None, fs') \<Rightarrow>
                    says w (''setup: recorded alias '' @ su_quote w (aliasName t spec) @ '' (default)'') (s\<lparr>bo_fs := fs'\<rparr>))))"

section \<open>The run\<close>

definition defaultServe :: "string \<Rightarrow> string" where
  "defaultServe serve = (if serve = [] then ''exec'' else serve)"

text \<open>Whether the binary is sent: always under \<open>--force\<close>, else unless the remote reports the same version.\<close>

definition needs_upload ::
  "('k, 'c, 'r) setup_world \<Rightarrow> ('k, 'c) client_env \<Rightarrow> target \<Rightarrow> setup_options \<Rightarrow> string \<Rightarrow> (('c, 'r) boot, bool) action" where
  "needs_upload w env t opts remoteBin s =
     (if so_force opts then (Inr True, s)
      else case remoteVersion w env t remoteBin s of
        (Some rv, s') \<Rightarrow>
          if rv = su_version w then
            and_then (says w (''setup: remote clipbeam '' @ rv @ '' already matches local; skipping upload (use --force to re-stream)''))
              (\<lambda>_. okay False) s'
          else (Inr True, s')
      | (None, s') \<Rightarrow> (Inr True, s'))"

definition remote_bin :: "string \<Rightarrow> string" where
  "remote_bin home = home @ ''/.local/bin/clipbeam''"

definition setup_tail ::
  "('k, 'c, 'r) setup_world \<Rightarrow> ('k, 'c) client_env \<Rightarrow> string \<Rightarrow> target \<Rightarrow> setup_options \<Rightarrow> string \<Rightarrow> (('c, 'r) boot, unit) action" where
  "setup_tail w env spec t opts remoteBin =
     and_then (ensureLocalToken w) (\<lambda>token.
     and_then (writeRemoteToken w env t token) (\<lambda>_.
     and_then (says w ''setup: paired token (local store + remote 0600 file)'') (\<lambda>_.
     and_then (record_alias w spec t remoteBin (defaultServe (so_serve opts))) (\<lambda>_.
     and_then (says w ''setup: done'') (\<lambda>_ s.
       (Inr (), s\<lparr>bo_io := data remoteBin (bo_io s)\<rparr>))))))"

definition install_step ::
  "('k, 'c, 'r) setup_world \<Rightarrow> ('k, 'c) client_env \<Rightarrow> target \<Rightarrow> setup_options \<Rightarrow> string \<Rightarrow> string \<Rightarrow> string \<Rightarrow> installer
   \<Rightarrow> (('c, 'r) boot, unit) action" where
  "install_step w env t opts goos goarch remoteBin ins =
     and_then (needs_upload w env t opts remoteBin) (\<lambda>upload.
       if upload then
         and_then (install w env t goos goarch remoteBin ins) (\<lambda>_. says w (''setup: placed remote binary at '' @ remoteBin))
       else okay ())"

definition runSetupBootstrap ::
  "('k, 'c, 'r) setup_world \<Rightarrow> string \<Rightarrow> target \<Rightarrow> setup_options \<Rightarrow> (('c, 'r) boot, unit) action" where
  "runSetupBootstrap w spec t opts s =
     (case selectInstaller opts (su_version w) of
        Inl e \<Rightarrow> (Inl e, s)
      | Inr ins \<Rightarrow>
          (case su_client w of
             Inl m \<Rightarrow> (Inl (sshNotReady m), s)
           | Inr env \<Rightarrow>
               and_then (says w (''setup: dialing '' @ spec @ '' ...'')) (\<lambda>_.
               and_then (detectRemotePlatform w env t) (\<lambda>(goos, goarch, home).
               and_then (says w (''setup: remote platform '' @ goos @ ''/'' @ goarch @ '' (home '' @ home @ '')'')) (\<lambda>_.
               and_then (install_step w env t opts goos goarch (remote_bin home) ins) (\<lambda>_.
                 setup_tail w env spec t opts (remote_bin home))))) s))"

definition runSetup ::
  "('k, 'c, 'r) setup_world \<Rightarrow> resolve_env \<Rightarrow> string \<Rightarrow> setup_options \<Rightarrow> (('c, 'r) boot, unit) action" where
  "runSetup w renv spec opts s =
     (if so_serve opts \<notin> set [''exec'', ''socket'', ''tcp'', ''tailscale'', []] then
        (Inl (usageError (''setup: --serve must be exec | socket | tcp | tailscale (got '' @ su_quote w (so_serve opts) @ '')'')), s)
      else case resolveTargetWith (rv_resolver renv) (rv_home renv) (rv_stat renv) spec of
        Inl x \<Rightarrow> (Inl (the (resolveErr (resolve_cli_error renv x))), s)
      | Inr t \<Rightarrow> runSetupBootstrap w spec (t\<lparr>tg_acceptNew := so_acceptNew opts\<rparr>) opts s)"

definition runService :: "(string \<Rightarrow> string) \<Rightarrow> goos \<Rightarrow> string \<Rightarrow> cli_error" where
  "runService qt os action_name =
     (if action_name \<notin> set [''install'', ''uninstall''] then
        usageError (''service: expected install | uninstall (got '' @ qt action_name @ '')'')
      else
        let unit_name = (if os = Darwin then ''launchd (com.sani.clipbeam)'' else ''systemd --user (com.sani.clipbeam)'') in
        codedf ExitConfig (''service '' @ action_name @ '': optional '' @ unit_name @ '' unit management not yet wired (off by default)''))"

section \<open>What an action leaves alone\<close>

text \<open>A view of the state an action keeps, however it ends.\<close>

definition keeps :: "('s \<Rightarrow> 'v) \<Rightarrow> ('s, 'a) action \<Rightarrow> bool" where
  "keeps g m \<longleftrightarrow> (\<forall>s. g (snd (m s)) = g s)"

named_theorems frame_intros

lemma keepsD: "keeps g m \<Longrightarrow> m s = (r, s') \<Longrightarrow> g s' = g s"
  by (auto simp: keeps_def dest: spec[of _ s])

lemma keeps_and_then [frame_intros]: "keeps g m \<Longrightarrow> (\<And>a. keeps g (f a)) \<Longrightarrow> keeps g (and_then m f)"
  by (simp add: keeps_def and_then_def split: prod.split sum.split) (metis snd_conv)

lemma keeps_okay [frame_intros]: "keeps g (okay a)"
  by (simp add: keeps_def okay_def)

lemma keeps_if [frame_intros]: "keeps g m \<Longrightarrow> keeps g m' \<Longrightarrow> keeps g (if b then m else m')"
  by simp

definition out_of :: "('c, 'r) boot \<Rightarrow> out_event list" where
  "out_of s = st_out (bo_io s)"

lemma and_thenE:
  assumes "and_then m f s = (r, s')"
  obtains (failed) e where "m s = (Inl e, s')" "r = Inl e" | (went_on) a s1 where "m s = (Inr a, s1)" "f a s1 = (r, s')"
  using assms by (auto simp: and_then_def split: prod.splits sum.splits)

lemma keeps_says [frame_intros]:
  "keeps bo_fs (says w m)" "keeps bo_tmps (says w m)" "keeps bo_log (says w m)" "keeps bo_remote (says w m)" "keeps out_of (says w m)"
  by (simp_all add: keeps_def says_def out_of_def diag_def)

lemma dial_frame:
  assumes "setup_dial w env t s = (r, s')"
  shows "bo_fs s' = bo_fs s" "bo_tmps s' = bo_tmps s" "bo_log s' = bo_log s" "bo_remote s' = bo_remote s" "out_of s' = out_of s"
  using assms by (auto simp: setup_dial_def out_of_def split: prod.splits)

lemma keeps_dial [frame_intros]:
  "keeps bo_fs (dial_coded w env t)" "keeps bo_tmps (dial_coded w env t)" "keeps bo_log (dial_coded w env t)"
  "keeps bo_remote (dial_coded w env t)" "keeps out_of (dial_coded w env t)"
  unfolding keeps_def dial_coded_def by (auto split: prod.split sum.split dest: dial_frame)

lemma run_frame:
  assumes "setup_run w c cmd input s = (r, s')"
  shows "bo_fs s' = bo_fs s" "bo_tmps s' = bo_tmps s" "out_of s' = out_of s" "bo_log s' = bo_log s @ [(cmd, input)]"
  using assms by (auto simp: setup_run_def out_of_def split: prod.splits)

lemma must_run_frame:
  assumes "must_run w c cmd input x what s = (r, s')"
  shows "bo_fs s' = bo_fs s" "bo_tmps s' = bo_tmps s" "out_of s' = out_of s" "bo_log s' = bo_log s @ [(cmd, input)]"
  using assms by (auto simp: must_run_def split: prod.splits option.splits dest: run_frame)

lemma keeps_must_run [frame_intros]:
  "keeps bo_fs (must_run w c cmd input x what)" "keeps bo_tmps (must_run w c cmd input x what)" "keeps out_of (must_run w c cmd input x what)"
  unfolding keeps_def by (metis must_run_frame prod.collapse)+

lemma keeps_pure [frame_intros]: "keeps g (\<lambda>s. (v, s))"
  by (simp add: keeps_def)

lemma keeps_detect [frame_intros]:
  "keeps bo_fs (detectRemotePlatform w env t)" "keeps bo_tmps (detectRemotePlatform w env t)" "keeps out_of (detectRemotePlatform w env t)"
  unfolding detectRemotePlatform_def by (intro frame_intros)+

lemma dial_frames:
  "setup_dial w env t s = (r, s') \<Longrightarrow>
     bo_fs s' = bo_fs s \<and> bo_tmps s' = bo_tmps s \<and> bo_log s' = bo_log s \<and> out_of s' = out_of s"
  using dial_frame[of w env t s r s'] by simp

lemma run_frames:
  "setup_run w c cmd input s = (r, s') \<Longrightarrow>
     bo_fs s' = bo_fs s \<and> bo_tmps s' = bo_tmps s \<and> out_of s' = out_of s \<and> bo_log s' = bo_log s @ [(cmd, input)]"
  using run_frame[of w c cmd input s r s'] by simp

lemma version_frame:
  assumes "remoteVersion w env t bin s = (v, s')"
  shows "bo_fs s' = bo_fs s" "bo_tmps s' = bo_tmps s" "out_of s' = out_of s"
    "bo_log s' = bo_log s \<and> v = None \<or> bo_log s' = bo_log s @ [(versionCommand bin, [])]"
  using assms
  by (auto simp: remoteVersion_def split: prod.splits sum.splits option.splits if_splits dest!: dial_frames run_frames)

lemma needs_upload_frame:
  assumes "needs_upload w env t opts bin s = (r, s')"
  shows "bo_fs s' = bo_fs s" "bo_tmps s' = bo_tmps s" "out_of s' = out_of s"
    "bo_log s' = bo_log s \<and> r = Inr True \<or> bo_log s' = bo_log s @ [(versionCommand bin, [])] \<and> \<not> so_force opts"
    "\<exists>b. r = Inr b"
proof -
  obtain v s1 where v: "remoteVersion w env t bin s = (v, s1)" by force
  note f = version_frame[OF v]
  have "bo_fs s' = bo_fs s \<and> bo_tmps s' = bo_tmps s \<and> out_of s' = out_of s \<and> (\<exists>b. r = Inr b)
    \<and> (bo_log s' = bo_log s \<and> r = Inr True \<or> bo_log s' = bo_log s @ [(versionCommand bin, [])] \<and> \<not> so_force opts)"
    using assms f
    by (cases v) (auto simp: needs_upload_def v and_then_def says_def okay_def out_of_def diag_def split: if_splits)
  then show "bo_fs s' = bo_fs s" "bo_tmps s' = bo_tmps s" "out_of s' = out_of s"
    "bo_log s' = bo_log s \<and> r = Inr True \<or> bo_log s' = bo_log s @ [(versionCommand bin, [])] \<and> \<not> so_force opts"
    "\<exists>b. r = Inr b"
    by blast+
qed

section \<open>What an installation sends\<close>

text \<open>A release that may be sent: both downloads were whole and within the cap, the first checksum listed for the
  asset is the archive's SHA-256, and the binary is the entry the extraction takes.\<close>

definition downloaded :: "('k, 'c, 'r) setup_world \<Rightarrow> string \<Rightarrow> string \<Rightarrow> bool" where
  "downloaded w url body \<longleftrightarrow>
     (\<exists>status. su_get w url = GetAnswer status body False \<and> 200 \<le> status \<and> status < 300) \<and> length body \<le> maxReleaseDownloadBytes"

definition verified_release :: "('k, 'c, 'r) setup_world \<Rightarrow> string \<Rightarrow> string \<Rightarrow> string \<Rightarrow> string \<Rightarrow> bool" where
  "verified_release w version goos goarch bin \<longleftrightarrow>
     (\<exists>archive checks digest rest steps entry.
        downloaded w (release_url version (releaseAssetName goos goarch version)) archive
        \<and> downloaded w (release_url version ''checksums.txt'') checks
        \<and> asset_sums (releaseAssetName goos goarch version) checks = digest # rest
        \<and> equal_fold digest (hex_encode (su_sha256 w archive))
        \<and> su_untar w archive = Inr steps \<and> find decisive steps = Some (TarEntry entry True bin False)
        \<and> length bin \<le> maxReleaseDownloadBytes)"

lemma release_binary_verified:
  assumes "release_binary w version (releaseAssetName goos goarch version) = Inr bin"
  shows "verified_release w version goos goarch bin"
proof -
  let ?asset = "releaseAssetName goos goarch version"
  obtain archive checks where f: "fetchBytes (su_get w) (release_url version ?asset) = Inr archive"
    "fetchBytes (su_get w) (release_url version ''checksums.txt'') = Inr checks"
    and v: "verifyChecksum (su_sha256 w) ?asset archive checks = None" and x: "extractClipbeamBinary (su_untar w) archive = Inr bin"
    using assms by (auto simp: release_binary_def split: sum.splits option.splits)
  obtain steps where "su_untar w archive = Inr steps" "extract_loop steps = Inr bin"
    using x by (auto simp: extractClipbeamBinary_def)
  moreover obtain digest rest where "asset_sums ?asset checks = digest # rest" "equal_fold digest (hex_encode (su_sha256 w archive))"
    using v by (auto simp: verifyChecksum_ok split: list.splits)
  ultimately show ?thesis
    using f unfolding verified_release_def downloaded_def fetchBytes_ok extract_loop_ok by blast
qed

definition may_install :: "('k, 'c, 'r) setup_world \<Rightarrow> string \<Rightarrow> string \<Rightarrow> string \<Rightarrow> installer \<Rightarrow> string \<times> string \<Rightarrow> bool" where
  "may_install w goos goarch bin ins cmd =
     (case ins of
        StreamInstaller \<Rightarrow> (\<exists>d. su_build w goos goarch = Inr d \<and> cmd = (placeCommand bin, d))
      | ReleaseInstaller v \<Rightarrow> cmd = (releaseInstallCommand v, [])
      | TarballInstaller v \<Rightarrow> (\<exists>d. verified_release w v goos goarch d \<and> cmd = (placeCommand bin, d)))"

text \<open>An action that runs the one command or fails before it.\<close>

definition one_command :: "(string \<times> string \<Rightarrow> bool) \<Rightarrow> (('c, 'r) boot, 'a) action \<Rightarrow> ('c, 'r) boot \<Rightarrow> bool" where
  "one_command P m s \<longleftrightarrow>
     (case m s of (r, s') \<Rightarrow>
        bo_log s' = bo_log s \<and> bo_remote s' = bo_remote s \<and> (\<exists>e. r = Inl e) \<or> (\<exists>cmd. P cmd \<and> bo_log s' = bo_log s @ [cmd]))"

lemma one_command_fail: "m s = (Inl e, s') \<Longrightarrow> bo_log s' = bo_log s \<Longrightarrow> bo_remote s' = bo_remote s \<Longrightarrow> one_command P m s"
  by (simp add: one_command_def)

lemma one_command_dial:
  assumes "\<And>c s. \<exists>r s'. m c s = (r, s') \<and> bo_log s' = bo_log s @ [cmd]" "P cmd"
  shows "one_command P (and_then (dial_coded w env t) m) s"
proof -
  obtain r s1 where d: "dial_coded w env t s = (r, s1)" by force
  have s1: "bo_log s1 = bo_log s" "bo_remote s1 = bo_remote s"
    using keepsD[OF keeps_dial(3) d] keepsD[OF keeps_dial(4) d] by simp_all
  show ?thesis
  proof (cases r)
    case (Inl e)
    then show ?thesis using s1 by (simp add: one_command_def and_then_def d)
  next
    case (Inr c)
    obtain r' s' where "m c s1 = (r', s')" "bo_log s' = bo_log s1 @ [cmd]" using assms(1)[of c s1] by blast
    then show ?thesis using s1 assms(2) Inr by (cases cmd) (simp add: one_command_def and_then_def d)
  qed
qed

lemma must_run_log: "\<exists>r s'. must_run w c cmd input x what s = (r, s') \<and> bo_log s' = bo_log s @ [(cmd, input)]"
  by (metis must_run_frame(4) prod.collapse)

lemma then_okay_log:
  assumes "\<And>s. \<exists>r s'. m s = (r, s') \<and> bo_log s' = bo_log s @ [cmd]"
  shows "\<exists>r s'. and_then m (\<lambda>_. okay ()) s = (r, s') \<and> bo_log s' = bo_log s @ [cmd]"
  using assms[of s] by (auto simp: and_then_def okay_def split: sum.split)

lemma streamBinary_one:
  "one_command (\<lambda>cmd. \<exists>d. bo_tmps s p = Some d \<and> cmd = (placeCommand bin, d)) (streamBinary w env t p bin) s"
proof (cases "if su_readFails w then None else bo_tmps s p")
  case None
  then show ?thesis by (intro one_command_fail) (auto simp: streamBinary_def)
next
  case (Some d)
  have "one_command (\<lambda>cmd. \<exists>d. bo_tmps s p = Some d \<and> cmd = (placeCommand bin, d))
    (and_then (dial_coded w env t) (\<lambda>c. and_then (must_run w c (placeCommand bin) d ExitRemoteIO ''setup: place remote binary'') (\<lambda>_. okay ()))) s"
    by (rule one_command_dial[of _ "(placeCommand bin, d)"], rule then_okay_log, rule must_run_log)
      (use Some in \<open>auto split: if_splits\<close>)
  then show ?thesis using Some by (simp add: one_command_def streamBinary_def)
qed

lemma one_command_removing: "one_command P (removing tmp m) s = one_command P m s"
  by (simp add: one_command_def removing_def set_temp_def split: prod.split)

lemma one_command_mono: "one_command P m s \<Longrightarrow> (\<And>cmd. P cmd \<Longrightarrow> Q cmd) \<Longrightarrow> one_command Q m s"
  by (auto simp: one_command_def)

lemma one_command_from:
  assumes "one_command P m s1" "m' s = m s1" "bo_log s1 = bo_log s" "bo_remote s1 = bo_remote s"
  shows "one_command P m' s"
  using assms by (simp add: one_command_def)

lemma set_temp_sel [simp]:
  "bo_log (set_temp tmp v s) = bo_log s" "bo_remote (set_temp tmp v s) = bo_remote s" "bo_fs (set_temp tmp v s) = bo_fs s"
  "out_of (set_temp tmp v s) = out_of s" "bo_tmps (set_temp tmp v s) = (bo_tmps s)(tmp := v)"
  by (simp_all add: set_temp_def out_of_def)

lemma says_sel:
  assumes "says w msg s = (r, s')"
  shows "r = Inr ()" "bo_log s' = bo_log s" "bo_remote s' = bo_remote s" "bo_fs s' = bo_fs s" "out_of s' = out_of s" "bo_tmps s' = bo_tmps s"
  using assms by (auto simp: says_def out_of_def diag_def)

lemma and_then_says: "and_then (says w msg) f s = f () (snd (says w msg s))"
  by (simp add: and_then_def says_def)

lemma says_state:
  "bo_log (snd (says w msg s)) = bo_log s" "bo_remote (snd (says w msg s)) = bo_remote s" "bo_fs (snd (says w msg s)) = bo_fs s"
  "out_of (snd (says w msg s)) = out_of s" "bo_tmps (snd (says w msg s)) = bo_tmps s"
  by (simp_all add: says_def out_of_def diag_def)

lemma says_then_log:
  assumes "\<And>s. \<exists>r s'. m s = (r, s') \<and> bo_log s' = bo_log s @ [cmd]"
  shows "\<exists>r s'. and_then (says w msg) (\<lambda>_. m) s = (r, s') \<and> bo_log s' = bo_log s @ [cmd]"
  unfolding and_then_says using assms[of "snd (says w msg s)"] by (simp add: says_state)

lemma stream_install_one:
  "one_command (may_install w goos goarch bin StreamInstaller) (stream_install w env t goos goarch bin) s"
proof (cases "su_temp w")
  case None
  then show ?thesis by (simp add: one_command_def stream_install_def and_then_def buildCrossBinary_def)
next
  case (Some tmp)
  let ?s1 = "snd (says w (''setup: building static '' @ goos @ ''/'' @ goarch @ '' binary (CGO_ENABLED=0) ...'') (set_temp tmp (Some []) s))"
  show ?thesis
  proof (cases "su_build w goos goarch")
    case (Inl e)
    then show ?thesis
      using Some by (simp add: one_command_def stream_install_def and_then_def[of "buildCrossBinary w goos goarch"]
        buildCrossBinary_def and_then_says says_state)
  next
    case (Inr d)
    have b: "buildCrossBinary w goos goarch s = (Inr tmp, set_temp tmp (Some d) ?s1)"
      using Some Inr by (simp add: buildCrossBinary_def and_then_says)
    have "one_command (may_install w goos goarch bin StreamInstaller)
        (removing tmp (streamBinary w env t tmp bin)) (set_temp tmp (Some d) ?s1)"
      unfolding one_command_removing
      by (rule one_command_mono[OF streamBinary_one]) (use Inr in \<open>auto simp: may_install_def\<close>)
    then show ?thesis
      by (rule one_command_from) (simp_all add: stream_install_def and_then_def b says_state)
  qed
qed

lemma release_install_one:
  "one_command (may_install w goos goarch bin (ReleaseInstaller v)) (release_install w env t v) s"
  unfolding release_install_def
proof (rule one_command_dial[of _ "(releaseInstallCommand v, [])"])
  show "may_install w goos goarch bin (ReleaseInstaller v) (releaseInstallCommand v, [])" by (simp add: may_install_def)
  fix c s
  show "\<exists>r s'. and_then (says w (''setup: --from-release: remote box fetching '' @ rawInstallURL @ '' (CLIPBEAM_VERSION='' @ v @ '')''))
      (\<lambda>_. and_then (must_run w c (releaseInstallCommand v) [] ExitRemoteIO ''setup: --from-release remote install failed'') (\<lambda>_. okay ())) s = (r, s')
      \<and> bo_log s' = bo_log s @ [(releaseInstallCommand v, [])]"
    by (rule says_then_log, rule then_okay_log, rule must_run_log)
qed

lemma stream_temp_one: "one_command (\<lambda>cmd. cmd = (placeCommand remoteBin, bin)) (stream_temp w env t bin remoteBin) s"
proof (cases "su_temp w")
  case None
  then show ?thesis by (simp add: one_command_def stream_temp_def)
next
  case (Some tmp)
  let ?m = "\<lambda>s1. case su_tempWrite w of
      Some n \<Rightarrow> (Inl (codedf ExitGeneric ''setup: write temp binary''), set_temp tmp (Some (take n bin)) s1)
    | None \<Rightarrow>
        if su_tempCloseFails w then (Inl (codedf ExitGeneric ''setup: close temp binary''), set_temp tmp (Some bin) s1)
        else streamBinary w env t tmp remoteBin (set_temp tmp (Some bin) s1)"
  let ?s = "set_temp tmp (Some []) s"
  have "one_command (\<lambda>cmd. cmd = (placeCommand remoteBin, bin)) ?m ?s"
  proof (cases "su_tempWrite w = None \<and> \<not> su_tempCloseFails w")
    case True
    have "one_command (\<lambda>cmd. cmd = (placeCommand remoteBin, bin)) (streamBinary w env t tmp remoteBin) (set_temp tmp (Some bin) ?s)"
      by (rule one_command_mono[OF streamBinary_one]) simp
    then show ?thesis by (rule one_command_from) (use True in simp_all)
  next
    case False
    then show ?thesis by (auto simp: one_command_def split: option.split)
  qed
  then have "one_command (\<lambda>cmd. cmd = (placeCommand remoteBin, bin)) (removing tmp ?m) ?s"
    unfolding one_command_removing .
  then show ?thesis by (rule one_command_from) (simp_all add: stream_temp_def Some)
qed

lemma tarball_eq:
  "tarball_install w env t v goos goarch bin s =
     (let s1 = snd (says w (''setup: downloading release asset '' @ releaseAssetName goos goarch v @ '' ...'') s) in
      case release_binary w v (releaseAssetName goos goarch v) of Inl e \<Rightarrow> (Inl e, s1) | Inr d \<Rightarrow> stream_temp w env t d bin s1)"
  by (simp add: tarball_install_def Let_def and_then_says
      and_then_def[of "\<lambda>s. (release_binary w v (releaseAssetName goos goarch v), s)"] split: sum.split)

lemma tarball_install_one:
  "one_command (may_install w goos goarch bin (TarballInstaller v)) (tarball_install w env t v goos goarch bin) s"
proof (cases "release_binary w v (releaseAssetName goos goarch v)")
  case (Inl e)
  then show ?thesis by (simp add: one_command_def tarball_eq Let_def says_state)
next
  case (Inr d)
  let ?s = "snd (says w (''setup: downloading release asset '' @ releaseAssetName goos goarch v @ '' ...'') s)"
  have "one_command (may_install w goos goarch bin (TarballInstaller v)) (stream_temp w env t d bin) ?s"
    by (rule one_command_mono[OF stream_temp_one])
      (use release_binary_verified[OF Inr] in \<open>auto simp: may_install_def\<close>)
  then show ?thesis
    by (rule one_command_from)
      (simp_all add: tarball_eq Let_def says_state Inr)
qed

lemma install_one: "one_command (may_install w goos goarch bin ins) (install w env t goos goarch bin ins) s"
  unfolding install_def
  by (cases ins) (simp_all add: stream_install_one release_install_one tarball_install_one)

section \<open>What an installation leaves alone\<close>

lemma keeps_removing [frame_intros]: "keeps g m \<Longrightarrow> (\<And>s. g (set_temp tmp None s) = g s) \<Longrightarrow> keeps g (removing tmp m)"
  by (simp add: keeps_def removing_def split_beta)

lemma keeps_streamI:
  assumes "\<And>c d. keeps g (must_run w c (placeCommand bin) d ExitRemoteIO ''setup: place remote binary'')" "keeps g (dial_coded w env t)"
  shows "keeps g (streamBinary w env t p bin)"
proof -
  have "keeps g (and_then (dial_coded w env t) (\<lambda>c. and_then (must_run w c (placeCommand bin) d ExitRemoteIO ''setup: place remote binary'') (\<lambda>_. okay ())))" for d
    using assms by (intro keeps_and_then keeps_okay)
  then show ?thesis by (simp add: keeps_def streamBinary_def split: option.split)
qed

lemmas keeps_stream [frame_intros] =
  keeps_streamI[OF keeps_must_run(1) keeps_dial(1)] keeps_streamI[OF keeps_must_run(2) keeps_dial(2)]
  keeps_streamI[OF keeps_must_run(3) keeps_dial(5)]

lemma keeps_build [frame_intros]: "keeps bo_fs (buildCrossBinary w goos goarch)" "keeps out_of (buildCrossBinary w goos goarch)"
  by (simp_all add: keeps_def buildCrossBinary_def and_then_says says_state split: option.split sum.split)

lemma keeps_release [frame_intros]:
  "keeps bo_fs (release_install w env t v)" "keeps bo_tmps (release_install w env t v)" "keeps out_of (release_install w env t v)"
  unfolding release_install_def by (intro frame_intros)+

lemma keeps_stream_temp [frame_intros]:
  "keeps bo_fs (stream_temp w env t bin remoteBin)" "keeps out_of (stream_temp w env t bin remoteBin)"
  using keeps_stream(1,3)[of w env t _ remoteBin]
  by (auto simp: keeps_def stream_temp_def removing_def split_beta split: option.split)

lemma keeps_install [frame_intros]:
  "keeps bo_fs (install w env t goos goarch bin ins)" "keeps out_of (install w env t goos goarch bin ins)"
  unfolding install_def stream_install_def tarball_install_def Let_def
  by (cases ins; simp; intro frame_intros set_temp_sel)+

text \<open>Scratch files: the name \<open>CreateTemp\<close> chose is new, and after the installation it is gone again.\<close>

lemma install_tmps:
  assumes "\<And>tmp. su_temp w = Some tmp \<Longrightarrow> bo_tmps s tmp = None" "install w env t goos goarch bin ins s = (r, s')"
  shows "bo_tmps s' = bo_tmps s"
proof (cases "su_temp w")
  case None
  then show ?thesis
    using assms(2) keepsD[OF keeps_release(2)]
    by (cases ins) (auto simp: install_def stream_install_def and_then_def[of "buildCrossBinary w goos goarch"] buildCrossBinary_def
        tarball_eq Let_def stream_temp_def says_state split: sum.splits)
next
  case (Some tmp)
  have [simp]: "(bo_tmps s)(tmp := None) = bo_tmps s" using assms(1)[OF Some] by auto
  have st: "bo_tmps (snd (streamBinary w env t tmp bin s1)) = bo_tmps s1" for s1
    using keeps_stream(2)[of w env t tmp bin] by (simp add: keeps_def)
  show ?thesis
  proof (cases ins)
    case StreamInstaller
    then show ?thesis
      using assms(2) Some st
      by (auto simp: install_def stream_install_def and_then_def[of "buildCrossBinary w goos goarch"] buildCrossBinary_def
          and_then_says says_state removing_def split_beta split: sum.splits)
  next
    case (ReleaseInstaller v)
    then show ?thesis using assms(2) keepsD[OF keeps_release(2)] by (simp add: install_def)
  next
    case (TarballInstaller v)
    then show ?thesis
      using assms(2) Some st
      by (auto simp: install_def tarball_eq Let_def stream_temp_def says_state removing_def split_beta
          split: sum.splits option.splits if_splits)
  qed
qed

section \<open>The commands of a run\<close>

lemma setup_tail_log:
  assumes "setup_tail w env spec t opts bin s = (r, s')"
  shows "\<exists>tok k. bo_log s' = bo_log s @ take k [(tokenCommand, tok)] \<and> (r = Inr () \<longrightarrow> 1 \<le> k)"
proof -
  have tok: "bo_log s1 = bo_log s" if "ensureLocalToken w s = (r1, s1)" for r1 s1
    using that by (auto simp: ensureLocalToken_def Let_def split: option.splits sum.splits prod.splits)
  have rec: "keeps bo_log (record_alias w spec t bin serve)" for serve
    by (auto simp: keeps_def record_alias_def Let_def says_def split: option.split sum.split prod.split)
  have rest: "keeps bo_log (and_then (says w m1) (\<lambda>_. and_then (record_alias w spec t bin serve) (\<lambda>_. and_then (says w m2) (\<lambda>_ s.
       (Inr (), s\<lparr>bo_io := data bin (bo_io s)\<rparr>)))))" for m1 m2 serve
    by (intro frame_intros rec) (simp add: keeps_def)
  from assms[unfolded setup_tail_def] show ?thesis
  proof (cases rule: and_thenE)
    case (failed e)
    then show ?thesis using tok by (intro exI[of _ "[]"] exI[of _ 0]) auto
  next
    case (went_on token s1)
    obtain r2 s2 where w2: "writeRemoteToken w env t token s1 = (r2, s2)" by force
    have one: "one_command (\<lambda>cmd. cmd = (tokenCommand, token)) (writeRemoteToken w env t token) s1"
      unfolding writeRemoteToken_def by (rule one_command_dial[of _ "(tokenCommand, token)"], rule then_okay_log, rule must_run_log) simp
    then have l2: "bo_log s2 = bo_log s1 \<and> (\<exists>e. r2 = Inl e) \<or> bo_log s2 = bo_log s1 @ [(tokenCommand, token)]"
      by (auto simp: one_command_def w2)
    from went_on(2) have l': "bo_log s' = bo_log s2 \<and> ((\<exists>e. r2 = Inl e) \<longrightarrow> (\<exists>e. r = Inl e))"
    proof (cases rule: and_thenE)
      case (failed e)
      then show ?thesis using w2 by simp
    next
      case (went_on a s3)
      then show ?thesis using keepsD[OF rest went_on(2)] w2 by simp
    qed
    show ?thesis
    proof (cases "\<exists>e. r2 = Inl e")
      case True
      then show ?thesis
        using l2 l' tok[OF went_on(1)]
        by (intro exI[of _ token] exI[of _ "if bo_log s2 = bo_log s1 then 0 else 1"]) auto
    next
      case False
      then show ?thesis using l2 l' tok[OF went_on(1)] by (intro exI[of _ token] exI[of _ 1]) auto
    qed
  qed
qed

lemma install_step_log:
  assumes "install_step w env t opts goos goarch bin ins s = (r, s')"
  shows "\<exists>ver inst. bo_log s' = bo_log s @ ver @ inst \<and> ver \<in> {[], [(versionCommand bin, [])]}
    \<and> (inst = [] \<or> (\<exists>cmd. may_install w goos goarch bin ins cmd \<and> inst = [cmd]))
    \<and> (so_force opts \<longrightarrow> ver = []) \<and> (r = Inr () \<longrightarrow> ver = [] \<longrightarrow> inst \<noteq> [])"
proof -
  obtain b s1 where n: "needs_upload w env t opts bin s = (Inr b, s1)"
    using needs_upload_frame(5)[of w env t opts bin s] by (metis prod.collapse)
  define ver :: "(string \<times> string) list" where "ver = (if bo_log s1 = bo_log s then [] else [(versionCommand bin, [])])"
  have ver: "bo_log s1 = bo_log s @ ver" "so_force opts \<longrightarrow> ver = []" "ver = [] \<longrightarrow> b"
    "ver \<in> {[], [(versionCommand bin, [])]}"
    using needs_upload_frame(4)[OF n] by (auto simp: ver_def)
  have run: "(if b then and_then (install w env t goos goarch bin ins) (\<lambda>_. says w (''setup: placed remote binary at '' @ bin)) else okay ()) s1 = (r, s')"
    using assms n by (simp add: install_step_def and_then_def)
  show ?thesis
  proof (cases b)
    case False
    then show ?thesis using run ver by (intro exI[of _ ver] exI[of _ "[]"]) (auto simp: okay_def)
  next
    case True
    obtain r2 s2 where i: "install w env t goos goarch bin ins s1 = (r2, s2)" by force
    then have "bo_log s2 = bo_log s1 \<and> (\<exists>e. r2 = Inl e) \<or> (\<exists>cmd. may_install w goos goarch bin ins cmd \<and> bo_log s2 = bo_log s1 @ [cmd])"
      using install_one[of w goos goarch bin ins env t s1] by (auto simp: one_command_def)
    moreover have "bo_log s' = bo_log s2" "(\<exists>e. r2 = Inl e) \<longrightarrow> r \<noteq> Inr ()"
      using run True i by (auto simp: and_then_def says_def split: sum.splits)
    ultimately obtain inst where "bo_log s' = bo_log s1 @ inst" "inst = [] \<and> r \<noteq> Inr () \<or> (\<exists>cmd. may_install w goos goarch bin ins cmd \<and> inst = [cmd])"
      by (metis append_Nil2)
    then show ?thesis using ver by (intro exI[of _ ver] exI[of _ inst]) auto
  qed
qed

lemma remoteHomeFor_absolute: "has_prefix (remoteHomeFor user) ''/''"
  by (simp add: remoteHomeFor_def has_prefix_def)

definition known_platform :: "string \<Rightarrow> string \<Rightarrow> string \<Rightarrow> bool" where
  "known_platform goos goarch home \<longleftrightarrow>
     goos \<in> {''linux'', ''darwin''} \<and> goarch \<in> {''amd64'', ''arm64''} \<and> has_prefix home ''/''"

lemma parsePlatform_known:
  "parsePlatform qt user out0 = Inr (goos, goarch, home) \<Longrightarrow> known_platform goos goarch home"
  using remoteHomeFor_absolute[of user]
  by (auto simp: parsePlatform_def known_platform_def unameToGOOS_def unameToGOARCH_def Let_def split: if_splits option.splits)

lemma detect_log:
  assumes "detectRemotePlatform w env t s = (r, s')"
  shows "\<exists>k. bo_log s' = bo_log s @ take k [(detectCommand, [])]
    \<and> (\<forall>goos goarch home. r = Inr (goos, goarch, home) \<longrightarrow> 1 \<le> k \<and> known_platform goos goarch home)"
  using assms[unfolded detectRemotePlatform_def]
proof (cases rule: and_thenE)
  case (failed e)
  then show ?thesis using keepsD[OF keeps_dial(3) failed(1)] by (intro exI[of _ 0]) simp
next
  case (went_on c s1)
  have s1: "bo_log s1 = bo_log s" using keepsD[OF keeps_dial(3) went_on(1)] .
  from went_on(2) show ?thesis
  proof (cases rule: and_thenE)
    case (failed e)
    then show ?thesis using must_run_frame(4)[OF failed(1)] s1 by (intro exI[of _ 1]) simp
  next
    case (went_on stdout s2)
    then show ?thesis
      using must_run_frame(4)[OF went_on(1)] s1 parsePlatform_known[of "su_quote w" "tg_user t" stdout] by (intro exI[of _ 1]) auto
  qed
qed

text \<open>How far a run gets: it fails before the installation, having done nothing but the platform probe, or it
  knows the box and goes on.\<close>

definition same_files :: "('c, 'r) boot \<Rightarrow> ('c, 'r) boot \<Rightarrow> bool" where
  "same_files s s' \<longleftrightarrow> bo_fs s' = bo_fs s \<and> bo_tmps s' = bo_tmps s \<and> out_of s' = out_of s"

lemma bootstrapE:
  assumes "runSetupBootstrap w spec t opts s = (r, s')"
  obtains (early) e k where "r = Inl e" "same_files s s'" "bo_log s' = bo_log s @ take k [(detectCommand, [])]"
  | (late) ins env goos goarch home s1 where "selectInstaller opts (su_version w) = Inr ins" "su_client w = Inr env"
      "known_platform goos goarch home" "same_files s s1" "bo_log s1 = bo_log s @ [(detectCommand, [])]"
      "and_then (install_step w env t opts goos goarch (remote_bin home) ins) (\<lambda>_. setup_tail w env spec t opts (remote_bin home)) s1 = (r, s')"
proof (cases "(\<exists>ins. selectInstaller opts (su_version w) = Inr ins) \<and> (\<exists>env. su_client w = Inr env)")
  case False
  have "\<exists>e. r = Inl e \<and> s' = s"
    using assms False by (cases "selectInstaller opts (su_version w)"; cases "su_client w") (auto simp: runSetupBootstrap_def)
  then show ?thesis using early[of _ 0] by (auto simp: same_files_def)
next
  case True
  then obtain ins env where ie: "selectInstaller opts (su_version w) = Inr ins" "su_client w = Inr env" by blast
  define s0 where "s0 = snd (says w (''setup: dialing '' @ spec @ '' ...'') s)"
  have s0: "bo_log s0 = bo_log s" "same_files s s0" by (simp_all add: s0_def says_state same_files_def)
  have "and_then (detectRemotePlatform w env t) (\<lambda>(goos, goarch, home).
       and_then (says w (''setup: remote platform '' @ goos @ ''/'' @ goarch @ '' (home '' @ home @ '')'')) (\<lambda>_.
       and_then (install_step w env t opts goos goarch (remote_bin home) ins) (\<lambda>_.
         setup_tail w env spec t opts (remote_bin home)))) s0 = (r, s')"
    using assms by (simp add: runSetupBootstrap_def ie and_then_says s0_def)
  then show ?thesis
  proof (cases rule: and_thenE)
    case (failed e)
    obtain k where "bo_log s' = bo_log s @ take k [(detectCommand, [])]" using detect_log[OF failed(1)] s0 by auto
    moreover have "same_files s s'" using keeps_detect[THEN keepsD, OF failed(1)] s0 by (simp add: same_files_def)
    ultimately show ?thesis using early failed(2) by blast
  next
    case (went_on a s1)
    obtain goos goarch home where a: "a = (goos, goarch, home)" by (cases a) auto
    obtain k where "bo_log s1 = bo_log s @ take k [(detectCommand, [])]" "1 \<le> k" and kp: "known_platform goos goarch home"
      using detect_log[OF went_on(1)] a s0 by auto
    then have "bo_log s1 = bo_log s @ [(detectCommand, [])]" by (cases k) simp_all
    moreover have "same_files s s1" using keeps_detect[THEN keepsD, OF went_on(1)] s0 by (simp add: same_files_def)
    ultimately show ?thesis
      using went_on(2) a kp ie
      by (intro late[of ins env goos goarch home "snd (says w (''setup: remote platform '' @ goos @ ''/'' @ goarch @ '' (home '' @ home @ '')'') s1)"])
        (simp_all add: and_then_says says_state same_files_def)
  qed
qed

lemma after_detect_log:
  assumes "and_then (install_step w env t opts goos goarch bin ins) (\<lambda>_. setup_tail w env spec t opts bin) s = (r, s')"
  shows "\<exists>ver inst tok k. bo_log s' = bo_log s @ take k (ver @ inst @ [(tokenCommand, tok)])
    \<and> ver \<in> {[], [(versionCommand bin, [])]} \<and> (inst = [] \<or> (\<exists>cmd. may_install w goos goarch bin ins cmd \<and> inst = [cmd]))
    \<and> (so_force opts \<longrightarrow> ver = []) \<and> (r = Inr () \<longrightarrow> 1 + length (ver @ inst) \<le> k \<and> (ver = [] \<longrightarrow> inst \<noteq> []))"
  using assms
proof (cases rule: and_thenE)
  case (failed e)
  obtain ver inst where "bo_log s' = bo_log s @ ver @ inst" "ver \<in> {[], [(versionCommand bin, [])]}"
    "inst = [] \<or> (\<exists>cmd. may_install w goos goarch bin ins cmd \<and> inst = [cmd])" "so_force opts \<longrightarrow> ver = []"
    using install_step_log[OF failed(1)] by blast
  then show ?thesis using failed(2) by (intro exI[of _ ver] exI[of _ inst] exI[of _ "[]"] exI[of _ "length (ver @ inst)"]) auto
next
  case (went_on u s1)
  obtain ver inst where i: "bo_log s1 = bo_log s @ ver @ inst" "ver \<in> {[], [(versionCommand bin, [])]}"
    "inst = [] \<or> (\<exists>cmd. may_install w goos goarch bin ins cmd \<and> inst = [cmd])" "so_force opts \<longrightarrow> ver = []" "ver = [] \<longrightarrow> inst \<noteq> []"
    using install_step_log[OF went_on(1)] by auto
  obtain tok k where "bo_log s' = bo_log s1 @ take k [(tokenCommand, tok)]" "r = Inr () \<longrightarrow> 1 \<le> k"
    using setup_tail_log[OF went_on(2)] by blast
  then show ?thesis using i by (intro exI[of _ ver] exI[of _ inst] exI[of _ tok] exI[of _ "length (ver @ inst) + k"]) auto
qed


text \<open>C21. Which bytes of a release count as the binary: exactly those taken from an archive that was downloaded
  whole, with a success status and within the cap, whose SHA-256 is (in any case of letters) the first digest
  \<open>checksums.txt\<close> lists for that platform's asset, and of which they are the first regular entry named
  \<open>clipbeam\<close>, itself within the cap.\<close>

theorem release_verified_exact:
  "release_binary w version (releaseAssetName goos goarch version) = Inr bin \<longleftrightarrow>
     (\<exists>archive checks digest rest steps entry.
        downloaded w (release_url version (releaseAssetName goos goarch version)) archive
        \<and> downloaded w (release_url version ''checksums.txt'') checks
        \<and> asset_sums (releaseAssetName goos goarch version) checks = digest # rest
        \<and> equal_fold digest (hex_encode (su_sha256 w archive))
        \<and> su_untar w archive = Inr steps \<and> find decisive steps = Some (TarEntry entry True bin False)
        \<and> length bin \<le> maxReleaseDownloadBytes)" (is "?L \<longleftrightarrow> ?R")
proof
  assume ?L then show ?R by (rule release_binary_verified[unfolded verified_release_def])
next
  assume ?R
  then obtain archive checks digest rest steps entry where
    "fetchBytes (su_get w) (release_url version (releaseAssetName goos goarch version)) = Inr archive"
    "fetchBytes (su_get w) (release_url version ''checksums.txt'') = Inr checks"
    "asset_sums (releaseAssetName goos goarch version) checks = digest # rest" "equal_fold digest (hex_encode (su_sha256 w archive))"
    "su_untar w archive = Inr steps" "extract_loop steps = Inr bin"
    unfolding downloaded_def fetchBytes_ok extract_loop_ok by blast
  moreover from this have "verifyChecksum (su_sha256 w) (releaseAssetName goos goarch version) archive checks = None"
    by (simp add: verifyChecksum_ok)
  ultimately show ?L by (simp add: release_binary_def extractClipbeamBinary_def)
qed

section \<open>Witnesses\<close>

definition witness_setup_target :: target where
  "witness_setup_target = no_target\<lparr>tg_host := ''h'', tg_acceptNew := True\<rparr>"

definition witness_aliases :: alias_store where
  "witness_aliases = recordAlias \<lparr>as_aliases = [], as_defaultAlias = []\<rparr> ''h'' witness_setup_target (remote_bin ''/root'') ''exec''"

definition witness_local :: local_env where
  "witness_local = \<lparr>le_os = Linux, le_getenv = witness_env, le_home = ''/root'', le_secretTool = None, le_loadRun = ExecFails,
     le_statFails = False, le_readFault = ReadOk [], le_random = None, le_saveRun = ExecFails, le_tokenTmp = ''/t0'',
     le_tokenFault = NoFault, le_aliasReadFails = False, le_unmarshal = (\<lambda>_. Some witness_aliases),
     le_marshal = (\<lambda>st. if st = witness_aliases then Some ''A'' else None), le_aliasTmp = ''/t1'', le_aliasFault = NoFault\<rparr>"

definition witness_platform :: string where
  "witness_platform = ''Linux'' @ newline # ''x86_64'' @ newline # ''/root'' @ [newline]"

definition witness_setup_world :: "(string, nat, unit) setup_world" where
  "witness_setup_world = \<lparr>su_flags = \<lparr>gf_json = False, gf_noColor = False, gf_quiet = True, gf_verbose = False\<rparr>, su_version = ''dev'',
     su_quote = id, su_client = Inr witness_known, su_session = (\<lambda>_ _. None),
     su_remote = (\<lambda>c cmd input r. (exec_ok (if cmd = detectCommand then witness_platform else []), r)),
     su_versionField = (\<lambda>_. None), su_temp = Some ''/tmp/b'', su_build = (\<lambda>_ _. Inr ''ELF''), su_tempWrite = None,
     su_tempCloseFails = False, su_readFails = False, su_get = (\<lambda>_. GetFails []), su_sha256 = id, su_untar = (\<lambda>_. Inl []),
     su_local = witness_local\<rparr>"

definition witness_boot :: "(nat, unit) boot" where
  "witness_boot = \<lparr>bo_conn = None, bo_kh = [], bo_remote = (), bo_fs = [''/cfg/clipbeam/token'' \<mapsto> (''ABC'', mode0600)],
     bo_tmps = (\<lambda>_. None), bo_io = \<lparr>st_out = [], st_err = []\<rparr>, bo_log = []\<rparr>"

definition witness_options0 :: setup_options where
  "witness_options0 = \<lparr>so_serve = [], so_acceptNew = True, so_force = False, so_fromRelease = False\<rparr>"

lemma witness_dialed:
  assumes "bo_conn s \<in> {None, Some 7}"
  shows "setup_dial witness_setup_world witness_known witness_setup_target s = (Inr 7, s\<lparr>bo_conn := Some 7\<rparr>)"
proof -
  have a: "target_addr witness_setup_target = ''h:22''" by code_simp
  have "client_Dial witness_known (\<lambda>_. None) witness_setup_target (bo_conn s) (bo_kh s) = (Inr 7, Some 7, bo_kh s)"
    using assms unfolding client_Dial_def client_ssh_def a
    by (auto simp: witness_known_def witness_client_def auth_methods_def merged_callback_def witness_dialer_def
        hostkey_callback_def Let_def)
  then show ?thesis by (simp add: setup_dial_def witness_setup_world_def)
qed

lemma witness_detected: "parsePlatform id (tg_user witness_setup_target) witness_platform = Inr (''linux'', ''amd64'', ''/root'')"
proof -
  have "trim_right_cutset witness_platform [newline] = ''Linux'' @ newline # ''x86_64'' @ newline # ''/root''"
    by (simp add: trim_right_cutset_def witness_platform_def)
  then have l: "split_on newline (trim_right_cutset witness_platform [newline]) = [''Linux'', ''x86_64'', ''/root'']"
    by (simp add: split_on_append split_on_notin)
  have s: "trim_space ''Linux'' = ''Linux''" "trim_space ''x86_64'' = ''x86_64''" "trim_space ''/root'' = ''/root''"
    by (rule trim_space_id, simp add: graphic_def)+
  have w: "lower_word ''Linux'' = ''linux''" "lower_word ''x86_64'' = ''x86_64''" by code_simp+
  have u: "unameToGOOS ''Linux'' = Some ''linux''" "unameToGOARCH ''x86_64'' = Some ''amd64''"
    unfolding unameToGOOS_def unameToGOARCH_def Let_def s w by simp_all
  show ?thesis
    unfolding parsePlatform_def Let_def l by (simp add: u s has_prefix_def)
qed

definition witness_paths :: paths where
  "witness_paths = the (local_paths witness_local)"

lemma witness_layout: "local_paths witness_local = Some witness_paths" "pa_token witness_paths = ''/cfg/clipbeam/token''"
  "pa_aliases witness_paths = ''/cfg/clipbeam/aliases.json''"
  by code_simp+

lemma witness_local_store: "local_store witness_local witness_paths = Inr (FileTokenStore ''/cfg/clipbeam/token'')"
  by code_simp

text \<open>A run of the witness, step by step, from any state that holds the token.\<close>

definition witness_state :: "(nat, unit) boot \<Rightarrow> bool" where
  "witness_state s \<longleftrightarrow> bo_conn s \<in> {None, Some 7} \<and> bo_fs s ''/cfg/clipbeam/token'' = Some (''ABC'', mode0600)
     \<and> bo_fs s ''/cfg/clipbeam/aliases.json'' \<in> {None, Some (''A'', mode0600)} \<and> bo_fs s ''/t0'' = None \<and> bo_fs s ''/t1'' = None
     \<and> bo_tmps s = (\<lambda>_. None)"

lemma witness_fields:
  "su_temp witness_setup_world = Some ''/tmp/b''" "su_build witness_setup_world goos goarch = Inr ''ELF''"
  "su_readFails witness_setup_world = False" "su_local witness_setup_world = witness_local"
  "su_client witness_setup_world = Inr witness_known" "su_version witness_setup_world = ''dev''"
  by (simp_all add: witness_setup_world_def)

lemma witness_must_run:
  "must_run witness_setup_world c cmd input x what s =
     (Inr (if cmd = detectCommand then witness_platform else []), s\<lparr>bo_log := bo_log s @ [(cmd, input)]\<rparr>)"
  by (simp add: must_run_def setup_run_def witness_setup_world_def session_Run_def exec_ok_def writeAndClose_def Let_def)

lemma witness_dial_coded:
  "bo_conn s \<in> {None, Some 7} \<Longrightarrow>
     dial_coded witness_setup_world witness_known witness_setup_target s = (Inr 7, s\<lparr>bo_conn := Some 7\<rparr>)"
  by (simp add: dial_coded_def witness_dialed)

lemma witness_says: "says witness_setup_world m s = (Inr (), s)"
  by (simp add: says_def witness_setup_world_def diag_def)

lemma witness_detect:
  "bo_conn s \<in> {None, Some 7} \<Longrightarrow> detectRemotePlatform witness_setup_world witness_known witness_setup_target s =
     (Inr (''linux'', ''amd64'', ''/root''), s\<lparr>bo_conn := Some 7, bo_log := bo_log s @ [(detectCommand, [])]\<rparr>)"
  using witness_detected
  by (simp add: detectRemotePlatform_def and_then_def witness_dial_coded witness_must_run) (simp add: witness_setup_world_def)

lemma witness_version:
  "bo_conn s \<in> {None, Some 7} \<Longrightarrow> remoteVersion witness_setup_world witness_known witness_setup_target bin s =
     (None, s\<lparr>bo_conn := Some 7, bo_log := bo_log s @ [(versionCommand bin, [])]\<rparr>)"
  by (simp add: remoteVersion_def witness_dialed setup_run_def)
    (simp add: witness_setup_world_def session_Run_def exec_ok_def writeAndClose_def Let_def)

lemma witness_install:
  assumes "bo_conn s \<in> {None, Some 7}" "bo_tmps s = (\<lambda>_. None)"
  shows "install witness_setup_world witness_known witness_setup_target goos goarch bin StreamInstaller s =
    (Inr (), s\<lparr>bo_conn := Some 7, bo_log := bo_log s @ [(placeCommand bin, ''ELF'')]\<rparr>)"
proof -
  have b: "buildCrossBinary witness_setup_world goos goarch s = (Inr ''/tmp/b'', set_temp ''/tmp/b'' (Some ''ELF'') (set_temp ''/tmp/b'' (Some []) s))"
    by (simp add: buildCrossBinary_def and_then_def witness_says witness_fields)
  have "streamBinary witness_setup_world witness_known witness_setup_target ''/tmp/b'' bin
      (set_temp ''/tmp/b'' (Some ''ELF'') (set_temp ''/tmp/b'' (Some []) s)) =
      (Inr (), (set_temp ''/tmp/b'' (Some ''ELF'') (set_temp ''/tmp/b'' (Some []) s))
         \<lparr>bo_conn := Some 7, bo_log := bo_log s @ [(placeCommand bin, ''ELF'')]\<rparr>)"
    using assms(1) by (simp add: streamBinary_def witness_fields and_then_def witness_dial_coded witness_must_run okay_def set_temp_def)
  then show ?thesis
    using assms(2) by (simp add: install_def stream_install_def and_then_def b removing_def set_temp_def)
qed

lemma witness_token:
  assumes "witness_state s"
  shows "ensureLocalToken witness_setup_world s = (Inr ''ABC'', s)"
proof -
  have "trim_space ''ABC'' = ''ABC''" by (rule trim_space_id) (simp add: graphic_def)
  moreover have "(bo_fs s)(''/cfg/clipbeam/token'' := Some (''ABC'', mode0600)) = bo_fs s"
    using assms by (auto simp: witness_state_def)
  ultimately have "TokenStore_Load (FileTokenStore ''/cfg/clipbeam/token'') ExecFails False (ReadOk []) (bo_fs s) = (Inr (Some ''ABC''), bo_fs s)"
    using assms by (simp add: TokenStore_Load_def file_token_Load_def witness_state_def)
  moreover have "le_loadRun witness_local = ExecFails" "\<not> le_statFails witness_local" "le_readFault witness_local = ReadOk []"
    by (simp_all add: witness_local_def)
  ultimately show ?thesis
    by (simp add: ensureLocalToken_def Let_def witness_fields witness_layout witness_local_store)
qed

lemma witness_aliases_fixed: "recordAlias witness_aliases ''h'' witness_setup_target (remote_bin ''/root'') ''exec'' = witness_aliases"
  by (simp add: witness_aliases_def recordAlias_def replaceAlias_idem)

lemma witness_record:
  assumes "witness_state s"
  shows "record_alias witness_setup_world ''h'' witness_setup_target (remote_bin ''/root'') ''exec'' s =
    (Inr (), s\<lparr>bo_fs := (bo_fs s)(''/cfg/clipbeam/aliases.json'' \<mapsto> (''A'', mode0600))\<rparr>)"
proof -
  have le: "le_aliasTmp witness_local = ''/t1''" "le_aliasFault witness_local = NoFault" "le_marshal witness_local witness_aliases = Some ''A''"
    "le_unmarshal witness_local x = Some witness_aliases" "\<not> le_aliasReadFails witness_local" for x
    by (simp_all add: witness_local_def)
  obtain st where st: "LoadAliases (le_unmarshal witness_local) witness_paths (read_file False (bo_fs s)) = Inr st"
    "recordAlias st ''h'' witness_setup_target (remote_bin ''/root'') ''exec'' = witness_aliases"
  proof (cases "bo_fs s ''/cfg/clipbeam/aliases.json''")
    case None
    then show ?thesis
      by (intro that[of "\<lparr>as_aliases = [], as_defaultAlias = []\<rparr>"])
        (simp_all add: LoadAliases_def read_file_def witness_layout witness_aliases_def)
  next
    case (Some x)
    then have "x = (''A'', mode0600)" using assms by (simp add: witness_state_def)
    then show ?thesis
      using Some by (intro that[of witness_aliases])
        (simp_all add: LoadAliases_def read_file_def witness_layout le witness_aliases_fixed)
  qed
  have "path_dir ''/cfg/clipbeam/aliases.json'' \<noteq> []" by (rule path_dir_not_Nil)
  then have "SaveAliases (le_marshal witness_local) witness_paths ''/t1'' NoFault (bo_fs s) witness_aliases =
      (None, (bo_fs s)(''/cfg/clipbeam/aliases.json'' \<mapsto> (''A'', mode0600)))"
    using assms by (auto simp: SaveAliases_def le witness_layout writeFileAtomic0600_def ensureDir0700_def Let_def witness_state_def)
  then show ?thesis
    using st le by (simp add: record_alias_def Let_def witness_fields witness_layout witness_says)
qed

definition witness_log :: "(string \<times> string) list" where
  "witness_log = [(detectCommand, []), (versionCommand (remote_bin ''/root''), []), (placeCommand (remote_bin ''/root''), ''ELF''), (tokenCommand, ''ABC'')]"

text \<open>A whole run of the witness.\<close>

lemma witness_run:
  assumes "witness_state s"
  obtains s' where "runSetupBootstrap witness_setup_world ''h'' witness_setup_target witness_options0 s = (Inr (), s')"
    "bo_log s' = bo_log s @ witness_log" "out_of s' = out_of s @ [OutData (remote_bin ''/root'')]" "witness_state s'"
    "bo_fs s' = (bo_fs s)(''/cfg/clipbeam/aliases.json'' \<mapsto> (''A'', mode0600))"
proof -
  let ?log = "[(detectCommand, []), (versionCommand (remote_bin ''/root''), []), (placeCommand (remote_bin ''/root''), ''ELF'')]"
  let ?s1 = "s\<lparr>bo_conn := Some 7, bo_log := bo_log s @ ?log\<rparr>"
  have conn: "bo_conn s \<in> {None, Some 7}" "bo_tmps s = (\<lambda>_. None)" using assms by (simp_all add: witness_state_def)
  have sel: "selectInstaller witness_options0 ''dev'' = Inr StreamInstaller" by code_simp
  have o: "so_serve witness_options0 = []" "\<not> so_force witness_options0" by (simp_all add: witness_options0_def)
  have ne: "tokenCommand \<noteq> detectCommand" by (simp add: tokenCommand_def detectCommand_def Let_def)
  have inst: "install_step witness_setup_world witness_known witness_setup_target witness_options0 ''linux'' ''amd64'' (remote_bin ''/root'') StreamInstaller
      (s\<lparr>bo_conn := Some 7, bo_log := bo_log s @ [(detectCommand, [])]\<rparr>) = (Inr (), ?s1)"
    using conn by (simp add: install_step_def needs_upload_def o witness_version and_then_def witness_install witness_says)
  have st1: "witness_state (s\<lparr>bo_conn := Some 7, bo_log := l\<rparr>)" for l using assms by (simp add: witness_state_def)
  have tail: "setup_tail witness_setup_world witness_known ''h'' witness_setup_target witness_options0 (remote_bin ''/root'') ?s1 =
      (Inr (), s\<lparr>bo_conn := Some 7, bo_log := bo_log s @ ?log @ [(tokenCommand, ''ABC'')],
         bo_fs := (bo_fs s)(''/cfg/clipbeam/aliases.json'' \<mapsto> (''A'', mode0600)), bo_io := data (remote_bin ''/root'') (bo_io s)\<rparr>)"
    using witness_record[OF st1]
    by (simp add: setup_tail_def and_then_def witness_token[OF st1] writeRemoteToken_def witness_dial_coded witness_must_run okay_def
        witness_says defaultServe_def o)
  have run: "runSetupBootstrap witness_setup_world ''h'' witness_setup_target witness_options0 s =
      (Inr (), s\<lparr>bo_conn := Some 7, bo_log := bo_log s @ ?log @ [(tokenCommand, ''ABC'')],
         bo_fs := (bo_fs s)(''/cfg/clipbeam/aliases.json'' \<mapsto> (''A'', mode0600)), bo_io := data (remote_bin ''/root'') (bo_io s)\<rparr>)"
    using conn inst tail by (simp add: runSetupBootstrap_def witness_fields sel and_then_def witness_says witness_detect)
  show ?thesis
    by (rule that[OF run]) (use assms in \<open>simp_all add: witness_log_def out_of_def data_def witness_state_def\<close>)
qed

lemma witness_boot_state: "witness_state witness_boot"
  by (simp add: witness_state_def witness_boot_def)


end
