(* ===== verification/SetupLocal.thy ===== *)
theory SetupLocal
  imports Setup
begin

text \<open>
  What a run of \<open>setup\<close> does to the local machine: the token store, the alias store, the scratch files and
  stdout, for one run and for a run after another.
\<close>

section \<open>The local files\<close>

text \<open>Names the local part of a run relies on: the token file, if the store is one, is neither the alias file
  nor a scratch file, and \<open>CreateTemp\<close> chose new names.\<close>

definition names_ok :: "local_env \<Rightarrow> paths \<Rightarrow> cfs \<Rightarrow> bool" where
  "names_ok le p fs \<longleftrightarrow>
     (case local_store le p of
        Inr (FileTokenStore path) \<Rightarrow> path \<noteq> [] \<and> path \<noteq> pa_aliases p \<and> path \<noteq> le_tokenTmp le \<and> path \<noteq> le_aliasTmp le
      | _ \<Rightarrow> True)
     \<and> le_tokenTmp le \<noteq> pa_aliases p \<and> le_aliasTmp le \<noteq> pa_aliases p
     \<and> fs (le_tokenTmp le) = None \<and> fs (le_aliasTmp le) = None"

definition random_ok :: "local_env \<Rightarrow> bool" where
  "random_ok le \<longleftrightarrow> (\<forall>b. le_random le = Some b \<longrightarrow> length b = tokenRandomBytes)"

lemma alphabet_graphic: "c \<in> set base32Alphabet \<Longrightarrow> graphic c"
proof -
  have "list_all graphic base32Alphabet" by code_simp
  then show "c \<in> set base32Alphabet \<Longrightarrow> graphic c" by (simp add: list_all_iff)
qed

lemma MakeToken_trimmed:
  assumes "random_ok le" "MakeToken (le_random le) = Some tok"
  shows "trim_space tok = tok" "tok \<noteq> []"
proof -
  obtain b where b: "le_random le = Some b" "length b = tokenRandomBytes" using assms by (auto simp: random_ok_def MakeToken_def)
  then have "length tok = TokenChars" "set tok \<subseteq> set base32Alphabet"
    using MakeToken_entropy[of b b] assms(2) by auto
  then show "trim_space tok = tok" "tok \<noteq> []"
    using alphabet_graphic by (auto intro!: graphic_trim simp: TokenChars_def)
qed

lemma ensureLocalToken_frame:
  assumes "ensureLocalToken w s = (r, s')"
  shows "bo_tmps s' = bo_tmps s" "out_of s' = out_of s" "bo_log s' = bo_log s"
  using assms by (auto simp: ensureLocalToken_def Let_def out_of_def split: option.splits sum.splits prod.splits)

text \<open>A token store that is no file touches no file.\<close>

lemma ring_store_files:
  assumes "\<And>path. ts \<noteq> FileTokenStore path"
  shows "snd (TokenStore_Load ts run sf rf fs) = fs" "snd (TokenStore_Save ts run tmp fault tok fs) = fs"
  using assms by (cases ts; simp add: TokenStore_Load_def TokenStore_Save_def)+

lemma file_store_load:
  assumes "path \<noteq> []" "TokenStore_Load (FileTokenStore path) run sf rf fs = (l, fs1)"
  shows "\<forall>q. q \<noteq> path \<longrightarrow> fs1 q = fs q"
    "l = Inr (Some tok) \<Longrightarrow> fst (TokenStore_Load (FileTokenStore path) run' False (ReadOk []) fs1) = Inr (Some tok)"
    "l = Inr (Some tok) \<Longrightarrow> map_option fst (fs1 path) = map_option fst (fs path)"
  using assms by (auto simp: TokenStore_Load_def file_token_Load_def Let_def split: if_splits option.splits)

lemma file_store_save:
  assumes "path \<noteq> []" "path \<noteq> tmp" "fs tmp = None" "TokenStore_Save (FileTokenStore path) run tmp fault tok fs = (x, fs1)"
  shows "\<forall>q. q \<noteq> path \<longrightarrow> fs1 q = fs q" "x = None \<Longrightarrow> fs1 path = Some (tok, mode0600)"
  using assms write_atomic_cases[of tmp path fs fault tok]
  by (auto simp: TokenStore_Save_def split: option.splits)

lemma ensureLocalToken_files:
  assumes "ensureLocalToken w s = (r, s')" "local_paths (su_local w) = Some p" "names_ok (su_local w) p (bo_fs s)"
    "local_store (su_local w) p = Inr (FileTokenStore path)"
  shows "\<forall>q. q \<noteq> path \<longrightarrow> bo_fs s' q = bo_fs s q"
    "r = Inr tok \<Longrightarrow> random_ok (su_local w) \<Longrightarrow>
       fst (TokenStore_Load (FileTokenStore path) run False (ReadOk []) (bo_fs s')) = Inr (Some tok)"
proof -
  let ?le = "su_local w"
  have nm: "path \<noteq> []" "path \<noteq> le_tokenTmp ?le" "bo_fs s (le_tokenTmp ?le) = None"
    using assms(3,4) by (simp_all add: names_ok_def)
  obtain l fs1 where l: "TokenStore_Load (FileTokenStore path) (le_loadRun ?le) (le_statFails ?le) (le_readFault ?le) (bo_fs s) = (l, fs1)"
    by force
  note load = file_store_load[OF nm(1) l]
  have tmp1: "fs1 (le_tokenTmp ?le) = None" using load(1) nm by metis
  have "(\<forall>q. q \<noteq> path \<longrightarrow> bo_fs s' q = bo_fs s q) \<and> (r = Inr tok \<longrightarrow> random_ok ?le \<longrightarrow>
       fst (TokenStore_Load (FileTokenStore path) run False (ReadOk []) (bo_fs s')) = Inr (Some tok))"
  proof (cases "\<exists>tok. l = Inr (Some tok)")
    case True
    then show ?thesis using assms(1,2,4) l load by (auto simp: ensureLocalToken_def Let_def)
  next
    case False
    have e: "ensureLocalToken w s = (case MakeToken (le_random ?le) of
         None \<Rightarrow> (Inl (codedf ExitGeneric ''setup: generate token''), s\<lparr>bo_fs := fs1\<rparr>)
       | Some tok \<Rightarrow>
           (case TokenStore_Save (FileTokenStore path) (le_saveRun ?le) (le_tokenTmp ?le) (le_tokenFault ?le) tok fs1 of
              (Some e, fs2) \<Rightarrow> (Inl (configError ''setup: save local token''), s\<lparr>bo_fs := fs2\<rparr>)
            | (None, fs2) \<Rightarrow> (Inr tok, s\<lparr>bo_fs := fs2\<rparr>)))"
      using False assms(2,4) l by (auto simp: ensureLocalToken_def Let_def split: sum.split option.split)
    show ?thesis
    proof (cases "MakeToken (le_random ?le)")
      case None
      then show ?thesis using e assms(1) load(1) by auto
    next
      case (Some tk)
      obtain x fs2 where x: "TokenStore_Save (FileTokenStore path) (le_saveRun ?le) (le_tokenTmp ?le) (le_tokenFault ?le) tk fs1 = (x, fs2)"
        by force
      note save = file_store_save[OF nm(1,2) tmp1 x]
      have "random_ok ?le \<longrightarrow> trim_space tk = tk \<and> tk \<noteq> []" using MakeToken_trimmed Some by blast
      then show ?thesis
        using e assms(1) load(1) save Some x nm(1)
        by (cases x) (auto simp: TokenStore_Load_def file_token_Load_def Let_def)
    qed
  qed
  then show "\<forall>q. q \<noteq> path \<longrightarrow> bo_fs s' q = bo_fs s q"
    "r = Inr tok \<Longrightarrow> random_ok (su_local w) \<Longrightarrow>
       fst (TokenStore_Load (FileTokenStore path) run False (ReadOk []) (bo_fs s')) = Inr (Some tok)"
    by blast+
qed

lemma ensureLocalToken_others:
  assumes "ensureLocalToken w s = (r, s')" "local_paths (su_local w) = Some p" "names_ok (su_local w) p (bo_fs s)"
    "\<And>path. local_store (su_local w) p = Inr (FileTokenStore path) \<Longrightarrow> q \<noteq> path"
  shows "bo_fs s' q = bo_fs s q"
proof (cases "local_store (su_local w) p")
  case (Inl e)
  then show ?thesis using assms(1,2) by (auto simp: ensureLocalToken_def Let_def)
next
  case (Inr ts)
  show ?thesis
  proof (cases "\<exists>path. ts = FileTokenStore path")
    case True
    then show ?thesis using ensureLocalToken_files(1)[OF assms(1-3)] assms(4) Inr by blast
  next
    case False
    then show ?thesis
      using assms(1,2) Inr ring_store_files[of ts]
      by (auto simp: ensureLocalToken_def Let_def split: option.splits sum.splits prod.splits) (metis snd_conv)+
  qed
qed

text \<open>What recording does to the files: all or nothing.\<close>

definition recorded_in :: "local_env \<Rightarrow> paths \<Rightarrow> string \<Rightarrow> target \<Rightarrow> string \<Rightarrow> string \<Rightarrow> cfs \<Rightarrow> string \<Rightarrow> bool" where
  "recorded_in le p spec t bin serve fs txt \<longleftrightarrow>
     (\<exists>st. LoadAliases (le_unmarshal le) p (read_file (le_aliasReadFails le) fs) = Inr st
        \<and> le_marshal le (recordAlias st spec t bin serve) = Some txt)"

lemma record_alias_spec:
  assumes "record_alias w spec t bin serve s = (r, s')" "local_paths (su_local w) = Some p"
    "le_aliasTmp (su_local w) \<noteq> pa_aliases p" "bo_fs s (le_aliasTmp (su_local w)) = None"
  shows "bo_tmps s' = bo_tmps s" "out_of s' = out_of s" "bo_log s' = bo_log s"
    "case r of Inl e \<Rightarrow> bo_fs s' = bo_fs s
     | Inr _ \<Rightarrow> \<exists>txt. recorded_in (su_local w) p spec t bin serve (bo_fs s) txt \<and> bo_fs s' = (bo_fs s)(pa_aliases p \<mapsto> (txt, mode0600))"
proof -
  let ?le = "su_local w"
  have w: "(x, fs') = writeFileAtomic0600 (le_aliasTmp ?le) fault (bo_fs s) (pa_aliases p) content \<Longrightarrow>
      fs' = (case x of None \<Rightarrow> (bo_fs s)(pa_aliases p \<mapsto> (content, mode0600)) | Some e \<Rightarrow> bo_fs s)" for x fs' fault content
    using write_atomic_cases[of "le_aliasTmp ?le" "pa_aliases p" "bo_fs s" fault content] assms(3,4)
    by (metis (no_types, lifting) fst_conv option.case_eq_if snd_conv)
  have "bo_tmps s' = bo_tmps s \<and> out_of s' = out_of s \<and> bo_log s' = bo_log s \<and>
    (case r of Inl e \<Rightarrow> bo_fs s' = bo_fs s
     | Inr _ \<Rightarrow> \<exists>txt. recorded_in ?le p spec t bin serve (bo_fs s) txt \<and> bo_fs s' = (bo_fs s)(pa_aliases p \<mapsto> (txt, mode0600)))"
  proof (cases "LoadAliases (le_unmarshal ?le) p (read_file (le_aliasReadFails ?le) (bo_fs s))")
    case (Inl e)
    then show ?thesis using assms(1,2) by (auto simp: record_alias_def Let_def)
  next
    case (Inr st)
    show ?thesis
    proof (cases "le_marshal ?le (recordAlias st spec t bin serve)")
      case None
      then show ?thesis using assms(1,2) Inr by (auto simp: record_alias_def Let_def SaveAliases_def out_of_def)
    next
      case (Some content)
      obtain x fs' where x: "writeFileAtomic0600 (le_aliasTmp ?le) (le_aliasFault ?le) (bo_fs s) (pa_aliases p) content = (x, fs')" by force
      then show ?thesis
        using assms(1,2) Inr Some w[OF x[symmetric]]
        by (cases x) (auto simp: record_alias_def Let_def SaveAliases_def says_def out_of_def diag_def recorded_in_def)
    qed
  qed
  then show "bo_tmps s' = bo_tmps s" "out_of s' = out_of s" "bo_log s' = bo_log s"
    "case r of Inl e \<Rightarrow> bo_fs s' = bo_fs s
     | Inr _ \<Rightarrow> \<exists>txt. recorded_in (su_local w) p spec t bin serve (bo_fs s) txt \<and> bo_fs s' = (bo_fs s)(pa_aliases p \<mapsto> (txt, mode0600))"
    by blast+
qed

lemma keeps_write [frame_intros]:
  "keeps bo_fs (writeRemoteToken w env t tok)" "keeps bo_tmps (writeRemoteToken w env t tok)" "keeps out_of (writeRemoteToken w env t tok)"
  unfolding writeRemoteToken_def by (intro frame_intros)+

lemma writeRemoteToken_ok:
  assumes "writeRemoteToken w env t tok s = (Inr u, s')"
  shows "bo_log s' = bo_log s @ [(tokenCommand, tok)]"
proof -
  have "one_command (\<lambda>cmd. cmd = (tokenCommand, tok)) (writeRemoteToken w env t tok) s"
    unfolding writeRemoteToken_def by (rule one_command_dial[of _ "(tokenCommand, tok)"], rule then_okay_log, rule must_run_log) simp
  then show ?thesis by (simp add: one_command_def assms)
qed

text \<open>The steps of the last part of a run.\<close>

lemma setup_tailE:
  assumes "setup_tail w env spec t opts bin s = (r, s')"
  obtains (no_token) e where "ensureLocalToken w s = (Inl e, s')" "r = Inl e"
  | (not_written) tok s1 e where "ensureLocalToken w s = (Inr tok, s1)" "same_files s1 s'" "r = Inl e"
  | (recording) tok s1 s3 r4 s4 where "ensureLocalToken w s = (Inr tok, s1)" "same_files s1 s3" "bo_log s3 = bo_log s1 @ [(tokenCommand, tok)]"
      "record_alias w spec t bin (defaultServe (so_serve opts)) s3 = (r4, s4)"
      "case r4 of Inl e \<Rightarrow> r = Inl e \<and> s' = s4
       | Inr u \<Rightarrow> r = Inr () \<and> bo_fs s' = bo_fs s4 \<and> bo_tmps s' = bo_tmps s4 \<and> bo_log s' = bo_log s4 \<and> out_of s' = out_of s4 @ [OutData bin]"
  using assms[unfolded setup_tail_def]
proof (cases rule: and_thenE)
  case (failed e)
  then show ?thesis using no_token by blast
next
  case (went_on tok s1)
  note tok = went_on(1)
  from went_on(2) show ?thesis
  proof (cases rule: and_thenE)
    case (failed e)
    have "same_files s1 s'" using keeps_write[THEN keepsD, OF failed(1)] by (simp add: same_files_def)
    then show ?thesis using not_written tok failed(2) by blast
  next
    case (went_on u s2)
    define s3 where "s3 = snd (says w ''setup: paired token (local store + remote 0600 file)'' s2)"
    have s3: "same_files s1 s3" "bo_log s3 = bo_log s1 @ [(tokenCommand, tok)]"
      using keeps_write[THEN keepsD, OF went_on(1)] writeRemoteToken_ok[OF went_on(1)]
      by (simp_all add: s3_def same_files_def says_state)
    have "and_then (record_alias w spec t bin (defaultServe (so_serve opts)))
        (\<lambda>_. and_then (says w ''setup: done'') (\<lambda>_ s. (Inr (), s\<lparr>bo_io := data bin (bo_io s)\<rparr>))) s3 = (r, s')"
      using went_on(2) by (simp add: and_then_says[of w "''setup: paired token (local store + remote 0600 file)''"] s3_def)
    then show ?thesis
    proof (cases rule: and_thenE)
      case (failed e)
      then show ?thesis using recording[OF tok s3 failed(1)] by simp
    next
      case (went_on u s4)
      have "r = Inr () \<and> bo_fs s' = bo_fs s4 \<and> bo_tmps s' = bo_tmps s4 \<and> bo_log s' = bo_log s4 \<and> out_of s' = out_of s4 @ [OutData bin]"
        using went_on(2) says_state[of w "''setup: done''" s4]
        by (auto simp: and_then_says out_of_def data_def)
      then show ?thesis using recording[OF tok s3 went_on(1)] by simp
    qed
  qed
qed

lemma recorded_in_cong:
  "fs (pa_aliases p) = fs' (pa_aliases p) \<Longrightarrow> recorded_in le p spec t bin serve fs txt = recorded_in le p spec t bin serve fs' txt"
  by (simp add: recorded_in_def LoadAliases_def read_file_def)

text \<open>What a run does to the local side, summed up.\<close>

definition local_outcome ::
  "local_env \<Rightarrow> paths \<Rightarrow> string \<Rightarrow> target \<Rightarrow> string \<Rightarrow> ('c, 'r) boot \<Rightarrow> (cli_error, unit) result \<Rightarrow> ('c, 'r) boot \<Rightarrow> string \<Rightarrow> bool" where
  "local_outcome le p spec t serve s r s' bin \<longleftrightarrow>
     (case r of
        Inl e \<Rightarrow> out_of s' = out_of s \<and> bo_fs s' (pa_aliases p) = bo_fs s (pa_aliases p)
      | Inr _ \<Rightarrow> out_of s' = out_of s @ [OutData bin]
          \<and> (\<exists>txt. recorded_in le p spec t bin serve (bo_fs s) txt \<and> bo_fs s' (pa_aliases p) = Some (txt, mode0600))
          \<and> (\<exists>tok. bo_log s' \<noteq> [] \<and> last (bo_log s') = (tokenCommand, tok)
              \<and> (\<forall>path run. local_store le p = Inr (FileTokenStore path) \<longrightarrow>
                   fst (TokenStore_Load (FileTokenStore path) run False (ReadOk []) (bo_fs s')) = Inr (Some tok))))"

lemma file_load_cong:
  "fs path = fs' path \<Longrightarrow>
     fst (TokenStore_Load (FileTokenStore path) run sf rf fs) = fst (TokenStore_Load (FileTokenStore path) run sf rf fs')"
  by (auto simp: TokenStore_Load_def file_token_Load_def Let_def split: option.split)

lemma setup_tail_outcome:
  assumes "setup_tail w env spec t opts bin s = (r, s')" "local_paths (su_local w) = Some p" "names_ok (su_local w) p (bo_fs s)"
    "random_ok (su_local w)"
  shows "bo_tmps s' = bo_tmps s" "local_outcome (su_local w) p spec t (defaultServe (so_serve opts)) s r s' bin"
proof -
  let ?le = "su_local w"
  have al: "bo_fs s1 (pa_aliases p) = bo_fs s (pa_aliases p)" if "ensureLocalToken w s = (q, s1)" for q s1
    by (rule ensureLocalToken_others[OF that assms(2,3)]) (use assms(3) in \<open>auto simp: names_ok_def\<close>)
  have tmp: "bo_fs s1 (le_aliasTmp ?le) = None" if "ensureLocalToken w s = (q, s1)" for q s1
  proof -
    have "bo_fs s1 (le_aliasTmp ?le) = bo_fs s (le_aliasTmp ?le)"
      by (rule ensureLocalToken_others[OF that assms(2,3)]) (use assms(3) in \<open>auto simp: names_ok_def\<close>)
    then show ?thesis using assms(3) by (simp add: names_ok_def)
  qed
  have "bo_tmps s' = bo_tmps s \<and> local_outcome ?le p spec t (defaultServe (so_serve opts)) s r s' bin"
    using assms(1)
  proof (cases rule: setup_tailE)
    case (no_token e)
    then show ?thesis using ensureLocalToken_frame[OF no_token(1)] al[OF no_token(1)] by (simp add: local_outcome_def)
  next
    case (not_written tok s1 e)
    then show ?thesis
      using ensureLocalToken_frame[OF not_written(1)] al[OF not_written(1)] by (simp add: local_outcome_def same_files_def)
  next
    case (recording tok s1 s3 r4 s4)
    note fr = ensureLocalToken_frame[OF recording(1)]
    have fs3: "bo_fs s3 = bo_fs s1" "bo_tmps s3 = bo_tmps s" "out_of s3 = out_of s"
      using recording(2) fr by (simp_all add: same_files_def)
    have "le_aliasTmp ?le \<noteq> pa_aliases p" using assms(3) by (simp add: names_ok_def)
    note rec = record_alias_spec[OF recording(4) assms(2) this tmp[OF recording(1), folded fs3(1)]]
    show ?thesis
    proof (cases r4)
      case (Inl e)
      then show ?thesis using recording(5) rec fs3 al[OF recording(1)] by (simp add: local_outcome_def)
    next
      case (Inr u)
      then obtain txt' where rt: "recorded_in ?le p spec t bin (defaultServe (so_serve opts)) (bo_fs s3) txt'"
        "bo_fs s4 = (bo_fs s3)(pa_aliases p \<mapsto> (txt', mode0600))" using rec(4) by auto
      have t': "recorded_in ?le p spec t bin (defaultServe (so_serve opts)) (bo_fs s) txt'"
        using rt(1) recorded_in_cong[of "bo_fs s3" p "bo_fs s"] al[OF recording(1)] fs3(1) by simp
      have ld: "fst (TokenStore_Load (FileTokenStore path) run False (ReadOk []) (bo_fs s')) = Inr (Some tok)"
        if "local_store ?le p = Inr (FileTokenStore path)" for path run
      proof -
        have "path \<noteq> pa_aliases p" using assms(3) that by (simp add: names_ok_def)
        then have "bo_fs s' path = bo_fs s1 path" using recording(5) Inr rt(2) fs3(1) by simp
        then show ?thesis
          using ensureLocalToken_files(2)[OF recording(1) assms(2,3) that refl assms(4), of run] file_load_cong by metis
      qed
      show ?thesis
        using recording(3,5) Inr rec(1-3) rt(2) t' fs3 ld unfolding local_outcome_def by auto
    qed
  qed
  then show "bo_tmps s' = bo_tmps s" "local_outcome (su_local w) p spec t (defaultServe (so_serve opts)) s r s' bin" by blast+
qed

lemma install_step_files:
  assumes "install_step w env t opts goos goarch bin ins s = (r, s')" "\<And>tmp. su_temp w = Some tmp \<Longrightarrow> bo_tmps s tmp = None"
  shows "same_files s s'"
proof -
  obtain b s1 where n: "needs_upload w env t opts bin s = (Inr b, s1)"
    using needs_upload_frame(5)[of w env t opts bin s] by (metis prod.collapse)
  note f = needs_upload_frame(1-3)[OF n]
  show ?thesis
  proof (cases b)
    case False
    then show ?thesis using assms(1) n f by (simp add: install_step_def and_then_def okay_def same_files_def)
  next
    case True
    obtain r2 s2 where i: "install w env t goos goarch bin ins s1 = (r2, s2)" by force
    have "bo_fs s2 = bo_fs s1" "out_of s2 = out_of s1" using keeps_install[THEN keepsD, OF i] by blast+
    moreover have "bo_tmps s2 = bo_tmps s1" by (rule install_tmps[OF _ i]) (use assms(2) f in simp)
    ultimately have "same_files s s2" using f by (simp add: same_files_def)
    then show ?thesis
      using assms(1) n True i says_state[of w "''setup: placed remote binary at '' @ bin" s2]
      by (auto simp: install_step_def and_then_def[of "needs_upload w env t opts bin"] and_then_def[of "install w env t goos goarch bin ins"]
          same_files_def split: sum.splits)
  qed
qed

text \<open>The local side a run relies on.\<close>

definition local_ready :: "('k, 'c, 'r) setup_world \<Rightarrow> paths \<Rightarrow> ('c, 'r) boot \<Rightarrow> bool" where
  "local_ready w p s \<longleftrightarrow>
     local_paths (su_local w) = Some p \<and> names_ok (su_local w) p (bo_fs s) \<and> random_ok (su_local w)
     \<and> (\<forall>tmp. su_temp w = Some tmp \<longrightarrow> bo_tmps s tmp = None)"

lemma bootstrap_outcome:
  assumes "runSetupBootstrap w spec t opts s = (r, s')" "local_ready w p s"
  shows "bo_tmps s' = bo_tmps s \<and> (\<exists>home. has_prefix home ''/''
    \<and> local_outcome (su_local w) p spec t (defaultServe (so_serve opts)) s r s' (remote_bin home))"
  using assms(1)
proof (cases rule: bootstrapE)
  case (early e k)
  then show ?thesis by (intro conjI exI[of _ "''/''"]) (simp_all add: same_files_def local_outcome_def has_prefix_def)
next
  case (late ins env goos goarch home s1)
  have t1: "bo_tmps s1 tmp = None" if "su_temp w = Some tmp" for tmp
    using assms(2) that late(4) by (simp add: same_files_def local_ready_def)
  have "bo_tmps s' = bo_tmps s \<and> local_outcome (su_local w) p spec t (defaultServe (so_serve opts)) s r s' (remote_bin home)"
    using late(6)
  proof (cases rule: and_thenE)
    case (failed e)
    then show ?thesis using install_step_files[OF failed(1) t1] late(4) by (simp add: same_files_def local_outcome_def)
  next
    case (went_on u s2)
    have s2: "same_files s s2" using install_step_files[OF went_on(1) t1] late(4) by (simp add: same_files_def)
    then have "names_ok (su_local w) p (bo_fs s2)" using assms(2) by (simp add: same_files_def local_ready_def)
    then show ?thesis
      using setup_tail_outcome[OF went_on(2)] assms(2) s2
      by (simp add: same_files_def local_outcome_def local_ready_def split: sum.splits)
  qed
  then show ?thesis using late(3) by (auto simp: known_platform_def)
qed

text \<open>C20. \<open>setup\<close> is all or nothing on the local side. A run that fails prints nothing on stdout and leaves the
  alias store as it was; one that succeeds prints exactly the absolute path of the remote binary, has recorded
  the alias with it in the alias store, and, with a file token store, the token it wrote to the remote box is
  the one the local store now loads. Either way no scratch file is left.\<close>

theorem setup_outcome:
  assumes "runSetupBootstrap w spec t opts s = (r, s')" "local_ready w p s"
  shows "bo_tmps s' = bo_tmps s \<and> (\<exists>home. has_prefix home ''/'' \<and>
     (case r of
        Inl e \<Rightarrow> out_of s' = out_of s \<and> bo_fs s' (pa_aliases p) = bo_fs s (pa_aliases p)
      | Inr _ \<Rightarrow> out_of s' = out_of s @ [OutData (remote_bin home)]
          \<and> (\<exists>txt. recorded_in (su_local w) p spec t (remote_bin home) (defaultServe (so_serve opts)) (bo_fs s) txt
               \<and> bo_fs s' (pa_aliases p) = Some (txt, mode0600))
          \<and> (\<exists>tok. bo_log s' \<noteq> [] \<and> last (bo_log s') = (tokenCommand, tok)
               \<and> (\<forall>path run. local_store (su_local w) p = Inr (FileTokenStore path) \<longrightarrow>
                    fst (TokenStore_Load (FileTokenStore path) run False (ReadOk []) (bo_fs s')) = Inr (Some tok)))))"
  using bootstrap_outcome[OF assms] unfolding local_outcome_def .

text \<open>A token that cannot be loaded counts as absent: a local store that holds a token but fails to be read gets
  a new one, and the boxes paired before keep the old.\<close>

lemma failed_load_rotates_token:
  assumes "local_paths (su_local w) = Some p" "local_store (su_local w) p = Inr (FileTokenStore path)"
    "names_ok (su_local w) p (bo_fs s)" "le_statFails (su_local w)" "le_tokenFault (su_local w) = NoFault"
    "le_random (su_local w) = Some b"
  shows "fst (ensureLocalToken w s) = Inr (base32Encode b)
    \<and> bo_fs (snd (ensureLocalToken w s)) = (bo_fs s)(path \<mapsto> (base32Encode b, mode0600))"
proof -
  have nm: "path \<noteq> []" "path \<noteq> le_tokenTmp (su_local w)" "bo_fs s (le_tokenTmp (su_local w)) = None"
    using assms(2,3) by (simp_all add: names_ok_def)
  have "path_dir path \<noteq> []" by (rule path_dir_not_Nil)
  then have "writeFileAtomic0600 (le_tokenTmp (su_local w)) NoFault (bo_fs s) path (base32Encode b) =
      (None, (bo_fs s)(path \<mapsto> (base32Encode b, mode0600)))"
    using nm by (auto simp: writeFileAtomic0600_def ensureDir0700_def Let_def fun_upd_twist)
  then show ?thesis
    using assms nm(1) by (simp add: ensureLocalToken_def Let_def TokenStore_Load_def file_token_Load_def MakeToken_def TokenStore_Save_def)
qed

lemma file_load_content:
  "map_option fst (fs path) = map_option fst (fs' path) \<Longrightarrow> rf \<noteq> ReadFails \<Longrightarrow>
     fst (TokenStore_Load (FileTokenStore path) run False rf fs) = fst (TokenStore_Load (FileTokenStore path) run' False (ReadOk []) fs')"
  by (cases "fs path"; cases "fs' path") (auto simp: TokenStore_Load_def file_token_Load_def Let_def split: prod.splits)

text \<open>A token that loads is kept.\<close>

definition healthy :: "local_env \<Rightarrow> bool" where
  "healthy le \<longleftrightarrow> \<not> le_statFails le \<and> le_readFault le \<noteq> ReadFails"

lemma ensureLocalToken_keeps:
  assumes "ensureLocalToken w s = (r, s')" "local_paths (su_local w) = Some p" "local_store (su_local w) p = Inr (FileTokenStore path)"
    "path \<noteq> []" "healthy (su_local w)"
    "fst (TokenStore_Load (FileTokenStore path) run False (ReadOk []) (bo_fs s)) = Inr (Some tok)"
  shows "map_option fst (bo_fs s' path) = map_option fst (bo_fs s path)"
proof -
  let ?le = "su_local w"
  obtain l fs1 where l: "TokenStore_Load (FileTokenStore path) (le_loadRun ?le) (le_statFails ?le) (le_readFault ?le) (bo_fs s) = (l, fs1)"
    by force
  have "l = Inr (Some tok)"
    using file_load_content[of "bo_fs s" path "bo_fs s" "le_readFault ?le" "le_loadRun ?le" run] assms(5,6) l
    by (simp add: healthy_def)
  then show ?thesis
    using assms(1-3) l file_store_load(3)[OF assms(4) l] by (auto simp: ensureLocalToken_def Let_def)
qed

lemma bootstrap_keeps_token:
  assumes "runSetupBootstrap w spec t opts s = (r, s')" "local_ready w p s" "local_store (su_local w) p = Inr (FileTokenStore path)"
    "healthy (su_local w)" "fst (TokenStore_Load (FileTokenStore path) run False (ReadOk []) (bo_fs s)) = Inr (Some tok)"
  shows "map_option fst (bo_fs s' path) = map_option fst (bo_fs s path)"
  using assms(1)
proof (cases rule: bootstrapE)
  case (early e k)
  then show ?thesis by (simp add: same_files_def)
next
  case (late ins env goos goarch home s1)
  have p: "local_paths (su_local w) = Some p" "path \<noteq> []" "path \<noteq> pa_aliases p"
    using assms(2,3) by (simp_all add: local_ready_def names_ok_def)
  have t1: "bo_tmps s1 tmp = None" if "su_temp w = Some tmp" for tmp
    using assms(2) that late(4) by (simp add: same_files_def local_ready_def)
  from late(6) show ?thesis
  proof (cases rule: and_thenE)
    case (failed e)
    then show ?thesis using install_step_files[OF failed(1) t1] late(4) by (simp add: same_files_def)
  next
    case (went_on u s2)
    have fs2: "bo_fs s2 = bo_fs s" using install_step_files[OF went_on(1) t1] late(4) by (simp add: same_files_def)
    have tok: "map_option fst (bo_fs s3 path) = map_option fst (bo_fs s path)" "bo_fs s3 (le_aliasTmp (su_local w)) = None"
      if "ensureLocalToken w s2 = (q, s3)" for q s3
    proof -
      show "map_option fst (bo_fs s3 path) = map_option fst (bo_fs s path)"
        using ensureLocalToken_keeps[OF that p(1) assms(3) p(2) assms(4)] assms(5) fs2 by simp
      have "names_ok (su_local w) p (bo_fs s2)" using assms(2) fs2 by (simp add: local_ready_def)
      from ensureLocalToken_others[OF that p(1) this, of "le_aliasTmp (su_local w)"]
      show "bo_fs s3 (le_aliasTmp (su_local w)) = None"
        using assms(2,3) fs2 by (auto simp: local_ready_def names_ok_def)
    qed
    from went_on(2) show ?thesis
    proof (cases rule: setup_tailE)
      case (no_token e)
      then show ?thesis using tok(1) by blast
    next
      case (not_written tok s3 e)
      then show ?thesis using tok(1) by (simp add: same_files_def)
    next
      case (recording tok s3 s4 r5 s5)
      have fs4: "bo_fs s4 = bo_fs s3" using recording(2) by (simp add: same_files_def)
      have "le_aliasTmp (su_local w) \<noteq> pa_aliases p" using assms(2) by (simp add: local_ready_def names_ok_def)
      from record_alias_spec(4)[OF recording(4) p(1) this] have "bo_fs s5 path = bo_fs s3 path"
        using tok(2)[OF recording(1)] fs4 p(3) by (auto split: sum.splits)
      then show ?thesis using recording(5) tok(1)[OF recording(1)] by (simp split: sum.splits)
    qed
  qed
qed

text \<open>C38. Running \<open>setup\<close> again. With the same layout and a readable token file, a second run that succeeds after a
  first one pairs the same token; when it finds the same remote path, and the alias file decodes to what was
  encoded, it leaves the alias file as it was. (A store that fails to load is not read but overwritten with a
  new token, see the lemma above.)\<close>

theorem setup_rerun:
  assumes "runSetupBootstrap w spec t opts s = (Inr (), s1)" "runSetupBootstrap w' spec t opts s1 = (Inr (), s2)"
    "local_ready w p s" "local_ready w' p s1" "healthy (su_local w')"
    "local_store (su_local w) p = Inr (FileTokenStore path)" "local_store (su_local w') p = Inr (FileTokenStore path)"
    "le_marshal (su_local w') = le_marshal (su_local w)"
    "\<And>st txt. le_marshal (su_local w) st = Some txt \<Longrightarrow> le_unmarshal (su_local w') txt = Some st"
  shows "snd (last (bo_log s2)) = snd (last (bo_log s1)) \<and> map_option fst (bo_fs s2 path) = map_option fst (bo_fs s1 path)
    \<and> (last (out_of s2) = last (out_of s1) \<longrightarrow> bo_fs s2 (pa_aliases p) = bo_fs s1 (pa_aliases p))"
proof -
  let ?serve = "defaultServe (so_serve opts)"
  obtain h1 tok1 c1 where o1: "out_of s1 = out_of s @ [OutData (remote_bin h1)]" "last (bo_log s1) = (tokenCommand, tok1)"
    "recorded_in (su_local w) p spec t (remote_bin h1) ?serve (bo_fs s) c1" "bo_fs s1 (pa_aliases p) = Some (c1, mode0600)"
    and l1: "fst (TokenStore_Load (FileTokenStore path) run False (ReadOk []) (bo_fs s1)) = Inr (Some tok1)" for run
    using bootstrap_outcome[OF assms(1,3)] assms(6) unfolding local_outcome_def by auto
  obtain h2 tok2 c2 where o2: "out_of s2 = out_of s1 @ [OutData (remote_bin h2)]" "last (bo_log s2) = (tokenCommand, tok2)"
    "recorded_in (su_local w') p spec t (remote_bin h2) ?serve (bo_fs s1) c2" "bo_fs s2 (pa_aliases p) = Some (c2, mode0600)"
    and l2: "fst (TokenStore_Load (FileTokenStore path) run False (ReadOk []) (bo_fs s2)) = Inr (Some tok2)" for run
    using bootstrap_outcome[OF assms(2,4)] assms(7) unfolding local_outcome_def by auto
  have content: "map_option fst (bo_fs s2 path) = map_option fst (bo_fs s1 path)"
    by (rule bootstrap_keeps_token[OF assms(2,4,7,5) l1])
  then have "tok2 = tok1"
    using file_load_content[of "bo_fs s2" path "bo_fs s1" "ReadOk []" ExecFails ExecFails] l1[of ExecFails] l2[of ExecFails] by simp
  moreover have "c2 = c1" if "remote_bin h2 = remote_bin h1"
  proof -
    obtain st where st: "le_marshal (su_local w) (recordAlias st spec t (remote_bin h1) ?serve) = Some c1"
      using o1(3) by (auto simp: recorded_in_def)
    have "recordAlias (recordAlias st spec t (remote_bin h1) ?serve) spec t (remote_bin h1) ?serve
        = recordAlias st spec t (remote_bin h1) ?serve"
      by (simp add: recordAlias_def replaceAlias_idem)
    moreover have "le_marshal (su_local w) (recordAlias (recordAlias st spec t (remote_bin h1) ?serve) spec t (remote_bin h1) ?serve) = Some c2"
      using o2(3) o1(4) assms(8) assms(9)[OF st] that
      by (auto simp: recorded_in_def LoadAliases_def read_file_def split: if_splits)
    ultimately show ?thesis using st by simp
  qed
  ultimately show ?thesis using content o1 o2 by simp
qed

section \<open>Witnesses\<close>

lemma witness_ready: "witness_state s \<Longrightarrow> local_ready witness_setup_world witness_paths s"
  by (simp add: local_ready_def witness_fields witness_layout names_ok_def witness_local_store witness_state_def)
    (simp add: witness_local_def random_ok_def)

theorem setup_outcome_witness:
  "\<exists>s' content. runSetupBootstrap witness_setup_world ''h'' witness_setup_target witness_options0 witness_boot = (Inr (), s')
    \<and> out_of s' = [OutData (remote_bin ''/root'')] \<and> bo_fs s' (pa_aliases witness_paths) = Some (content, mode0600)"
proof -
  obtain s' where r: "runSetupBootstrap witness_setup_world ''h'' witness_setup_target witness_options0 witness_boot = (Inr (), s')"
    and o: "out_of s' = out_of witness_boot @ [OutData (remote_bin ''/root'')]" by (rule witness_run[OF witness_boot_state])
  from setup_outcome[OF r witness_ready[OF witness_boot_state]] obtain content where
    "bo_fs s' (pa_aliases witness_paths) = Some (content, mode0600)" by auto
  then show ?thesis using r o by (auto simp: witness_boot_def out_of_def)
qed

theorem setup_rerun_witness:
  "\<exists>s1 s2. runSetupBootstrap witness_setup_world ''h'' witness_setup_target witness_options0 witness_boot = (Inr (), s1)
    \<and> runSetupBootstrap witness_setup_world ''h'' witness_setup_target witness_options0 s1 = (Inr (), s2)
    \<and> bo_fs s2 (pa_aliases witness_paths) = bo_fs s1 (pa_aliases witness_paths) \<and> snd (last (bo_log s2)) = ''ABC''"
proof -
  obtain s1 where r1: "runSetupBootstrap witness_setup_world ''h'' witness_setup_target witness_options0 witness_boot = (Inr (), s1)"
    and l1: "bo_log s1 = bo_log witness_boot @ witness_log" "out_of s1 = out_of witness_boot @ [OutData (remote_bin ''/root'')]"
    and w1: "witness_state s1" by (rule witness_run[OF witness_boot_state])
  obtain s2 where r2: "runSetupBootstrap witness_setup_world ''h'' witness_setup_target witness_options0 s1 = (Inr (), s2)"
    and l2: "out_of s2 = out_of s1 @ [OutData (remote_bin ''/root'')]" by (rule witness_run[OF w1])
  have st: "local_store (su_local witness_setup_world) witness_paths = Inr (FileTokenStore ''/cfg/clipbeam/token'')"
    by (simp add: witness_fields witness_local_store)
  have h: "healthy (su_local witness_setup_world)" by (simp add: healthy_def witness_fields) (simp add: witness_local_def)
  have c: "le_marshal (su_local witness_setup_world) x = Some content \<Longrightarrow> le_unmarshal (su_local witness_setup_world) content = Some x" for x content
    by (simp add: witness_fields) (simp add: witness_local_def split: if_splits)
  from setup_rerun[OF r1 r2 witness_ready[OF witness_boot_state] witness_ready[OF w1] h st st refl c] r1 r2 l1 l2
  show ?thesis by (auto simp: witness_log_def)
qed

end
