(* ===== verification/Server.thy ===== *)
theory Server
  imports Httpd
begin

text \<open>
  The daemon as one function (\<open>routes.go\<close>, \<open>routes\<close>): a request goes to the handler registered for its path. What
  the multiplexer answers to any other path (404, or a redirect to a cleaned path) is a parameter, as are the
  blocking calls of the store and the local files. A run is a list of requests.
\<close>

section \<open>The routes\<close>

record 's server_env =
  sv_ops :: "'s receive_store"
  sv_scratch :: scratch_env
  sv_clipText :: "clip_failure \<Rightarrow> string"
  sv_pushText :: "ingest_error \<Rightarrow> string"
  sv_open :: "string \<Rightarrow> string + source"
  sv_recv :: "int \<Rightarrow> 's \<Rightarrow> (string, agent_item option) result \<times> 's"
  sv_wait :: "int \<Rightarrow> 's \<Rightarrow> (string, string) result \<times> 's"
  sv_last :: "'s \<Rightarrow> string option"
  sv_host :: string
  sv_platform :: string
  sv_unrouted :: "string \<Rightarrow> http_response"

definition on_store :: "('s \<Rightarrow> (http_response \<times> 's) option) \<Rightarrow> 's route_state \<Rightarrow> (http_response \<times> 's route_state) option" where
  "on_store h st = (let (s, sc, slot) = st in map_option (\<lambda>(resp, s'). (resp, s', sc, slot)) (h s))"

datatype route = HealthRoute | ClipRoute | PushRoute | AgentSendRoute | RecvRoute | LastRoute | WaitRoute

definition route_of :: "string \<Rightarrow> route option" where
  "route_of path =
     (if path = ''/health'' then Some HealthRoute
      else if path = ''/clip'' then Some ClipRoute
      else if path = ''/push'' then Some PushRoute
      else if path = ''/agent-send'' then Some AgentSendRoute
      else if path = ''/recv'' then Some RecvRoute
      else if path = ''/last'' then Some LastRoute
      else if path = ''/wait'' then Some WaitRoute
      else None)"

definition handler :: "'s server_env \<Rightarrow> server_options \<Rightarrow> route \<Rightarrow> request \<Rightarrow> 's route_state \<Rightarrow> (http_response \<times> 's route_state) option" where
  "handler sv opts rt r st =
     (case rt of
        HealthRoute \<Rightarrow> Some (handleHealth opts r (sv_host sv) (sv_platform sv), st)
      | ClipRoute \<Rightarrow> handleClip (sv_ops sv) (sv_scratch sv) (sv_clipText sv) opts r st
      | PushRoute \<Rightarrow> on_store (handlePush (sv_ops sv) (sv_pushText sv) opts (sv_open sv) r) st
      | AgentSendRoute \<Rightarrow> on_store (handleAgentSend (sv_ops sv) (sv_clipText sv) opts (sv_open sv) r) st
      | RecvRoute \<Rightarrow> on_store (\<lambda>s. Some (handleRecv opts r (sv_recv sv) s)) st
      | LastRoute \<Rightarrow> on_store (\<lambda>s. Some (handleLast opts r (sv_last sv s), s)) st
      | WaitRoute \<Rightarrow> on_store (\<lambda>s. Some (handleWait opts r (sv_wait sv) s)) st)"

definition routes :: "'s server_env \<Rightarrow> server_options \<Rightarrow> string \<Rightarrow> request \<Rightarrow> 's route_state \<Rightarrow> (http_response \<times> 's route_state) option" where
  "routes sv opts path r st =
     (case route_of path of Some rt \<Rightarrow> handler sv opts rt r st | None \<Rightarrow> Some (sv_unrouted sv path, st))"

fun serve_all ::
  "'s server_env \<Rightarrow> server_options \<Rightarrow> (string \<times> request) list \<Rightarrow> 's route_state \<Rightarrow> (http_response list \<times> 's route_state) option" where
  "serve_all sv opts [] st = Some ([], st)"
| "serve_all sv opts ((path, r) # rs) st =
     (case routes sv opts path r st of
        None \<Rightarrow> None
      | Some (resp, st1) \<Rightarrow> map_option (\<lambda>(resps, st2). (resp # resps, st2)) (serve_all sv opts rs st1))"

section \<open>Who gets to a handler\<close>

text \<open>The verdict of the gate of a route, and its method.\<close>

definition route_gate :: "server_options \<Rightarrow> route \<Rightarrow> request \<Rightarrow> nat \<times> string" where
  "route_gate opts rt r =
     (case rt of HealthRoute \<Rightarrow> (0, []) | ClipRoute \<Rightarrow> clipGate opts r | _ \<Rightarrow> controlAuthorized opts r)"

definition route_method :: "route \<Rightarrow> string" where
  "route_method rt = (if rt \<in> {ClipRoute, PushRoute, AgentSendRoute} then ''POST'' else ''GET'')"

text \<open>What a request gets that the method or the gate refuses.\<close>

definition refusal :: "server_options \<Rightarrow> route \<Rightarrow> request \<Rightarrow> http_response" where
  "refusal opts rt r =
     (if rq_method r \<noteq> route_method rt then writeError 405 ''method not allowed''
      else writeError (fst (route_gate opts rt r)) (snd (route_gate opts rt r)))"

lemma handler_refused:
  assumes "rq_method r \<noteq> route_method rt \<or> fst (route_gate opts rt r) \<noteq> 0"
  shows "handler sv opts rt r st = Some (refusal opts rt r, st)"
proof -
  obtain s sc slot where st: "st = (s, sc, slot)" by (metis prod_cases3)
  obtain cs cr ks kr where g: "clipGate opts r = (cs, cr)" "controlAuthorized opts r = (ks, kr)" by fastforce
  show ?thesis
  proof (cases rt)
    case ClipRoute
    then show ?thesis using assms by (auto simp: handler_def refusal_def route_method_def route_gate_def st g handleClip_def Let_def)
  next
    case PushRoute
    then show ?thesis
      using assms by (auto simp: handler_def refusal_def route_method_def route_gate_def st g on_store_def handlePush_def Let_def)
  next
    case AgentSendRoute
    then show ?thesis
      using assms by (auto simp: handler_def refusal_def route_method_def route_gate_def st g on_store_def handleAgentSend_def Let_def)
  qed (use assms in \<open>auto simp: handler_def refusal_def route_method_def route_gate_def st g on_store_def handleRecv_def handleLast_def
        handleWait_def handleHealth_def Let_def\<close>)
qed

lemma handler_keeps_slot:
  assumes "handler sv opts rt r (s, sc, slot) = Some (resp, s', sc', slot')"
  shows "slot' = slot"
proof (cases "rt = ClipRoute")
  case True
  then have "handleClip (sv_ops sv) (sv_scratch sv) (sv_clipText sv) opts r (s, sc, slot) = Some (resp, s', sc', slot')"
    using assms by (simp add: handler_def)
  then show ?thesis by (cases rule: handleClip_cases) auto
next
  case False
  then show ?thesis using assms by (cases rt) (auto simp: handler_def on_store_def split: prod.splits)
qed

lemma handler_reads: "rt \<in> {HealthRoute, LastRoute} \<Longrightarrow> handler sv opts rt r st = Some (resp, st') \<Longrightarrow> st' = st"
  by (cases st) (auto simp: handler_def on_store_def)

lemma refusal_status:
  "rq_method r \<noteq> route_method rt \<or> fst (route_gate opts rt r) \<noteq> 0 \<Longrightarrow> rp_status (refusal opts rt r) \<in> {401, 403, 405}"
  using gates_status[of opts r] by (cases rt) (auto simp: refusal_def route_gate_def)

text \<open>A request without the token, on a bind where its route asks for one.\<close>

definition tokenless :: "server_options \<Rightarrow> string \<times> request \<Rightarrow> bool" where
  "tokenless opts = (\<lambda>(path, r).
     (so_listen opts \<noteq> ListenUnixSocket \<or> path = ''/clip'') \<and> headerPtr r tokenHeader \<noteq> Some (so_token opts))"

text \<open>The answer to it.\<close>

definition closed_answer :: "'s server_env \<Rightarrow> server_options \<Rightarrow> string \<times> request \<Rightarrow> http_response" where
  "closed_answer sv opts = (\<lambda>(path, r).
     (case route_of path of
        None \<Rightarrow> sv_unrouted sv path
      | Some HealthRoute \<Rightarrow> handleHealth opts r (sv_host sv) (sv_platform sv)
      | Some rt \<Rightarrow> refusal opts rt r))"

lemma tokenless_refused:
  assumes "tokenless opts (path, r)" "route_of path = Some rt" "rt \<noteq> HealthRoute"
  shows "fst (route_gate opts rt r) \<noteq> 0"
  using assms
  by (auto simp: tokenless_def route_of_def route_gate_def clipGate_class controlAuthorized_class token_verdict_def split: if_splits)

lemma tokenless_closed:
  assumes "tokenless opts pr"
  shows "routes sv opts (fst pr) (snd pr) st = Some (closed_answer sv opts pr, st)"
proof (cases "route_of (fst pr)")
  case None
  then show ?thesis by (cases pr) (simp add: routes_def closed_answer_def)
next
  case (Some rt)
  show ?thesis
  proof (cases "rt = HealthRoute")
    case True
    then show ?thesis using Some by (cases pr) (simp add: routes_def closed_answer_def handler_def)
  next
    case False
    then have "fst (route_gate opts rt (snd pr)) \<noteq> 0" using tokenless_refused assms Some by (cases pr) auto
    then have "handler sv opts rt (snd pr) st = Some (refusal opts rt (snd pr), st)" by (intro handler_refused) simp
    then show ?thesis using Some False by (cases pr; cases rt) (simp_all add: routes_def closed_answer_def)
  qed
qed

lemma tokenless_run: "\<forall>pr\<in>set rs. tokenless opts pr \<Longrightarrow> serve_all sv opts rs st = Some (map (closed_answer sv opts) rs, st)"
proof (induction rs)
  case (Cons pr rs)
  then show ?case using tokenless_closed[of opts pr sv st] by (cases pr) simp
qed simp

section \<open>Properties\<close>

text \<open>C2. Without the token the daemon is closed. On a TCP bind (for the clip route on every bind), take any sequence
  of requests none of which carries the token in its first header value, from whatever addresses, and whatever
  the store and the local files are: the run ends and store, scratch files and slot are as before; and the
  answers do not depend on them, so they reveal nothing: they are those of \<open>/health\<close>, of the multiplexer for a path
  that is not registered, or a refusal with status 401, 403 or 405. Every single request that changes the state had
  the method of its route and passed its gate, and was not \<open>/last\<close>; and none leaves the slot taken.\<close>

theorem closed_without_token:
  "((\<forall>pr\<in>set rs. tokenless opts pr) \<longrightarrow>
      serve_all sv opts rs st = Some (map (closed_answer sv opts) rs, st)
      \<and> (\<forall>(path, r)\<in>set rs. \<forall>rt. route_of path = Some rt \<longrightarrow> rt \<noteq> HealthRoute \<longrightarrow>
          rp_status (closed_answer sv opts (path, r)) \<in> {401, 403, 405}))
   \<and> (routes sv opts path r (s, sc, slot) = Some (resp, s', sc', slot') \<longrightarrow>
        slot' = slot \<and>
        ((s', sc') \<noteq> (s, sc) \<longrightarrow>
          (\<exists>rt. route_of path = Some rt \<and> rt \<notin> {HealthRoute, LastRoute} \<and> rq_method r = route_method rt
            \<and> fst (route_gate opts rt r) = 0)))"
proof (intro conjI impI)
  assume t: "\<forall>pr\<in>set rs. tokenless opts pr"
  then show "serve_all sv opts rs st = Some (map (closed_answer sv opts) rs, st)" by (rule tokenless_run)
  have "rp_status (closed_answer sv opts (path, r)) \<in> {401, 403, 405}"
    if "(path, r) \<in> set rs" and rt: "route_of path = Some rt" "rt \<noteq> HealthRoute" for path r rt
  proof -
    have "fst (route_gate opts rt r) \<noteq> 0" using that t tokenless_refused by blast
    then have "rp_status (refusal opts rt r) \<in> {401, 403, 405}" by (intro refusal_status) simp
    then show ?thesis using rt by (cases rt) (simp_all add: closed_answer_def)
  qed
  then show "\<forall>(path, r)\<in>set rs. \<forall>rt. route_of path = Some rt \<longrightarrow> rt \<noteq> HealthRoute \<longrightarrow>
      rp_status (closed_answer sv opts (path, r)) \<in> {401, 403, 405}" by blast
next
  assume run: "routes sv opts path r (s, sc, slot) = Some (resp, s', sc', slot')"
  show "slot' = slot"
  proof (cases "route_of path")
    case (Some rt)
    then show ?thesis using run handler_keeps_slot[of sv opts rt r s sc slot resp s' sc' slot'] by (simp add: routes_def)
  qed (use run in \<open>simp add: routes_def\<close>)
  assume ch: "(s', sc') \<noteq> (s, sc)"
  then obtain rt where rt: "route_of path = Some rt" and h: "handler sv opts rt r (s, sc, slot) = Some (resp, s', sc', slot')"
    using run by (auto simp: routes_def split: option.splits)
  have "rt \<notin> {HealthRoute, LastRoute}" using handler_reads[of rt sv opts r "(s, sc, slot)"] h ch by blast
  moreover have "rq_method r = route_method rt \<and> fst (route_gate opts rt r) = 0"
  proof (rule ccontr)
    assume "\<not> (rq_method r = route_method rt \<and> fst (route_gate opts rt r) = 0)"
    then have "handler sv opts rt r (s, sc, slot) = Some (refusal opts rt r, s, sc, slot)" by (intro handler_refused) simp
    then show False using h ch by simp
  qed
  ultimately show "\<exists>rt. route_of path = Some rt \<and> rt \<notin> {HealthRoute, LastRoute} \<and> rq_method r = route_method rt
      \<and> fst (route_gate opts rt r) = 0" using rt by blast
qed

definition witness_server :: "unit server_env" where
  "witness_server = \<lparr>sv_ops = witness_store_ops, sv_scratch = witness_scratch, sv_clipText = (\<lambda>x. []), sv_pushText = (\<lambda>x. []),
     sv_open = (\<lambda>p. Inl []), sv_recv = (\<lambda>w s. (Inr None, s)), sv_wait = (\<lambda>w s. (Inr [], s)), sv_last = (\<lambda>s. Some ''/secret''),
     sv_host = ''h'', sv_platform = ''linux'', sv_unrouted = (\<lambda>p. writeError 404 ''not found'')\<rparr>"

definition witness_stranger :: request where
  "witness_stranger = witness_request\<lparr>rq_header := (\<lambda>k. [])\<rparr>"

theorem closed_without_token_witness:
  "serve_all witness_server (witness_options\<lparr>so_listen := ListenLoopbackTCP\<rparr>)
      [(''/last'', witness_stranger), (''/clip'', witness_stranger), (''/nothing'', witness_stranger)] ((), \<lparr>sc_files = [], sc_next = 0\<rparr>, False) =
    Some (map (closed_answer witness_server (witness_options\<lparr>so_listen := ListenLoopbackTCP\<rparr>))
      [(''/last'', witness_stranger), (''/clip'', witness_stranger), (''/nothing'', witness_stranger)], ((), \<lparr>sc_files = [], sc_next = 0\<rparr>, False))"
proof -
  have "tokenless (witness_options\<lparr>so_listen := ListenLoopbackTCP\<rparr>) (path, witness_stranger)" for path
    by (simp add: tokenless_def witness_stranger_def headerPtr_def)
  then have "\<forall>pr\<in>set [(''/last'', witness_stranger), (''/clip'', witness_stranger), (''/nothing'', witness_stranger)].
      tokenless (witness_options\<lparr>so_listen := ListenLoopbackTCP\<rparr>) pr" by simp
  from conjunct1[OF mp[OF conjunct1[OF closed_without_token] this]] show ?thesis .
qed

end
