(* ===== verification/Daemon.thy ===== *)
theory Daemon
  imports Server RecvBody
begin

text \<open>
  The daemon over the concrete store (\<open>routes.go\<close> on \<open>concrete.go\<close>): the routes of the server theory with the
  operations of the store itself. Requests are served one after the other, so a receive that finds the queue empty
  parks, sees its window run out and takes itself off the list again (\<open>waiters.go\<close>); the interleavings of parked
  receivers are the subject of the waiters theory. The agent channel is then a plain queue.
\<close>

section \<open>The receive of one caller\<close>

text \<open>\<open>recv\<close> when no item comes before the context is done.\<close>

definition fifo_recv :: "'a fifo \<Rightarrow> 'a option \<times> 'a fifo" where
  "fifo_recv f =
     (case recv_begin f of
        (Inl x, f') \<Rightarrow> (Some x, f')
      | (Inr ch, f') \<Rightarrow> chan_take ch (removeWaiter ch f'))"

definition Recv :: "store \<Rightarrow> agent_item option \<times> store" where
  "Recv st = (let (x, f) = fifo_recv (rs_agent st) in (x, st\<lparr>rs_agent := f\<rparr>))"

text \<open>The daemon: what is left open is the environment of the store's calls, the scratch files, local files, the
  wait of \<open>/wait\<close> and the texts of errors.\<close>

definition daemon :: "(nat \<Rightarrow> call_env) \<Rightarrow> (store \<times> nat) server_env \<Rightarrow> (store \<times> nat) server_env" where
  "daemon env sv = sv\<lparr>sv_ops := concrete_ops env,
     sv_recv := (\<lambda>w (st, n). let (x, st') = Recv st in (Inr x, (st', n))),
     sv_last := (\<lambda>(st, n). LastPath st)\<rparr>"

section \<open>The queue it promises\<close>

datatype agent_act = SendText string | Receive | Elsewhere

datatype agent_answer = Accepted | TooLong | Got "agent_item option" | Whatever

definition text_item :: "string \<Rightarrow> agent_item" where
  "text_item t = \<lparr>ai_type = ''text'', ai_sender = [], ai_path = None, ai_text = Some t\<rparr>"

fun queue_run :: "int \<Rightarrow> agent_act list \<Rightarrow> agent_item list \<Rightarrow> agent_answer list \<times> agent_item list" where
  "queue_run cap [] q = ([], q)"
| "queue_run cap (SendText t # as) q =
     (if int (length t) \<le> cap
      then (let (xs, q') = queue_run cap as (q @ [text_item t]) in (Accepted # xs, q'))
      else (let (xs, q') = queue_run cap as q in (TooLong # xs, q')))"
| "queue_run cap (Receive # as) q =
     (case q of
        [] \<Rightarrow> (let (xs, q') = queue_run cap as [] in (Got None # xs, q'))
      | it # its \<Rightarrow> (let (xs, q') = queue_run cap as its in (Got (Some it) # xs, q')))"
| "queue_run cap (Elsewhere # as) q = (let (xs, q') = queue_run cap as q in (Whatever # xs, q'))"

text \<open>The requests that are such an act: a text for the agent channel with its whole body (of declared length or
  chunked), a receive, both let in by the gate; or a request that is none of the store's business.\<close>

definition realizes :: "server_options \<Rightarrow> agent_act \<Rightarrow> string \<times> request \<Rightarrow> bool" where
  "realizes opts a = (\<lambda>(path, r).
     case a of
       SendText t \<Rightarrow> path = ''/agent-send'' \<and> rq_method r = ''POST'' \<and> fst (controlAuthorized opts r) = 0
         \<and> headerOr r ''X-ClipBeam-Kind'' ''clipboard'' = KindText
         \<and> headerOr r ''X-ClipBeam-Channel'' ChannelClipboard = ChannelAgent
         \<and> rq_body r = (t, CleanEOF) \<and> rq_length r \<in> {- 1, int (length t)}
     | Receive \<Rightarrow> path = ''/recv'' \<and> rq_method r = ''GET'' \<and> fst (controlAuthorized opts r) = 0
     | Elsewhere \<Rightarrow> route_of path \<in> {None, Some HealthRoute, Some LastRoute} \<or> tokenless opts (path, r))"

text \<open>What a reader makes of the text.\<close>

definition read_text :: "string \<Rightarrow> recv_item" where
  "read_text t = (let (tx, cid) = extractCid (received_text t) in
     \<lparr>ri_type = ''text'', ri_sender = [], ri_path = [], ri_text = tx, ri_hasText = True, ri_cid = cid\<rparr>)"

text \<open>A response that gives an answer. With the journal on, an item that could not be journaled is queued all the
  same, and its sender is told of the failure.\<close>

definition gives :: "bool \<Rightarrow> agent_answer \<Rightarrow> http_response \<Rightarrow> bool" where
  "gives journaling x resp =
     (case x of
        Accepted \<Rightarrow> resp = writeSentItems 1 \<or> journaling \<and> rp_status resp = 500
      | TooLong \<Rightarrow> resp = write413
      | Got None \<Rightarrow> resp = noContent
      | Got (Some it) \<Rightarrow> resp = writeRecvBody it \<and> (\<forall>t. it = text_item t \<longrightarrow> parseRecvBody (rp_body resp) = read_text t)
      | Whatever \<Rightarrow> True)"

section \<open>One request\<close>

definition quiet :: "'a fifo \<Rightarrow> bool" where
  "quiet f \<longleftrightarrow> waiters f = [] \<and> (\<forall>c. next_chan f \<le> c \<longrightarrow> chans f c = None)"

lemma enqueue_quiet: "quiet f \<Longrightarrow> enqueue xs f = f\<lparr>queue := queue f @ xs\<rparr>"
  by (cases f) (simp add: quiet_def enqueue_def)

lemma fifo_recv_quiet:
  assumes "quiet f"
  shows "fst (fifo_recv f) = (case queue f of [] \<Rightarrow> None | x # xs \<Rightarrow> Some x) \<and> queue (snd (fifo_recv f)) = tl (queue f)
    \<and> quiet (snd (fifo_recv f))"
  using assms by (cases "queue f") (auto simp: quiet_def fifo_recv_def recv_begin_def chan_take_def removeWaiter_def)

text \<open>The states the daemon goes through: the queue, and the settings that stay.\<close>

definition holds_queue :: "bool \<Rightarrow> agent_item list \<Rightarrow> store \<Rightarrow> bool" where
  "holds_queue journaling q st \<longleftrightarrow>
     quiet (rs_agent st) \<and> queue (rs_agent st) = q \<and> cfg_JournalAgentItems (rs_cfg st) = journaling"

lemma newConcrete_holds_queue: "holds_queue (cfg_JournalAgentItems cfg) [] (newConcrete cfg fs)"
  by (simp add: holds_queue_def quiet_def newConcrete_def fifo_empty_def)

lemma Recv_queue:
  assumes "holds_queue j q st"
  shows "\<exists>st'. Recv st = (case q of [] \<Rightarrow> None | x # xs \<Rightarrow> Some x, st') \<and> holds_queue j (tl q) st'"
proof -
  obtain x f where r: "fifo_recv (rs_agent st) = (x, f)" by fastforce
  show ?thesis using assms fifo_recv_quiet[of "rs_agent st"] by (auto simp: Recv_def r holds_queue_def)
qed

lemma EnqueueAgentText_queue:
  assumes "holds_queue j q st"
  shows "\<exists>res st'. EnqueueAgentText jenv st [] t = (res, st') \<and> holds_queue j (q @ [text_item t]) st' \<and> (j \<or> res = Inr ())"
  using assms
  by (auto simp: EnqueueAgentText_def journal_item_def holds_queue_def enqueue_quiet quiet_def text_item_def Let_def split: prod.splits)

lemma read_text_item: "parseRecvBody (recvBodyString (text_item t)) = read_text t"
  using recv_body_text[of "''text''" "[]" t] by (simp add: text_item_def read_text_def split: prod.splits)

lemma ceiling_above: "0 < n \<Longrightarrow> n < 2 ^ 61 \<Longrightarrow> n \<le> HardCeiling n"
  using HardCeiling_exact[of n] by simp

text \<open>The outcome of a text within the cap, and of one above it.\<close>

lemma send_one_text:
  assumes "holds_queue j q st" and "it = one_item KindText [] ChannelAgent \<lparr>src_data = t, src_fails = False\<rparr>"
  shows "\<exists>resp st' m. send_one (concrete_ops env) err_text opts it (st, n) = Some (resp, (st', m))
    \<and> (if int (length t) \<le> srv_maxBytes opts
        then holds_queue j (q @ [text_item t]) st' \<and> gives j Accepted resp
        else holds_queue j q st' \<and> resp = write413)"
proof (cases "int (length t) \<le> srv_maxBytes opts")
  case True
  obtain res st' where e: "EnqueueAgentText (ce_journal (env n)) st [] t = (res, st')"
    and st': "holds_queue j (q @ [text_item t]) st'" "j \<or> res = Inr ()"
    using EnqueueAgentText_queue[OF assms(1)] by blast
  have "gives j Accepted (writeClipError err_text (FromIngest (classifyStoreErr x)))" if j for x
    using that by (simp add: gives_def classifyStoreErr_def writeClipError_def clip_status_def)
  then show ?thesis
    using True st' by (cases res) (auto simp: send_one_def assms(2) one_item_def Ingest_def ingestAgent_def readText_def senderOf_def
        concrete_ops_def e ok_response_def gives_def KindText_def ChannelAgent_def KindImage_def KindFile_def)
next
  case False
  then show ?thesis
    using assms(1) by (auto simp: send_one_def assms(2) one_item_def Ingest_def ingestAgent_def readText_def
        writeClipError_def clip_status_def KindText_def ChannelAgent_def KindImage_def KindFile_def)
qed

lemma agent_send_step:
  assumes r: "realizes opts (SendText t) (path, r)" and q: "holds_queue j q st"
    and cap: "so_maxBytes opts < 2 ^ 61"
  shows "\<exists>resp st' m. routes (daemon env sv) opts path r ((st, n), sc, slot) = Some (resp, (st', m), sc, slot)
    \<and> (if int (length t) \<le> srv_maxBytes opts
        then holds_queue j (q @ [text_item t]) st' \<and> gives j Accepted resp
        else holds_queue j q st' \<and> resp = write413)"
proof -
  let ?cap = "srv_maxBytes opts" and ?err = "sv_clipText sv"
  let ?item = "one_item KindText [] ChannelAgent \<lparr>src_data = t, src_fails = False\<rparr>"
  have c: "?cap \<le> HardCeiling ?cap"
    using cap by (intro ceiling_above) (simp_all add: srv_maxBytes_def DefaultMaxBytes_def)
  have rt: "route_of path = Some AgentSendRoute" and m: "rq_method r = ''POST''" and g: "fst (controlAuthorized opts r) = 0"
    and k: "headerOr r ''X-ClipBeam-Kind'' ''clipboard'' = KindText"
    and ch: "headerOr r ''X-ClipBeam-Channel'' ChannelClipboard = ChannelAgent"
    and b: "rq_body r = (t, CleanEOF)" and l: "rq_length r = - 1 \<or> rq_length r = int (length t)"
    using r by (auto simp: realizes_def route_of_def)
  have h: "routes (daemon env sv) opts path r ((st, n), sc, slot) =
      on_store (agentSendText (concrete_ops env) ?err opts r ChannelAgent) ((st, n), sc, slot)"
  proof -
    obtain reason where "controlAuthorized opts r = (0, reason)" using g by (metis prod.collapse)
    then have "handleAgentSend (concrete_ops env) ?err opts op r = agentSendText (concrete_ops env) ?err opts r ChannelAgent" for op
      using m k by (intro ext) (simp add: handleAgentSend_def ch Let_def)
    then show ?thesis by (simp add: routes_def rt handler_def daemon_def)
  qed
  show ?thesis
  proof (cases "HardCeiling ?cap < int (length t)")
    case True
    then have "agentSendText (concrete_ops env) ?err opts r ChannelAgent (st, n) = Some (write413, st, n)"
      using l c by (auto simp: agentSendText_def b max_bytes_reader_def Let_def srv_maxBytes_def DefaultMaxBytes_def)
    then show ?thesis using True c q by (simp add: h on_store_def)
  next
    case False
    then have "agentSendText (concrete_ops env) ?err opts r ChannelAgent (st, n) =
        send_one (concrete_ops env) ?err opts ?item (st, n)"
      using l c by (auto simp: agentSendText_def b max_bytes_reader_def Let_def)
    then show ?thesis
      using send_one_text[OF q refl, of env ?err opts t n] by (fastforce simp: h on_store_def)
  qed
qed

lemma recv_step:
  assumes "realizes opts Receive (path, r)" and q: "holds_queue j q st"
  shows "\<exists>resp st' m. routes (daemon env sv) opts path r ((st, n), sc, slot) = Some (resp, (st', m), sc, slot)
    \<and> holds_queue j (tl q) st' \<and> gives j (Got (case q of [] \<Rightarrow> None | x # xs \<Rightarrow> Some x)) resp"
proof -
  obtain st' where s: "Recv st = (case q of [] \<Rightarrow> None | x # xs \<Rightarrow> Some x, st')" "holds_queue j (tl q) st'"
    using Recv_queue[OF q] by blast
  have "routes (daemon env sv) opts path r ((st, n), sc, slot) =
      Some (case q of [] \<Rightarrow> noContent | x # xs \<Rightarrow> writeRecvBody x, (st', n), sc, slot)"
    using assms(1) s(1) by (auto simp: realizes_def routes_def route_of_def handler_def daemon_def on_store_def handleRecv_def
        split: prod.splits list.splits)
  then show ?thesis using s(2) by (auto simp: gives_def writeRecvBody_def read_text_item split: list.splits)
qed

lemma elsewhere_step:
  assumes "realizes opts Elsewhere (path, r)"
  shows "\<exists>resp. routes (daemon env sv) opts path r st = Some (resp, st)"
proof (cases "tokenless opts (path, r)")
  case True
  then show ?thesis using tokenless_closed[OF True, of "daemon env sv" st] by simp
next
  case False
  then show ?thesis using assms by (cases st) (auto simp: realizes_def routes_def handler_def on_store_def)
qed

text \<open>One act: the simulation square.\<close>

lemma agent_step:
  assumes "so_maxBytes opts < 2 ^ 61" and "realizes opts a (path, r)" and "holds_queue j q st"
  shows "\<exists>resp st' m x q1. routes (daemon env sv) opts path r ((st, n), sc, slot) = Some (resp, (st', m), sc, slot)
    \<and> holds_queue j q1 st' \<and> gives j x resp
    \<and> (\<forall>acts. queue_run (srv_maxBytes opts) (a # acts) q =
        (x # fst (queue_run (srv_maxBytes opts) acts q1), snd (queue_run (srv_maxBytes opts) acts q1)))"
proof (cases a)
  case (SendText t)
  obtain resp st' m where s: "routes (daemon env sv) opts path r ((st, n), sc, slot) = Some (resp, (st', m), sc, slot)"
    "if int (length t) \<le> srv_maxBytes opts then holds_queue j (q @ [text_item t]) st' \<and> gives j Accepted resp
     else holds_queue j q st' \<and> resp = write413"
    using agent_send_step[OF _ assms(3,1), of t path r env sv n sc slot] assms(2) SendText by blast
  show ?thesis
  proof (cases "int (length t) \<le> srv_maxBytes opts")
    case True
    then show ?thesis using s unfolding SendText
      by (intro exI[of _ resp] exI[of _ st'] exI[of _ m] exI[of _ Accepted] exI[of _ "q @ [text_item t]"])
        (simp split: prod.splits)
  next
    case False
    then show ?thesis using s unfolding SendText
      by (intro exI[of _ resp] exI[of _ st'] exI[of _ m] exI[of _ TooLong] exI[of _ q]) (simp add: gives_def split: prod.splits)
  qed
next
  case Receive
  obtain resp st' m where "routes (daemon env sv) opts path r ((st, n), sc, slot) = Some (resp, (st', m), sc, slot)"
    "holds_queue j (tl q) st'" "gives j (Got (case q of [] \<Rightarrow> None | x # xs \<Rightarrow> Some x)) resp"
    using recv_step[of opts path r j q st env sv n sc slot] assms(2,3) Receive by blast
  then show ?thesis unfolding Receive
    by (intro exI[of _ resp] exI[of _ st'] exI[of _ m] exI[of _ "Got (case q of [] \<Rightarrow> None | x # xs \<Rightarrow> Some x)"] exI[of _ "tl q"])
      (simp split: prod.splits list.splits)
next
  case Elsewhere
  obtain resp where "routes (daemon env sv) opts path r ((st, n), sc, slot) = Some (resp, (st, n), sc, slot)"
    using elsewhere_step[of opts path r env sv "((st, n), sc, slot)"] assms(2) Elsewhere by blast
  then show ?thesis using assms(3) unfolding Elsewhere
    by (intro exI[of _ resp] exI[of _ st] exI[of _ n] exI[of _ Whatever] exI[of _ q]) (simp add: gives_def split: prod.splits)
qed

section \<open>Properties\<close>


text \<open>Two texts in and out again in order.\<close>

definition witness_daemon :: "(store \<times> nat) server_env" where
  "witness_daemon = \<lparr>sv_ops = concrete_ops (\<lambda>k. witness_call), sv_scratch = witness_scratch, sv_clipText = (\<lambda>x. []), sv_pushText = (\<lambda>x. []),
     sv_open = (\<lambda>p. Inl []), sv_recv = (\<lambda>w s. (Inr None, s)), sv_wait = (\<lambda>w s. (Inr [], s)), sv_last = (\<lambda>s. None),
     sv_host = ''h'', sv_platform = ''linux'', sv_unrouted = (\<lambda>p. writeError 404 ''not found'')\<rparr>"

definition witness_agent_request :: "string \<Rightarrow> string \<Rightarrow> request" where
  "witness_agent_request meth body = \<lparr>rq_method = meth, rq_remote = [],
     rq_header = (\<lambda>k. if k = ''X-ClipBeam-Channel'' then [''agent''] else if k = ''X-ClipBeam-Kind'' then [''text''] else []),
     rq_query = (\<lambda>k. []), rq_length = int (length body), rq_body = (body, CleanEOF)\<rparr>"


end
