(* ===== verification/Serve.thy ===== *)
theory Serve
  imports ReadVerbs Config
begin

text \<open>
  Starting the daemon: \<open>serve\<close> (\<open>verbs_serve.go\<close>), the listeners of the server (\<open>httpd.go\<close>,
  \<open>socket_unix.go\<close>), and the client the local commands build (\<open>loadControl\<close>, \<open>verbs_read.go\<close>). The machine
  (environment, files, helper programs and their failures) and the life of net/http are parameters.
\<close>

section \<open>The listeners\<close>

text \<open>\<open>itoa\<close> of a port: digits are written backwards into a buffer of five bytes; \<open>None\<close> is an index out of
  range.\<close>

fun port_loop :: "nat \<Rightarrow> nat \<Rightarrow> string \<Rightarrow> string option" where
  "port_loop 0 p buf = (if p > 0 then None else Some buf)"
| "port_loop (Suc i) p buf = (if p > 0 then port_loop i (p div 10) (byte (48 + p mod 10) # buf) else Some buf)"

definition itoa_port :: "nat \<Rightarrow> string option" where
  "itoa_port p = (if p = 0 then Some ''0'' else port_loop 5 p [])"

datatype listen_addr = UnixAddr string | TcpAddr string

definition listen_target :: "ListenKind \<Rightarrow> string \<Rightarrow> nat \<Rightarrow> listen_addr option" where
  "listen_target kind socketPath port =
     (case kind of
        ListenUnixSocket \<Rightarrow> Some (UnixAddr socketPath)
      | ListenLoopbackTCP \<Rightarrow> map_option (\<lambda>d. TcpAddr (join_host_port ''127.0.0.1'' d)) (itoa_port port)
      | ListenTailscale \<Rightarrow> map_option (\<lambda>d. TcpAddr (join_host_port ''::'' d)) (itoa_port port))"

text \<open>What is at the path of the socket (its owner and mode) and the umask of the process; the user of the
  process, and which system calls fail. 127 is the umask 0177 and 511 the mode 0777 a socket asks for. \<open>se_foreignStat\<close> is a platform whose \<open>Stat\<close> has no owner.\<close>

record socket_state =
  sk_entry :: "(nat \<times> int) option"
  sk_umask :: int

record socket_env =
  se_uid :: nat
  se_mkdirFails :: bool
  se_lstatFails :: bool
  se_foreignStat :: bool
  se_removeFails :: bool
  se_bindFails :: bool
  se_chmodFails :: bool

definition socket_check :: "socket_env \<Rightarrow> socket_state \<Rightarrow> string option \<times> socket_state" where
  "socket_check e st =
     (if se_lstatFails e then (Some ''stat socket'', st)
      else case sk_entry st of
        None \<Rightarrow> (None, st)
      | Some (uid, m) \<Rightarrow>
          if se_foreignStat e then (Some ''cannot stat existing socket'', st)
          else if uid \<noteq> se_uid e then (Some ''refusing to bind socket'', st)
          else if se_removeFails e then (Some ''unlink stale socket'', st)
          else (None, st\<lparr>sk_entry := None\<rparr>))"

definition listenUnixSocket :: "socket_env \<Rightarrow> string \<Rightarrow> socket_state \<Rightarrow> string option \<times> socket_state" where
  "listenUnixSocket e path st =
     (if path = [] then (Some ''empty unix socket path'', st)
      else if se_mkdirFails e then (Some ''create socket dir'', st)
      else case socket_check e st of
        (Some m, st1) \<Rightarrow> (Some m, st1)
      | (None, st1) \<Rightarrow>
          let old = sk_umask st1;
              st2 = st1\<lparr>sk_umask := 127\<rparr>;
              st3 = (if se_bindFails e then st2 else st2\<lparr>sk_entry := Some (se_uid e, 511 AND NOT (sk_umask st2))\<rparr>);
              st4 = st3\<lparr>sk_umask := old\<rparr> in
          if se_bindFails e then (Some ''bind unix socket'', st4)
          else if se_chmodFails e then (Some ''chmod socket'', st4\<lparr>sk_entry := None\<rparr>)
          else (None, st4\<lparr>sk_entry := map_option (\<lambda>(u, m). (u, int mode0600)) (sk_entry st4)\<rparr>))"

section \<open>The machine\<close>

record machine =
  ma_os :: goos
  ma_getenv :: "string \<Rightarrow> string"
  ma_home :: string
  ma_secretTool :: "string option"
  ma_loadRun :: exec_result
  ma_statFails :: bool
  ma_readFault :: read_outcome
  ma_fs :: cfs
  ma_readConfig :: "string \<Rightarrow> read_outcome"
  ma_unmarshal :: "string \<Rightarrow> config_data \<Rightarrow> config_data option"
  ma_dirFault :: cfg_fault
  ma_version :: string

definition machine_paths :: "machine \<Rightarrow> paths option" where
  "machine_paths ma = Resolve (ma_os ma) (ma_getenv ma) (ma_home ma)"

definition machine_config :: "machine \<Rightarrow> (cfg_error, config_data) result" where
  "machine_config ma = Load (ma_unmarshal ma) (machine_paths ma) (ma_readConfig ma)"

definition machine_socket :: "machine \<Rightarrow> string option" where
  "machine_socket ma = controlSocketPath (ma_getenv ma ''XDG_RUNTIME_DIR'') (Some (ma_home ma))"

text \<open>The token: no store, a failing one and an empty one all give no token.\<close>

definition machine_token :: "machine \<Rightarrow> paths \<Rightarrow> string" where
  "machine_token ma p =
     (case OpenTokenStore (ma_os ma) (ma_getenv ma) (ma_secretTool ma) (ma_home ma) TokenStoreAuto p of
        Inl e \<Rightarrow> []
      | Inr ts \<Rightarrow>
          (case fst (TokenStore_Load ts (ma_loadRun ma) (ma_statFails ma) (ma_readFault ma) (ma_fs ma)) of
             Inr (Some tok) \<Rightarrow> tok | _ \<Rightarrow> []))"

definition no_home :: cli_error where
  "no_home = configError ''clipbeam: cannot resolve home directory''"

definition loadControl :: "machine \<Rightarrow> (string \<Rightarrow> bool) \<Rightarrow> (cli_error, control_client) result" where
  "loadControl ma stat_ok =
     (case machine_config ma of
        Inl e \<Rightarrow> Inl (configError ''config'')
      | Inr cfg \<Rightarrow>
          (case machine_paths ma of
             None \<Rightarrow> Inl no_home
           | Some p \<Rightarrow> Inr (newControlClient (machine_socket ma) stat_ok (cf_port cfg) (machine_token ma p))))"

section \<open>serve\<close>

text \<open>The host of the peer the clip route admits: of the default peer, or of the first when none is set.\<close>

fun peer_host :: "(string \<times> string \<times> string) list \<Rightarrow> string \<Rightarrow> string" where
  "peer_host [] dflt = []"
| "peer_host ((pid, host, name0) # ps) dflt = (if pid = dflt \<or> dflt = [] then host else peer_host ps dflt)"

definition resolveListen :: "string \<Rightarrow> machine \<Rightarrow> config_data \<Rightarrow> (cli_error, ListenKind \<times> string \<times> string) result" where
  "resolveListen listen ma cfg =
     (if listen = ''socket'' \<or> listen = [] then
        (case machine_socket ma of None \<Rightarrow> Inl no_home | Some sock \<Rightarrow> Inr (ListenUnixSocket, sock, []))
      else if listen = ''tcp'' then Inr (ListenLoopbackTCP, [], [])
      else if listen = ''tailscale'' then Inr (ListenTailscale, [], peer_host (cf_peers cfg) (cf_defaultPeerID cfg))
      else Inl (usageError (''serve: --listen must be socket | tcp | tailscale (got '' @ listen @ '')'')))"

text \<open>What \<open>serve\<close> sets up before it binds.\<close>

record serve_plan =
  pl_options :: server_options
  pl_socket :: string
  pl_port :: nat
  pl_store :: store_config
  pl_config :: config_data

definition make_plan :: "machine \<Rightarrow> config_data \<Rightarrow> paths \<Rightarrow> ListenKind \<times> string \<times> string \<Rightarrow> string \<Rightarrow> serve_plan" where
  "make_plan ma cfg p = (\<lambda>(kind, socketPath, peerHost) saveDir.
     \<lparr>pl_options = \<lparr>so_token = machine_token ma p, so_listen = kind, so_peerHost = peerHost, so_maxBytes = cf_maxBytes cfg, so_version = ma_version ma\<rparr>,
      pl_socket = socketPath, pl_port = cf_port cfg,
      pl_store = \<lparr>cfg_SaveDir = saveDir, cfg_AgentInboxDir = pa_agentInbox p, cfg_LastPathFile = pa_lastPath p,
        cfg_RecentsFile = pa_recents p, cfg_SaveTextToDisk = cf_saveTextToDisk cfg,
        cfg_LongTextThreshold = cf_longTextThreshold cfg, cfg_MaxBytes = cf_maxBytes cfg, cfg_JournalAgentItems = False\<rparr>,
      pl_config = cfg\<rparr>)"

definition plan_serve :: "machine \<Rightarrow> string \<Rightarrow> bool \<Rightarrow> (cli_error, serve_plan) result" where
  "plan_serve ma listen setClipboard =
     (case machine_config ma of
        Inl e \<Rightarrow> Inl (configError ''config'')
      | Inr cfg0 \<Rightarrow>
          let cfg = (if setClipboard then cfg0\<lparr>cf_linuxClipboard := True\<rparr> else cfg0) in
          (case machine_paths ma of
             None \<Rightarrow> Inl no_home
           | Some p \<Rightarrow>
               (case resolveListen listen ma cfg of
                  Inl e \<Rightarrow> Inl e
                | Inr l \<Rightarrow>
                    if fst l \<noteq> ListenUnixSocket \<and> machine_token ma p = [] then
                      Inl (configError (''serve --listen '' @ listen @ '' requires a shared token; run `clipbeam setup` first''))
                    else (case ResolvedSaveDir (Some p) (ma_home ma) (ma_dirFault ma) cfg of
                      Inl e \<Rightarrow> Inl (configError ''save dir'')
                    | Inr saveDir \<Rightarrow> Inr (make_plan ma cfg p l saveDir)))))"

text \<open>The run: the announcement, the bind (\<open>listening\<close> is its error, if any, for the address) and the serving
  until the signal (\<open>serving\<close> its error, nothing for a closed server).\<close>

definition serve_banner :: "serve_plan \<Rightarrow> string" where
  "serve_banner pl =
     (case so_listen (pl_options pl) of
        ListenUnixSocket \<Rightarrow> ''serve: listening on unix socket '' @ pl_socket pl @ '' (0600; token-free)''
      | ListenLoopbackTCP \<Rightarrow> ''serve: listening on 127.0.0.1:'' @ decimal (pl_port pl) @ '' (token required on control endpoints)''
      | ListenTailscale \<Rightarrow> ''serve: listening on [::]:'' @ decimal (pl_port pl) @ '' for Tier-1 /clip (exact-peer-IP + token)'')"

definition plan_target :: "serve_plan \<Rightarrow> listen_addr option" where
  "plan_target pl = listen_target (so_listen (pl_options pl)) (pl_socket pl) (pl_port pl)"

definition machine_config_ok :: "machine \<Rightarrow> bool" where
  "machine_config_ok ma = (case machine_config ma of Inl e \<Rightarrow> False | Inr cfg \<Rightarrow> True)"

definition runServe ::
  "machine \<Rightarrow> global_flags \<Rightarrow> (listen_addr \<Rightarrow> string option) \<Rightarrow> string option \<Rightarrow> string \<Rightarrow> bool \<Rightarrow> streams \<Rightarrow> verb_result" where
  "runServe ma g listening serving listen setClipboard st =
     (let st0 = (if setClipboard \<and> machine_config_ok ma then
           trace g ''serve: best-effort X/Wayland clipboard set enabled for this run'' st else st) in
      case plan_serve ma listen setClipboard of
        Inl e \<Rightarrow> (Some e, st0)
      | Inr pl \<Rightarrow>
          let st1 = diag g (serve_banner pl) st0 in
          case listening (the (plan_target pl)) of
            Some m \<Rightarrow> (Some (codedf ExitGeneric m), st1)
          | None \<Rightarrow>
              (case serving of
                 Some m \<Rightarrow> (Some (codedf ExitGeneric m), st1)
               | None \<Rightarrow> (None, diag g ''serve: shut down cleanly'' st1)))"

section \<open>Lemmas\<close>

lemma port_loop_decimal: "p < 10 ^ i \<Longrightarrow> port_loop i p buf = Some ((if p = 0 then [] else decimal p) @ buf)"
proof (induction i arbitrary: p buf)
  case (Suc i)
  show ?case
  proof (cases "p < 10")
    case True
    then show ?thesis by (cases i) (simp_all add: decimal.simps[of p] digit_char_def)
  next
    case False
    then have "p div 10 < 10 ^ i" "p div 10 \<noteq> 0" using Suc.prems by (auto simp: div_greater_zero_iff)
    then show ?thesis using Suc.IH False by (simp add: decimal.simps[of p] digit_char_def)
  qed
qed simp

lemma itoa_port_decimal: "p < 65536 \<Longrightarrow> itoa_port p = Some (decimal p)"
  using port_loop_decimal[of p 5 "[]"] decimal_0 by (simp add: itoa_port_def)

lemma resolveListen_ok:
  assumes "resolveListen listen ma cfg = Inr (kind, sock, peer)"
  shows "kind = ListenUnixSocket \<Longrightarrow> machine_socket ma = Some sock" "kind = ListenLoopbackTCP \<Longrightarrow> peer = []"
    "kind = ListenTailscale \<Longrightarrow> peer = peer_host (cf_peers cfg) (cf_defaultPeerID cfg)"
  using assms by (auto simp: resolveListen_def split: if_splits option.splits)

lemma plan_serveE:
  assumes "plan_serve ma listen clip = Inr pl"
  obtains cfg p where "machine_config ma = Inr cfg" "machine_paths ma = Some p" "pl_port pl = cf_port cfg"
    "so_token (pl_options pl) = machine_token ma p" "so_listen (pl_options pl) \<noteq> ListenUnixSocket \<longrightarrow> machine_token ma p \<noteq> []"
    "so_listen (pl_options pl) = ListenUnixSocket \<longrightarrow> machine_socket ma = Some (pl_socket pl)"
    "so_listen (pl_options pl) = ListenLoopbackTCP \<longrightarrow> so_peerHost (pl_options pl) = []"
    "so_listen (pl_options pl) = ListenTailscale \<longrightarrow> so_peerHost (pl_options pl) = peer_host (cf_peers cfg) (cf_defaultPeerID cfg)"
proof -
  obtain cfg0 p where c: "machine_config ma = Inr cfg0" "machine_paths ma = Some p"
    using assms by (auto simp: plan_serve_def Let_def split: sum.splits option.splits)
  define cfg where "cfg = (if clip then cfg0\<lparr>cf_linuxClipboard := True\<rparr> else cfg0)"
  have same: "cf_port cfg = cf_port cfg0" "cf_peers cfg = cf_peers cfg0" "cf_defaultPeerID cfg = cf_defaultPeerID cfg0"
    by (simp_all add: cfg_def)
  obtain l dir where l: "resolveListen listen ma cfg = Inr l" "\<not> (fst l \<noteq> ListenUnixSocket \<and> machine_token ma p = [])"
    "pl = make_plan ma cfg p l dir"
    using assms c by (auto simp: plan_serve_def Let_def simp flip: cfg_def split: sum.splits if_splits)
  obtain kind sock peer where k: "l = (kind, sock, peer)" by (cases l) auto
  show ?thesis
    by (rule that[OF c]) (use l resolveListen_ok[of listen ma cfg kind sock peer] same in \<open>auto simp: k make_plan_def\<close>)
qed

lemma loopback_class:
  assumes "zone_ok z" "remote \<in> {plain_remote (quad_of [127, 0, 0, 1]) port, mapped_remote (quad_of [127, 0, 0, 1]) z port}"
    "parseIP peer \<noteq> Some (A4 [127, 0, 0, 1])"
  shows "Classify (RemoteEndpoint remote) peer = Loopback"
proof -
  have o: "octets [127, 0, 0, 1]" by (simp add: octets_def)
  have "parseIP (RemoteEndpoint remote) = Some (A4 [127, 0, 0, 1])"
    using assms(2) parseIP_quad[OF o] parseIP_mapped[OF o assms(1)]
    by (auto simp: RemoteEndpoint_plain RemoteEndpoint_mapped)
  then show ?thesis using assms(3) by (simp add: Classify_def is_loopback_def unmap_def)
qed

lemma parseIP_empty: "parseIP [] = None"
  by code_simp

lemma authorized_loopback:
  assumes "so_listen opts \<noteq> ListenUnixSocket" "cc_overTCP c" "cc_token c = so_token opts" "so_token opts \<noteq> []"
    "Classify (RemoteEndpoint remote) (so_peerHost opts) = Loopback"
  shows "controlAuthorized opts (get_request c remote q) = (0, [])"
  using assms by (simp add: controlAuthorized_class token_verdict_def headerPtr_def get_request_def remoteHost_def)

section \<open>Properties\<close>

text \<open>C22. The daemon and the local commands meet. When \<open>serve\<close> gets as far as binding, the commands on the
  same machine build a client for it: over the unix socket of the same path, once the socket is there, where
  every control request is authorised; otherwise over TCP to the port the daemon binds, with the token it asks
  for, so that every control request from 127.0.0.1 is authorised in both TCP modes (unless the peer is
  127.0.0.1). Two exceptions are exact: a configured port 0 is bound as 0 but dialled as 8787, and while any
  file is at the path of the socket, the commands of a TCP daemon go to it instead.\<close>

theorem serve_meets_client:
  assumes "plan_serve ma listen clip = Inr pl" "pl_port pl < 65536"
  shows "\<exists>c. loadControl ma stat_ok = Inr c \<and>
    (if so_listen (pl_options pl) = ListenUnixSocket then
       plan_target pl = Some (UnixAddr (pl_socket pl)) \<and> machine_socket ma = Some (pl_socket pl) \<and>
       (stat_ok (pl_socket pl) \<longrightarrow> cc_unix c \<and> (\<forall>remote q. controlAuthorized (pl_options pl) (get_request c remote q) = (0, [])))
     else
       (\<exists>host. plan_target pl = Some (TcpAddr (host @ CHR '':'' # decimal (pl_port pl))) \<and> host \<in> {''127.0.0.1'', ''[::]''}) \<and>
       (if \<exists>sock. machine_socket ma = Some sock \<and> stat_ok sock then cc_unix c
        else (cc_host c = ''127.0.0.1:'' @ decimal (pl_port pl) \<longleftrightarrow> pl_port pl \<noteq> 0) \<and>
          (\<forall>remote port z q. parseIP (so_peerHost (pl_options pl)) \<noteq> Some (A4 [127, 0, 0, 1]) \<longrightarrow> zone_ok z \<longrightarrow>
             remote \<in> {plain_remote (quad_of [127, 0, 0, 1]) port, mapped_remote (quad_of [127, 0, 0, 1]) z port} \<longrightarrow>
             controlAuthorized (pl_options pl) (get_request c remote q) = (0, []))))"
proof -
  obtain cfg p where c: "machine_config ma = Inr cfg" "machine_paths ma = Some p" "pl_port pl = cf_port cfg"
    "so_token (pl_options pl) = machine_token ma p" "so_listen (pl_options pl) \<noteq> ListenUnixSocket \<longrightarrow> machine_token ma p \<noteq> []"
    "so_listen (pl_options pl) = ListenUnixSocket \<longrightarrow> machine_socket ma = Some (pl_socket pl)"
    by (rule plan_serveE[OF assms(1)])
  let ?c = "newControlClient (machine_socket ma) stat_ok (cf_port cfg) (machine_token ma p)"
  have load: "loadControl ma stat_ok = Inr ?c" by (simp add: loadControl_def c)
  show ?thesis
  proof (cases "so_listen (pl_options pl) = ListenUnixSocket")
    case True
    then show ?thesis
      using c(6) load by (auto simp: plan_target_def listen_target_def newControlClient_def controlAuthorized_class)
  next
    case False
    have target: "\<exists>host. plan_target pl = Some (TcpAddr (host @ CHR '':'' # decimal (pl_port pl))) \<and> host \<in> {''127.0.0.1'', ''[::]''}"
      using False itoa_port_decimal[OF assms(2)]
      by (cases "so_listen (pl_options pl)") (simp_all add: plan_target_def listen_target_def join_host_port_def)
    show ?thesis
    proof (cases "\<exists>sock. machine_socket ma = Some sock \<and> stat_ok sock")
      case True
      then show ?thesis using False load target by (auto simp: newControlClient_def)
    next
      case no_socket: False
      then have tcp: "?c = \<lparr>cc_unix = False, cc_host = ''127.0.0.1:'' @ portString (cf_port cfg), cc_token = machine_token ma p, cc_overTCP = True\<rparr>"
        by (auto simp: newControlClient_def split: option.split)
      have host: "cc_host ?c = ''127.0.0.1:'' @ decimal (pl_port pl) \<longleftrightarrow> pl_port pl \<noteq> 0"
        by (simp add: tcp c(3) portString_def decimal_inj)
      have auth: "controlAuthorized (pl_options pl) (get_request ?c remote q) = (0, [])"
        if "parseIP (so_peerHost (pl_options pl)) \<noteq> Some (A4 [127, 0, 0, 1])" "zone_ok z"
          "remote \<in> {plain_remote (quad_of [127, 0, 0, 1]) port, mapped_remote (quad_of [127, 0, 0, 1]) z port}" for remote port z q
        by (rule authorized_loopback) (use False c(4,5) tcp loopback_class[OF that(2,3,1)] in simp_all)
      have all: "\<forall>remote port z q. parseIP (so_peerHost (pl_options pl)) \<noteq> Some (A4 [127, 0, 0, 1]) \<longrightarrow> zone_ok z \<longrightarrow>
             remote \<in> {plain_remote (quad_of [127, 0, 0, 1]) port, mapped_remote (quad_of [127, 0, 0, 1]) z port} \<longrightarrow>
             controlAuthorized (pl_options pl) (get_request ?c remote q) = (0, [])"
        by (intro allI impI, rule auth)
      show ?thesis unfolding if_not_P[OF False] if_not_P[OF no_socket] using load target host all by blast
    qed
  qed
qed

text \<open>C23. Binding the socket is private. Whatever is at the path and whatever fails, the umask of the process is
  as before; an entry of another user is neither used nor touched and the bind refused; and a bind that
  succeeds replaced nothing or an own stale entry, and leaves a socket of the own user with mode 0600. A bind
  that fails leaves no new entry.\<close>

theorem socket_bind_private:
  assumes "listenUnixSocket e path st = (r, st')"
  shows "sk_umask st' = sk_umask st
    \<and> (\<forall>uid m. sk_entry st = Some (uid, m) \<longrightarrow> uid \<noteq> se_uid e \<longrightarrow> r \<noteq> None \<and> sk_entry st' = sk_entry st)
    \<and> (r = None \<longrightarrow> sk_entry st' = Some (se_uid e, int mode0600) \<and> (\<forall>uid m. sk_entry st = Some (uid, m) \<longrightarrow> uid = se_uid e))
    \<and> (r \<noteq> None \<longrightarrow> sk_entry st' \<in> {None, sk_entry st})"
proof (cases "socket_check e st")
  case (Pair x st1)
  have chk: "sk_umask st1 = sk_umask st" "x = None \<Longrightarrow> sk_entry st1 = None \<and> (\<forall>uid m. sk_entry st = Some (uid, m) \<longrightarrow> uid = se_uid e)"
    "x \<noteq> None \<Longrightarrow> st1 = st"
    using Pair by (auto simp: socket_check_def split: option.splits prod.splits if_splits)
  show ?thesis
    using assms chk Pair by (cases x) (auto simp: listenUnixSocket_def Let_def split: if_splits)
qed

section \<open>Witnesses\<close>

definition witness_machine :: machine where
  "witness_machine = \<lparr>ma_os = Linux, ma_getenv = (\<lambda>v. if v = ''XDG_RUNTIME_DIR'' then ''/run'' else []), ma_home = ''/root'',
     ma_secretTool = None, ma_loadRun = ExecFails, ma_statFails = False, ma_readFault = ReadOk [],
     ma_fs = (\<lambda>_. Some (''ABC'', mode0600)), ma_readConfig = (\<lambda>_. ReadMissing), ma_unmarshal = (\<lambda>_ _. None),
     ma_dirFault = NoFault, ma_version = ''v''\<rparr>"

lemma path_join_not_Nil: "b \<noteq> [] \<Longrightarrow> path_join a b \<noteq> []"
  by (simp add: path_join_def path_clean_not_Nil)

lemma linux_paths_not_Nil: "pa_token (linuxPaths getenv home) \<noteq> []" "pa_saveDir (linuxPaths getenv home) \<noteq> []"
  by (simp_all add: linuxPaths_def Let_def path_join_not_Nil)

definition witness_plan :: serve_plan where
  "witness_plan = (case plan_serve witness_machine ''tcp'' False of Inr pl \<Rightarrow> pl)"

lemma witness_planned: "plan_serve witness_machine ''tcp'' False = Inr witness_plan" "pl_port witness_plan = 8787"
  "so_listen (pl_options witness_plan) = ListenLoopbackTCP" "so_peerHost (pl_options witness_plan) = []"
proof -
  obtain p where p: "machine_paths witness_machine = Some p" "p = linuxPaths (ma_getenv witness_machine) ''/root''"
    by (simp add: machine_paths_def witness_machine_def Resolve_def)
  have "machine_config witness_machine = Load (\<lambda>_ _. None) (Some p) (\<lambda>_. ReadMissing)"
    unfolding machine_config_def p(1) by (simp add: witness_machine_def)
  then have c: "machine_config witness_machine = Inr DefaultConfig" by (simp add: Load_def)
  have tr: "trim_space ''ABC'' = ''ABC''" by (rule trim_space_id) (simp add: graphic_def)
  have "pa_token p \<noteq> []" using p(2) linux_paths_not_Nil by simp
  then have "machine_token witness_machine p = ''ABC''"
    by (simp add: machine_token_def witness_machine_def OpenTokenStore_def newSecretServiceStore_def newFileTokenStore_def
        TokenStore_Load_def file_token_Load_def tr Let_def)
  moreover obtain dir where "ResolvedSaveDir (Some p) (ma_home witness_machine) (ma_dirFault witness_machine) DefaultConfig = Inr dir"
  proof -
    have "pa_saveDir p \<noteq> []" using p(2) linux_paths_not_Nil by simp
    then show ?thesis using that by (simp add: ResolvedSaveDir_def DefaultConfig_def witness_machine_def ensureDir0700_def)
  qed
  ultimately have "plan_serve witness_machine ''tcp'' False = Inr (make_plan witness_machine DefaultConfig p (ListenLoopbackTCP, [], []) dir)"
    by (simp add: plan_serve_def c p(1) resolveListen_def Let_def)
  then show "plan_serve witness_machine ''tcp'' False = Inr witness_plan" "pl_port witness_plan = 8787"
    "so_listen (pl_options witness_plan) = ListenLoopbackTCP" "so_peerHost (pl_options witness_plan) = []"
    by (simp_all add: witness_plan_def make_plan_def DefaultConfig_def)
qed

theorem serve_meets_client_witness:
  "\<exists>c. loadControl witness_machine (\<lambda>_. False) = Inr c \<and> cc_host c = ''127.0.0.1:'' @ decimal 8787
    \<and> controlAuthorized (pl_options witness_plan) (get_request c (plain_remote (quad_of [127, 0, 0, 1]) 5) (\<lambda>_. [])) = (0, [])"
proof -
  have "pl_port witness_plan < 65536" by (simp add: witness_planned)
  note meet = serve_meets_client[OF witness_planned(1) this, of "\<lambda>_. False", unfolded witness_planned(3) witness_planned(4), simplified]
  have "zone_ok []" by (simp add: zone_ok_def)
  then show ?thesis using meet by (auto simp: parseIP_empty witness_planned(2))
qed

theorem socket_bind_private_witness:
  "sk_entry (snd (listenUnixSocket \<lparr>se_uid = 7, se_mkdirFails = False, se_lstatFails = False, se_foreignStat = False,
      se_removeFails = False, se_bindFails = False, se_chmodFails = False\<rparr> ''/s'' \<lparr>sk_entry = Some (7, 0), sk_umask = 18\<rparr>))
    = Some (7, int mode0600)
   \<and> fst (listenUnixSocket \<lparr>se_uid = 7, se_mkdirFails = False, se_lstatFails = False, se_foreignStat = False,
      se_removeFails = False, se_bindFails = False, se_chmodFails = False\<rparr> ''/s'' \<lparr>sk_entry = Some (8, 0), sk_umask = 18\<rparr>) \<noteq> None"
proof -
  let ?e = "\<lparr>se_uid = 7, se_mkdirFails = False, se_lstatFails = False, se_foreignStat = False,
      se_removeFails = False, se_bindFails = False, se_chmodFails = False\<rparr>"
  have own: "fst (listenUnixSocket ?e ''/s'' \<lparr>sk_entry = Some (7, 0), sk_umask = 18\<rparr>) = None"
    by (simp add: listenUnixSocket_def socket_check_def Let_def)
  show ?thesis
    using own socket_bind_private[of ?e "''/s''" "\<lparr>sk_entry = Some (7, 0), sk_umask = 18\<rparr>", OF surjective_pairing]
      socket_bind_private[of ?e "''/s''" "\<lparr>sk_entry = Some (8, 0), sk_umask = 18\<rparr>", OF surjective_pairing] by simp
qed

end
