(* ===== verification/Watch.thy ===== *)
theory Watch
  imports Serve
begin

text \<open>
  The streaming command \<open>watch\<close> (\<open>verbs_watch.go\<close>): two loops that re-arm the long polls of the daemon and print
  one JSON object per line. What a poll gives, the clock and the moment of the signal are parameters, one
  round at a time; the scheduler is a list of choices.
\<close>

section \<open>The records\<close>

definition nowRFC3339 :: "utc_time \<Rightarrow> string" where
  "nowRFC3339 t =
     zero_pad 4 (decimal (t_year t)) @ ''-'' @ zero_pad 2 (decimal (t_month t)) @ ''-'' @ zero_pad 2 (decimal (t_day t)) @
     ''T'' @ zero_pad 2 (decimal (t_hour t)) @ '':'' @ zero_pad 2 (decimal (t_minute t)) @ '':'' @ zero_pad 2 (decimal (t_second t)) @ ''Z''"

definition json_ptr :: "string option \<Rightarrow> json" where
  "json_ptr v = (case v of None \<Rightarrow> JNull | Some x \<Rightarrow> JStr x)"

definition watchAgentRecord :: "recv_item \<Rightarrow> utc_time \<Rightarrow> json" where
  "watchAgentRecord it now =
     JObj [(''schema'', JStr schemaVersion), (''event'', JStr ''item''), (''channel'', JStr ''agent''),
       (''type'', JStr (ri_type it)), (''sender'', JStr (ri_sender it)), (''path'', json_ptr (nilIfEmpty (ri_path it))),
       (''text'', json_ptr (textPtr it)), (''cid'', json_ptr (nilIfEmpty (ri_cid it))), (''ts'', JStr (nowRFC3339 now))]"

definition watchClipboardRecord :: "string \<Rightarrow> utc_time \<Rightarrow> json" where
  "watchClipboardRecord path now =
     JObj [(''schema'', JStr schemaVersion), (''event'', JStr ''item''), (''channel'', JStr ''clipboard''),
       (''path'', JStr path), (''ts'', JStr (nowRFC3339 now))]"

section \<open>The loops\<close>

text \<open>What a loop does: a poll of a path with a deadline in seconds, a line on stdout, a trace, a pause of a
  second. A round is given by what it finds: whether the signal came before it, the outcome of the poll,
  whether the signal came before the check after a failure, and the clock.\<close>

datatype watch_event = WPoll string int | WLine string | WTrace string | WBackoff

record watch_round =
  wr_stopped :: bool
  wr_result :: get_result
  wr_stoppedAfter :: bool
  wr_now :: utc_time

fun watch_loop :: "string \<Rightarrow> int \<Rightarrow> string \<Rightarrow> (string \<Rightarrow> utc_time \<Rightarrow> string) \<Rightarrow> watch_round list \<Rightarrow> watch_event list" where
  "watch_loop path secs channel line [] = []"
| "watch_loop path secs channel line (r # rs) =
     (if wr_stopped r then []
      else WPoll path secs #
        (case wr_result r of
           GetFail e \<Rightarrow>
             if wr_stoppedAfter r then []
             else WTrace (''watch: '' @ channel @ '' re-arm error: '' @ ge_msg e) # WBackoff # watch_loop path secs channel line rs
         | GetStatus status body \<Rightarrow>
             if status \<noteq> 200 then watch_loop path secs channel line rs
             else WLine (line body (wr_now r)) # watch_loop path secs channel line rs))"

definition agent_line :: "string \<Rightarrow> utc_time \<Rightarrow> string" where
  "agent_line body now = render (watchAgentRecord (parseRecvBody body) now)"

definition watchAgentLoop :: "watch_round list \<Rightarrow> watch_event list" where
  "watchAgentLoop = watch_loop (''/recv?timeout='' @ cli_itoa 120) (120 + 20) ''agent'' agent_line"

definition clipboard_line :: "string \<Rightarrow> utc_time \<Rightarrow> string" where
  "clipboard_line body now = render (watchClipboardRecord body now)"

definition controlGetTimeout :: int where
  "controlGetTimeout = 150"

definition watchClipboardLoop :: "watch_round list \<Rightarrow> watch_event list" where
  "watchClipboardLoop = watch_loop ''/wait'' controlGetTimeout ''clipboard'' clipboard_line"

section \<open>The command\<close>

text \<open>The two loops run side by side; the mutex makes the writing of a line one step. \<open>True\<close> lets the first
  go on; when the choices or the other loop are at an end, the rest follows.\<close>

fun interleave :: "bool list \<Rightarrow> 'a list \<Rightarrow> 'a list \<Rightarrow> 'a list" where
  "interleave (True # s) (x # xs) ys = x # interleave s xs ys"
| "interleave (False # s) xs (y # ys) = y # interleave s xs ys"
| "interleave s xs ys = xs @ ys"

fun watch_emit :: "global_flags \<Rightarrow> watch_event \<Rightarrow> streams \<Rightarrow> streams" where
  "watch_emit g (WLine l) st = dataln l st"
| "watch_emit g (WTrace m) st = trace g m st"
| "watch_emit g (WPoll p n) st = st"
| "watch_emit g WBackoff st = st"

definition watch_banner :: "global_flags \<Rightarrow> string \<Rightarrow> streams \<Rightarrow> streams" where
  "watch_banner g channel st =
     (if channel \<noteq> ''both'' then diag g (''watch: streaming the '' @ channel @ '' channel; press Ctrl-C to stop'') st
      else diag g ''watch: clipboard is latest-wins (a burst between re-arms may coalesce); the agent FIFO is not''
        (diag g ''watch: streaming both channels; press Ctrl-C to stop'' st))"

definition runWatch ::
  "global_flags \<Rightarrow> string \<Rightarrow> (cli_error, control_client) result \<Rightarrow> watch_round list \<Rightarrow> watch_round list \<Rightarrow> bool list \<Rightarrow>
   streams \<Rightarrow> verb_result" where
  "runWatch g channel control agent clip sched st =
     (if channel \<notin> {''agent'', ''clipboard'', ''both''} then
        (Some (usageError (''watch: --channel must be agent | clipboard | both (got '' @ quote # channel @ quote # '')'')), st)
      else case control of
        Inl e \<Rightarrow> (Some e, st)
      | Inr c \<Rightarrow>
          (None, fold (watch_emit g)
             (interleave sched
                (if channel = ''agent'' \<or> channel = ''both'' then watchAgentLoop agent else [])
                (if channel = ''clipboard'' \<or> channel = ''both'' then watchClipboardLoop clip else []))
             (watch_banner g channel st)))"

section \<open>What the loops print\<close>

definition watch_lines :: "watch_event list \<Rightarrow> string list" where
  "watch_lines evs = concat (map (\<lambda>ev. case ev of WLine l \<Rightarrow> [l] | _ \<Rightarrow> []) evs)"

definition poll_failed :: "watch_round \<Rightarrow> bool" where
  "poll_failed r = (case wr_result r of GetFail e \<Rightarrow> True | GetStatus s b \<Rightarrow> False)"

definition stops :: "watch_round \<Rightarrow> bool" where
  "stops r \<longleftrightarrow> wr_stopped r \<or> poll_failed r \<and> wr_stoppedAfter r"

definition answer :: "watch_round \<Rightarrow> (string \<times> utc_time) list" where
  "answer r = (case wr_result r of GetStatus s b \<Rightarrow> if s = 200 then [(b, wr_now r)] else [] | GetFail e \<Rightarrow> [])"

text \<open>The specification: the answers of the rounds before the signal.\<close>

definition answers :: "watch_round list \<Rightarrow> (string \<times> utc_time) list" where
  "answers rs = concat (map answer (takeWhile (\<lambda>r. \<not> stops r) rs))"

lemma watch_lines_simps [simp]:
  "watch_lines [] = []" "watch_lines (WLine l # es) = l # watch_lines es" "watch_lines (WPoll p n # es) = watch_lines es"
  "watch_lines (WTrace m # es) = watch_lines es" "watch_lines (WBackoff # es) = watch_lines es"
  "watch_lines (xs @ ys) = watch_lines xs @ watch_lines ys"
  by (simp_all add: watch_lines_def)

lemma watch_loop_lines: "watch_lines (watch_loop path secs channel line rs) = map (\<lambda>(b, t). line b t) (answers rs)"
  by (induction rs) (simp_all add: answers_def answer_def stops_def poll_failed_def split: get_result.splits)

lemma append_in_shuffles: "xs @ ys \<in> shuffles xs ys"
  by (induction xs) (auto intro: Cons_in_shuffles_leftI)

lemma interleave_shuffles: "interleave s xs ys \<in> shuffles xs ys"
  by (induction s xs ys rule: interleave.induct)
    (auto intro: Cons_in_shuffles_leftI Cons_in_shuffles_rightI append_in_shuffles)

lemma watch_lines_Cons: "watch_lines (x # xs) = (case x of WLine l \<Rightarrow> [l] | _ \<Rightarrow> []) @ watch_lines xs"
  by (simp add: watch_lines_def)

lemma watch_lines_shuffles:
  "zs \<in> shuffles xs ys \<Longrightarrow> watch_lines zs \<in> shuffles (watch_lines xs) (watch_lines ys)"
proof (induction xs ys arbitrary: zs rule: shuffles.induct)
  case (3 x xs y ys)
  from "3.prems" consider (l) zs' where "zs = x # zs'" "zs' \<in> shuffles xs (y # ys)"
    | (r) zs' where "zs = y # zs'" "zs' \<in> shuffles (x # xs) ys" by auto
  then show ?case
  proof cases
    case l
    then show ?thesis using "3.IH"(1)[OF l(2)] Cons_in_shuffles_leftI
      by (cases x) (auto simp: watch_lines_Cons[of x])
  next
    case r
    then show ?thesis using "3.IH"(2)[OF r(2)] Cons_in_shuffles_rightI
      by (cases y) (auto simp: watch_lines_Cons[of y])
  qed
qed simp_all

lemma watch_emit_out:
  "st_out (fold (watch_emit g) evs st) = st_out st @ map (\<lambda>l. OutData (l @ [newline])) (watch_lines evs)"
proof (induction evs arbitrary: st)
  case (Cons ev evs)
  then show ?case by (cases ev) (simp_all add: dataln_def trace_def)
qed simp

section \<open>One line\<close>

lemma hex_char_not_newline: "n < 16 \<Longrightarrow> hex_char n \<noteq> newline"
proof -
  have "list_all (\<lambda>n. hex_char n \<noteq> newline) [0..<16]" by code_simp
  then show "n < 16 \<Longrightarrow> hex_char n \<noteq> newline" by (simp add: list_all_iff)
qed

lemma ascii_escape_no_newline: "code c < 128 \<Longrightarrow> newline \<notin> set (ascii_escape c)"
proof (cases "html_safe c")
  case True
  then have "c \<noteq> newline" by (auto simp: html_safe_def)
  then show ?thesis using True by (simp add: ascii_escape_def)
next
  case False
  assume "code c < 128"
  then have "hex_char (code c div 16) \<noteq> newline" "hex_char (code c mod 16) \<noteq> newline"
    by (simp_all add: hex_char_not_newline)
  then show ?thesis using False by (auto simp: ascii_escape_def)
qed

lemma rune_escape_no_newline: "s \<noteq> [] \<Longrightarrow> newline \<notin> set (fst (rune_escape s))"
proof -
  assume s: "s \<noteq> []"
  obtain r n where d: "decode_rune s = (r, n)" by fastforce
  show ?thesis
  proof (cases "code (hd s) < 128 \<or> (r, n) = (rune_error, 1)")
    case True
    then show ?thesis using ascii_escape_no_newline[of "hd s"] d by (auto simp: rune_escape_def)
  next
    case False
    then have e: "take n s = encodeRune r" "scalar r" using encode_decode[OF s] d by auto
    have "0x80 \<le> r"
    proof (rule ccontr)
      assume r: "\<not> 0x80 \<le> r"
      then have "encodeRune r = [byte r]" by (simp add: encodeRune_def)
      then have "code (hd s) = r" using e s r by (cases s; cases n) auto
      then show False using False r by simp
    qed
    then have "newline \<notin> set (take n s)" using encodeRune_high[of r] e by (fastforce simp: scalar_def)
    moreover have "hex_char (r mod 16) \<noteq> newline" by (simp add: hex_char_not_newline)
    ultimately show ?thesis using d False by (auto simp: rune_escape_def)
  qed
qed

lemma marshal_string_no_newline: "newline \<notin> set (marshal_string s)"
  by (induction s rule: marshal_string.induct) (subst marshal_string.simps, simp add: rune_escape_no_newline)

text \<open>Every JSON text without blanks is written on one line, and reads as one value.\<close>

lemma jstr_no_newline: "newline \<notin> set (jstr s)"
  by (simp add: jstr_def marshal_string_no_newline)

lemma join_notin: "c \<noteq> b \<Longrightarrow> \<forall>w\<in>set ws. c \<notin> set w \<Longrightarrow> c \<notin> set (join_with b ws)"
  by (induction b ws rule: join_with.induct) auto

lemma render_no_newline: "json_ok v \<Longrightarrow> newline \<notin> set (render v)"
proof (induction v rule: render.induct)
  case (4 ds)
  then show ?case by (auto simp: list_all_iff number_byte_def num_byte_def is_digit_def)
next
  case (5 s)
  show ?case by (simp add: jstr_no_newline)
next
  case (6 vs)
  then have "newline \<notin> set (join_with (CHR '','') (map render vs))" by (intro join_notin) (auto simp: list_all_iff)
  then show ?case by simp
next
  case (7 ms)
  then have "newline \<notin> set (join_with (CHR '','') (map (\<lambda>(k, v). jstr k @ CHR '':'' # render v) ms))"
    by (intro join_notin) (auto simp: list_all_iff jstr_no_newline)
  then show ?case by simp
qed simp_all

lemma render_reads: "json_ok v \<Longrightarrow> delimiter c \<Longrightarrow> skipJSONValue e (render v @ c # t) = Inr (c # t)"
  using skips_render[of v e] skipJSONValue_any unfolding skips_def by blast

lemma agent_record_ok: "json_ok (watchAgentRecord it now)"
  by (simp add: watchAgentRecord_def json_ptr_def split: option.split)

lemma clipboard_record_ok: "json_ok (watchClipboardRecord p now)"
  by (simp add: watchClipboardRecord_def)

lemma split_lines: "\<forall>l\<in>set ls. newline \<notin> set l \<Longrightarrow> split_on newline (concat (map (\<lambda>l. l @ [newline]) ls)) = ls @ [[]]"
  by (induction ls) (simp_all add: split_on_append)

section \<open>Long runs\<close>

lemma watch_loop_running:
  "\<forall>r\<in>set rs. \<not> stops r \<Longrightarrow>
     watch_loop path secs channel line (rs @ rs') = watch_loop path secs channel line rs @ watch_loop path secs channel line rs'"
  by (induction rs) (auto simp: stops_def poll_failed_def split: get_result.splits)

definition first_rounds :: "nat \<Rightarrow> (nat \<Rightarrow> watch_round) \<Rightarrow> watch_round list" where
  "first_rounds n f = map f [0..<n]"

lemma first_rounds_Suc: "first_rounds (Suc n) f = first_rounds n f @ [f n]"
  by (simp add: first_rounds_def)

lemma first_rounds_append: "n \<le> m \<Longrightarrow> \<exists>rs. first_rounds m f = first_rounds n f @ rs"
  by (metis first_rounds_def le_Suc_ex map_append upt_add_eq_append zero_le)

lemma answers_running: "\<forall>r\<in>set rs. \<not> stops r \<Longrightarrow> answers rs = concat (map answer rs)"
  unfolding answers_def by (metis takeWhile_eq_all_conv)

lemma watch_lines_first:
  assumes "\<forall>i. \<not> stops (f i)"
  shows "watch_lines (watch_loop p d c line (first_rounds (Suc n) f)) =
    watch_lines (watch_loop p d c line (first_rounds n f)) @ map (\<lambda>(b, t). line b t) (answer (f n))"
  using assms by (simp add: watch_loop_lines answers_running first_rounds_Suc) (simp add: first_rounds_def answers_running)

lemma answer_length: "length (answer r) = (if answer r = [] then 0 else 1)"
  by (simp add: answer_def split: get_result.splits)

lemma lines_unbounded:
  assumes run: "\<forall>i. \<not> stops (f i)" and ans: "\<forall>n. \<exists>m\<ge>n. answer (f m) \<noteq> []"
  shows "\<exists>n. length (watch_lines (watch_loop p d c line (first_rounds n f))) = k"
proof (induction k)
  case 0
  show ?case by (rule exI[of _ 0]) (simp add: first_rounds_def)
next
  case (Suc k)
  let ?len = "\<lambda>n. length (watch_lines (watch_loop p d c line (first_rounds n f)))"
  obtain n where n: "?len n = k" using Suc by blast
  define m where "m = (LEAST m. n \<le> m \<and> answer (f m) \<noteq> [])"
  have m: "n \<le> m" "answer (f m) \<noteq> []" using LeastI_ex[of "\<lambda>m. n \<le> m \<and> answer (f m) \<noteq> []"] ans by (auto simp: m_def)
  have none: "answer (f i) = []" if "n \<le> i" "i < m" for i using that not_less_Least[of i] by (auto simp: m_def)
  have "?len (n + j) = k" if "n + j \<le> m" for j
    using that by (induction j) (simp_all add: n watch_lines_first[OF run] none)
  from this[of "m - n"] have "?len (Suc m) = Suc k"
    using m answer_length[of "f m"] by (simp add: watch_lines_first[OF run])
  then show ?case by blast
qed

text \<open>The rounds of a loop against the daemon: each poll is answered by \<open>handleRecv\<close> from the store.\<close>

fun daemon_rounds :: "server_options \<Rightarrow> request \<Rightarrow> utc_time list \<Rightarrow> store \<Rightarrow> watch_round list \<times> store" where
  "daemon_rounds opts rq [] s = ([], s)"
| "daemon_rounds opts rq (now # ts) s =
     (let (rp, s1) = handleRecv opts rq (\<lambda>w u. (Inr (fst (RecvNow u)), snd (RecvNow u))) s;
          (rs, s2) = daemon_rounds opts rq ts s1
      in (\<lparr>wr_stopped = False, wr_result = response_result rp, wr_stoppedAfter = False, wr_now = now\<rparr> # rs, s2))"

lemma daemon_rounds_queue:
  assumes "controlAuthorized opts rq = (0, [])" "rq_method rq = ''GET''"
  shows "queue (rs_agent s) = its @ rest \<Longrightarrow> length ts = length its \<Longrightarrow>
    answers (fst (daemon_rounds opts rq ts s)) = zip (map recvBodyString its) ts \<and>
    queue (rs_agent (snd (daemon_rounds opts rq ts s))) = rest"
proof (induction its arbitrary: ts s)
  case Nil
  then show ?case by (simp add: answers_def)
next
  case (Cons it its)
  then obtain now ts' where ts: "ts = now # ts'" by (cases ts) auto
  have r: "RecvNow s = (Some it, s\<lparr>rs_agent := (rs_agent s)\<lparr>queue := its @ rest\<rparr>\<rparr>)"
    using Cons.prems by (simp add: RecvNow_def recv_begin_def)
  show ?case
    using Cons.IH[of "s\<lparr>rs_agent := (rs_agent s)\<lparr>queue := its @ rest\<rparr>\<rparr>" ts'] Cons.prems assms
    by (auto simp: ts handleRecv_def r writeRecvBody_def response_result_def answers_def answer_def stops_def split: prod.splits)
qed

text \<open>The item a line shows.\<close>

definition shown :: "agent_item \<Rightarrow> recv_item" where
  "shown it =
     (case ai_path it of
        Some p \<Rightarrow> \<lparr>ri_type = ai_type it, ri_sender = ai_sender it, ri_path = p, ri_text = [], ri_hasText = False, ri_cid = []\<rparr>
      | None \<Rightarrow>
          let (t, cid) = extractCid (received_text (the (ai_text it))) in
          \<lparr>ri_type = ai_type it, ri_sender = ai_sender it, ri_path = [], ri_text = t, ri_hasText = True, ri_cid = cid\<rparr>)"

definition one_line_item :: "agent_item \<Rightarrow> bool" where
  "one_line_item it \<longleftrightarrow> newline \<notin> set (ai_type it) \<and> newline \<notin> set (ai_sender it) \<and>
     (case ai_path it of Some p \<Rightarrow> newline \<notin> set p \<and> ai_text it = None | None \<Rightarrow> ai_text it \<noteq> None)"

lemma parse_shown: "one_line_item it \<Longrightarrow> parseRecvBody (recvBodyString it) = shown it"
  by (cases it) (auto simp: one_line_item_def shown_def recv_body_text recv_body_path split: option.splits prod.splits)

lemma map_parse_shown:
  "length ts = length its \<Longrightarrow> \<forall>it\<in>set its. one_line_item it \<Longrightarrow>
     map (\<lambda>(b, t). agent_line b t) (zip (map recvBodyString its) ts) =
     map2 (\<lambda>it now. render (watchAgentRecord (shown it) now)) its ts"
  by (induction its ts rule: list_induct2') (simp_all add: agent_line_def parse_shown)

lemma polls_of_loop: "WPoll p n \<in> set (watch_loop path secs channel line rs) \<Longrightarrow> p = path \<and> n = secs"
  by (induction rs) (auto split: if_splits get_result.splits)

lemma watch_loop_first:
  assumes "\<forall>i. \<not> stops (f i)"
  shows "watch_loop p d c line (first_rounds (Suc n) f) =
    watch_loop p d c line (first_rounds n f) @ watch_loop p d c line [f n]"
  using assms by (simp add: first_rounds_Suc watch_loop_running first_rounds_def)

definition is_poll :: "watch_event \<Rightarrow> bool" where
  "is_poll ev = (case ev of WPoll p n \<Rightarrow> True | _ \<Rightarrow> False)"

lemma one_poll:
  assumes "\<not> stops r"
  shows "length (filter is_poll (watch_loop p d c line [r])) = 1"
  using assms by (auto simp: stops_def poll_failed_def is_poll_def split: get_result.splits)

section \<open>Properties\<close>

text \<open>C26. What \<open>watch\<close> prints is a stream of JSON objects, one per line. For every channel, schedule, and course of
  the polls, the command ends without an error; the bytes it wrote split at the line ends into exactly its
  lines; each line is one JSON value for the reader of the peer, even when a path or a text holds line ends or
  quotes; and the lines are an interleaving of those of the two loops, each of which prints one line per answer
  200 it got before the signal, in that order.\<close>

theorem watch_output_ndjson:
  assumes "channel \<in> {''agent'', ''clipboard'', ''both''}"
  shows "\<exists>lines. fst (runWatch g channel (Inr c) agent clip sched st) = None
    \<and> st_out (snd (runWatch g channel (Inr c) agent clip sched st)) = st_out st @ map (\<lambda>l. OutData (l @ [newline])) lines
    \<and> split_on newline (concat (map (\<lambda>l. l @ [newline]) lines)) = lines @ [[]]
    \<and> (\<forall>l\<in>set lines. \<forall>e d t. delimiter d \<longrightarrow> skipJSONValue e (l @ d # t) = Inr (d # t))
    \<and> lines \<in> shuffles (if channel = ''clipboard'' then [] else map (\<lambda>(b, t). agent_line b t) (answers agent))
        (if channel = ''agent'' then [] else map (\<lambda>(b, t). clipboard_line b t) (answers clip))"
proof -
  let ?a = "if channel = ''agent'' \<or> channel = ''both'' then watchAgentLoop agent else []"
  let ?c = "if channel = ''clipboard'' \<or> channel = ''both'' then watchClipboardLoop clip else []"
  let ?lines = "watch_lines (interleave sched ?a ?c)"
  have out: "runWatch g channel (Inr c) agent clip sched st =
      (None, fold (watch_emit g) (interleave sched ?a ?c) (watch_banner g channel st))"
    using assms by (auto simp: runWatch_def)
  have banner: "st_out (watch_banner g channel st) = st_out st" by (simp add: watch_banner_def diag_def)
  have "watch_lines ?a = (if channel = ''clipboard'' then [] else map (\<lambda>(b, t). agent_line b t) (answers agent))"
    "watch_lines ?c = (if channel = ''agent'' then [] else map (\<lambda>(b, t). clipboard_line b t) (answers clip))"
    using assms by (auto simp: watchAgentLoop_def watchClipboardLoop_def watch_loop_lines)
  with watch_lines_shuffles[OF interleave_shuffles[of sched ?a ?c]]
  have sh: "?lines \<in> shuffles (if channel = ''clipboard'' then [] else map (\<lambda>(b, t). agent_line b t) (answers agent))
      (if channel = ''agent'' then [] else map (\<lambda>(b, t). clipboard_line b t) (answers clip))" by simp
  have line: "\<exists>v. l = render v \<and> json_ok v" if "l \<in> set ?lines" for l
    using that set_shuffles[OF sh] agent_record_ok clipboard_record_ok
    by (auto simp: agent_line_def clipboard_line_def split: if_splits)
  then have "\<forall>l\<in>set ?lines. newline \<notin> set l" using render_no_newline by blast
  from split_lines[OF this] show ?thesis
    using out banner sh line render_reads by (intro exI[of _ ?lines]) (fastforce simp: watch_emit_out)
qed

text \<open>C24. \<open>watch\<close> against the daemon prints the queue. For a client that belongs to the daemon and a store whose
  agent queue starts with some items, that many polls give exactly one line for each of them, in order, with its
  type, sender, path, text and token, and leave the rest of the queue; and the daemon lets a poll wait for 120
  seconds, which is less than the deadline the loop gives it, so an idle daemon is not taken for a dead one.\<close>

theorem watch_streams_queue:
  assumes "local_daemon c opts remote" and "q ''timeout'' = cli_itoa 120"
    and "queue (rs_agent s) = its @ rest" and "length ts = length its" and "\<forall>it\<in>set its. one_line_item it"
  shows "watch_lines (watchAgentLoop (fst (daemon_rounds opts (get_request c remote q) ts s))) =
      map2 (\<lambda>it now. render (watchAgentRecord (shown it) now)) its ts
    \<and> queue (rs_agent (snd (daemon_rounds opts (get_request c remote q) ts s))) = rest
    \<and> recv_window (get_request c remote q) = 120 * second
    \<and> (\<forall>p n rs. WPoll p n \<in> set (watchAgentLoop rs) \<longrightarrow>
         p = ''/recv?timeout='' @ q ''timeout'' \<and> recv_window (get_request c remote q) < n * second)"
proof -
  have "rq_method (get_request c remote q) = ''GET''" by (simp add: get_request_def)
  note d = daemon_rounds_queue[OF local_daemon_authorized[OF assms(1)] this assms(3,4)]
  have "recv_window (get_request c remote q) = 120 * second"
    using recv_window_small[of "get_request c remote q" 120] assms(2) cli_itoa_nonneg[of 120] by (simp add: get_request_def)
  then show ?thesis
    using d assms(2) map_parse_shown[OF assms(4,5)] polls_of_loop
    by (auto simp: watchAgentLoop_def watch_loop_lines second_def dest!: polls_of_loop)
qed

text \<open>C25. \<open>watch\<close> goes on for ever. While the signal does not come, every round polls once, nothing printed is taken
  back, an answer 200 is printed in its round, and a failed poll is followed by a pause, so a daemon that
  answers again and again makes the output grow without bound. An answer other than 200 (a wrong token, say)
  is neither reported nor followed by a pause: the loop polls again at once.\<close>

theorem watch_goes_on:
  assumes "(loop, line, poll) \<in>
      {(watchAgentLoop, agent_line, WPoll ''/recv?timeout=120'' 140), (watchClipboardLoop, clipboard_line, WPoll ''/wait'' 150)}"
    and "\<forall>i. \<not> wr_stopped (f i) \<and> \<not> wr_stoppedAfter (f i)"
  shows "length (filter is_poll (loop (first_rounds n f))) = n
    \<and> (n \<le> m \<longrightarrow> (\<exists>evs. loop (first_rounds m f) = loop (first_rounds n f) @ evs))
    \<and> (wr_result (f n) = GetStatus 200 b \<longrightarrow> loop (first_rounds (Suc n) f) = loop (first_rounds n f) @ [poll, WLine (line b (wr_now (f n)))])
    \<and> (wr_result (f n) = GetFail e \<longrightarrow> (\<exists>msg. loop (first_rounds (Suc n) f) = loop (first_rounds n f) @ [poll, WTrace msg, WBackoff]))
    \<and> (wr_result (f n) = GetStatus status b \<and> status \<noteq> 200 \<longrightarrow> loop (first_rounds (Suc n) f) = loop (first_rounds n f) @ [poll])
    \<and> ((\<forall>i. \<exists>j\<ge>i. \<exists>b. wr_result (f j) = GetStatus 200 b) \<longrightarrow> (\<forall>k. \<exists>i. length (watch_lines (loop (first_rounds i f))) = k))"
proof -
  have "cli_itoa 120 = ''120''" by code_simp
  then obtain p d c where lp: "loop = watch_loop p d c line" "poll = WPoll p d"
    using assms(1) by (auto simp: watchAgentLoop_def watchClipboardLoop_def controlGetTimeout_def)
  have run: "\<forall>i. \<not> stops (f i)" using assms(2) by (simp add: stops_def)
  note suc = watch_loop_first[OF run]
  have "length (filter is_poll (loop (first_rounds n f))) = n"
  proof (induction n)
    case (Suc n)
    then show ?case using one_poll[of "f n"] run by (simp add: lp suc)
  qed (simp add: first_rounds_def lp)
  moreover have "\<exists>evs. loop (first_rounds m f) = loop (first_rounds n f) @ evs" if le: "n \<le> m"
  proof -
    obtain rs where "first_rounds m f = first_rounds n f @ rs" using first_rounds_append[OF le] by blast
    then show ?thesis using run by (simp add: lp watch_loop_running first_rounds_def)
  qed
  moreover have "\<exists>i. length (watch_lines (loop (first_rounds i f))) = k"
    if inf: "\<forall>i. \<exists>j\<ge>i. \<exists>b. wr_result (f j) = GetStatus 200 b" for k
  proof -
    have "\<forall>n. \<exists>m\<ge>n. answer (f m) \<noteq> []" using inf by (fastforce simp: answer_def)
    from lines_unbounded[OF run this] show ?thesis by (simp add: lp)
  qed
  ultimately show ?thesis using assms(2) by (simp add: suc lp(1)) (simp add: lp(2))
qed

section \<open>Witnesses\<close>

definition witness_now :: utc_time where
  "witness_now = \<lparr>t_year = 2026, t_month = 1, t_day = 2, t_hour = 3, t_minute = 4, t_second = 5, t_milli = 6\<rparr>"

definition witness_round :: "get_result \<Rightarrow> watch_round" where
  "witness_round res = \<lparr>wr_stopped = False, wr_result = res, wr_stoppedAfter = False, wr_now = witness_now\<rparr>"

theorem watch_output_ndjson_witness:
  "st_out (snd (runWatch witness_flags ''clipboard'' (Inr witness_client) []
      [witness_round (GetFail witness_error), witness_round (GetStatus 200 (''/a'' @ [newline]))] [] \<lparr>st_out = [], st_err = []\<rparr>)) =
   [OutData (clipboard_line (''/a'' @ [newline]) witness_now @ [newline])]"
proof -
  let ?rs = "[witness_round (GetFail witness_error), witness_round (GetStatus 200 (''/a'' @ [newline]))]"
  have "answers ?rs = [(''/a'' @ [newline], witness_now)]"
    by (simp add: answers_def answer_def witness_round_def stops_def poll_failed_def)
  then show ?thesis
    using watch_output_ndjson[of "''clipboard''" witness_flags witness_client "[]" ?rs "[]" "\<lparr>st_out = [], st_err = []\<rparr>"] by auto
qed

definition witness_item :: agent_item where
  "witness_item = \<lparr>ai_type = ''text'', ai_sender = ''mac'', ai_path = None, ai_text = Some ''hi''\<rparr>"

theorem watch_streams_queue_witness:
  "length (watch_lines (watchAgentLoop (fst (daemon_rounds witness_daemon (get_request witness_client [] (\<lambda>k. cli_itoa 120))
      [witness_now] ((newConcrete undefined [])\<lparr>rs_agent := enqueue [witness_item] fifo_empty\<rparr>))))) = 1"
proof -
  let ?s = "(newConcrete undefined [])\<lparr>rs_agent := enqueue [witness_item] fifo_empty\<rparr>"
  have d: "local_daemon witness_client witness_daemon []"
    by (simp add: local_daemon_def newControlClient_def witness_client_def witness_daemon_def)
  have "queue (rs_agent ?s) = [witness_item] @ []" by (simp add: enqueue_def fifo_empty_def)
  moreover have "\<forall>it\<in>set [witness_item]. one_line_item it" by (simp add: witness_item_def one_line_item_def)
  ultimately show ?thesis
    using watch_streams_queue[OF d, of "\<lambda>k. cli_itoa 120" ?s "[witness_item]" "[]" "[witness_now]"] by simp
qed

theorem watch_goes_on_witness:
  "\<exists>i. length (watch_lines (watchClipboardLoop (first_rounds i
      (\<lambda>n. witness_round (if even n then GetFail witness_error else GetStatus 200 ''/a''))))) = 7"
proof -
  let ?f = "\<lambda>n::nat. witness_round (if even n then GetFail witness_error else GetStatus 200 ''/a'')"
  have "\<forall>i. \<exists>j\<ge>i. \<exists>b. wr_result (?f j) = GetStatus 200 b"
  proof
    fix i
    show "\<exists>j\<ge>i. \<exists>b. wr_result (?f j) = GetStatus 200 b"
      by (rule exI[of _ "2 * i + 1"]) (simp add: witness_round_def)
  qed
  then show ?thesis
    using watch_goes_on[of watchClipboardLoop clipboard_line "WPoll ''/wait'' 150" ?f] by (simp add: witness_round_def)
qed

end
