(* ===== verification/Meta.thy ===== *)
theory Meta
  imports Watch Send
begin

text \<open>
  The commands about the program and its machine (\<open>verbs_meta.go\<close>): \<open>version\<close>, \<open>health\<close> and \<open>doctor\<close>. The build
  information, the texts of configuration errors and the outcome of the HTTP call are parameters.
\<close>

section \<open>version and health\<close>

definition wireProtocol :: string where "wireProtocol = ''envelope-v1''"

fun vcs_revision :: "(string \<times> string) list \<Rightarrow> string" where
  "vcs_revision [] = ''dev''"
| "vcs_revision ((k, v) # ss) = (if k = ''vcs.revision'' \<and> v \<noteq> [] then v else vcs_revision ss)"

definition vcsCommit :: "(string \<times> string) list option \<Rightarrow> string" where
  "vcsCommit info = (case info of None \<Rightarrow> ''dev'' | Some ss \<Rightarrow> vcs_revision ss)"

definition versionJSON :: "string \<Rightarrow> string \<Rightarrow> json" where
  "versionJSON v commit =
     JObj [(''schema'', JStr schemaVersion), (''ok'', JTrue), (''version'', JStr v), (''commit'', JStr commit),
       (''wireProtocol'', JStr wireProtocol)]"

definition runVersion :: "global_flags \<Rightarrow> string \<Rightarrow> (string \<times> string) list option \<Rightarrow> streams \<Rightarrow> verb_result" where
  "runVersion g cmdVersion info st =
     (if gf_json g then emitJSON (render (versionJSON cmdVersion (vcsCommit info))) st else (None, dataln cmdVersion st))"

definition remoteNotReady :: "string option \<Rightarrow> string \<Rightarrow> string \<Rightarrow> cli_error" where
  "remoteNotReady no_client verb target =
     (case no_client of
        Some m \<Rightarrow> sshNotReady m
      | None \<Rightarrow> codedf ExitConfig (verb @ '' '' @ target @ '': remote transport not yet wired for this verb''))"

definition runHealth ::
  "(string \<Rightarrow> string option) \<Rightarrow> string option \<Rightarrow> (cli_error, control_client) result \<Rightarrow> get_result \<Rightarrow> string \<Rightarrow>
   streams \<Rightarrow> verb_result" where
  "runHealth error_field no_client control res target st =
     (if target \<noteq> [] then (Some (remoteNotReady no_client ''health'' target), st)
      else case control of
        Inl e \<Rightarrow> (Some e, st)
      | Inr c \<Rightarrow>
          (case res of
             GetFail e \<Rightarrow> (coded ExitUnreachable (Some (transportErr e)), st)
           | GetStatus status body \<Rightarrow>
               if status \<noteq> 200 then (Some (statusErr error_field status body), st) else (None, dataln body st)))"

section \<open>doctor\<close>

record doctor_report =
  dr_ok :: bool
  dr_config :: string
  dr_port :: nat
  dr_tokenStore :: string
  dr_tokenPresent :: bool
  dr_tokenFileMode :: string
  dr_tokenFileWarning :: string
  dr_platform :: string

definition platformString :: "goos \<Rightarrow> string" where
  "platformString os = (case os of Darwin \<Rightarrow> ''darwin'' | Linux \<Rightarrow> ''linux'')"

text \<open>Fields marked \<open>omitempty\<close> are left out when empty or zero.\<close>

definition json_bool :: "bool \<Rightarrow> json" where
  "json_bool b = (if b then JTrue else JFalse)"

definition omitempty :: "string \<Rightarrow> string \<Rightarrow> (string \<times> json) list" where
  "omitempty key v = (if v = [] then [] else [(key, JStr v)])"

definition doctorReport :: "doctor_report \<Rightarrow> json" where
  "doctorReport r =
     JObj ([(''schema'', JStr schemaVersion), (''ok'', json_bool (dr_ok r)), (''config'', JStr (dr_config r))] @
       (if dr_port r = 0 then [] else [(''port'', JNum (decimal (dr_port r)))]) @
       [(''tokenStore'', JStr (dr_tokenStore r)), (''tokenPresent'', json_bool (dr_tokenPresent r))] @
       omitempty ''tokenFileMode'' (dr_tokenFileMode r) @ omitempty ''tokenFileWarning'' (dr_tokenFileWarning r) @
       [(''platform'', JStr (dr_platform r))])"

text \<open>\<open>FileMode.String\<close> of a regular file, and the group and other bits (octal 077).\<close>

definition mode_string :: "nat \<Rightarrow> string" where
  "mode_string m = CHR ''-'' # map (\<lambda>i. if bit m (8 - i) then ''rwxrwxrwx'' ! i else CHR ''-'') [0..<9]"

definition exposed :: "nat \<Rightarrow> bool" where
  "exposed m \<longleftrightarrow> m AND 63 \<noteq> 0"

definition fileMode :: "bool \<Rightarrow> cfs \<Rightarrow> string \<Rightarrow> nat option" where
  "fileMode stat_fails fs path = (if stat_fails then None else map_option snd (fs path))"

definition okWord :: "bool \<Rightarrow> string" where
  "okWord ok = (if ok then ''all checks passed'' else ''problems found (see above)'')"

definition doctor_config ::
  "(cfg_error \<Rightarrow> string) \<Rightarrow> global_flags \<Rightarrow> (cfg_error, config_data) result \<Rightarrow> doctor_report \<times> streams \<Rightarrow> doctor_report \<times> streams" where
  "doctor_config err g cfg = (\<lambda>(r, st).
     (case cfg of
        Inl e \<Rightarrow> (r\<lparr>dr_ok := False, dr_config := ''error: '' @ err e\<rparr>, diag g (''doctor: config: '' @ err e) st)
      | Inr c \<Rightarrow>
          (r\<lparr>dr_config := ''ok'', dr_port := cf_port c\<rparr>,
           diag g (''doctor: config loaded (port '' @ decimal (cf_port c) @ '', maxBytes '' @ marshal_int (maxBytesOf (cf_maxBytes c)) @ '')'') st)))"

definition doctor_token ::
  "(cfg_error \<Rightarrow> string) \<Rightarrow> global_flags \<Rightarrow> (cfg_error, token_store) result \<Rightarrow> (cfg_error, string option) result \<Rightarrow>
   doctor_report \<times> streams \<Rightarrow> doctor_report \<times> streams" where
  "doctor_token err g ts loaded = (\<lambda>(r, st).
     (case ts of
        Inl e \<Rightarrow> (r\<lparr>dr_tokenStore := ''unavailable: '' @ err e\<rparr>, diag g (''doctor: token store unavailable: '' @ err e) st)
      | Inr s \<Rightarrow>
          (r\<lparr>dr_tokenStore := TokenStore_Kind s, dr_tokenPresent := (case loaded of Inr (Some t) \<Rightarrow> True | _ \<Rightarrow> False)\<rparr>,
           diag g
             (case loaded of
                Inl e \<Rightarrow> ''doctor: token load error: '' @ err e
              | Inr (Some t) \<Rightarrow> ''doctor: token store='' @ TokenStore_Kind s @ '', token present''
              | Inr None \<Rightarrow> ''doctor: token store='' @ TokenStore_Kind s @ '', NO token (run `clipbeam setup`)'') st)))"

definition doctor_mode :: "global_flags \<Rightarrow> string \<Rightarrow> nat option \<Rightarrow> doctor_report \<times> streams \<Rightarrow> doctor_report \<times> streams" where
  "doctor_mode g path mode = (\<lambda>(r, st).
     (if path = [] then (r, st)
      else case mode of
        None \<Rightarrow> (r, st)
      | Some m \<Rightarrow>
          if exposed m then
            (r\<lparr>dr_tokenFileMode := mode_string m, dr_tokenFileWarning := ''token file is group/other-readable; expected 0600''\<rparr>,
             diag g (''doctor: WARNING: token file '' @ path @ '' mode '' @ mode_string m @ '' is group/other-readable (expected 0600)'') st)
          else (r\<lparr>dr_tokenFileMode := mode_string m\<rparr>, st)))"

text \<open>The load of the token may change its file; the check of the mode comes after it.\<close>

definition machine_store :: "machine \<Rightarrow> paths \<Rightarrow> (cfg_error, token_store) result" where
  "machine_store ma p = OpenTokenStore (ma_os ma) (ma_getenv ma) (ma_secretTool ma) (ma_home ma) TokenStoreAuto p"

definition machine_loaded :: "machine \<Rightarrow> paths \<Rightarrow> (cfg_error, string option) result \<times> cfs" where
  "machine_loaded ma p =
     (case machine_store ma p of
        Inl e \<Rightarrow> (Inl e, ma_fs ma)
      | Inr ts \<Rightarrow> TokenStore_Load ts (ma_loadRun ma) (ma_statFails ma) (ma_readFault ma) (ma_fs ma))"

definition doctor_checks :: "(cfg_error \<Rightarrow> string) \<Rightarrow> global_flags \<Rightarrow> machine \<Rightarrow> paths \<Rightarrow> streams \<Rightarrow> doctor_report \<times> streams" where
  "doctor_checks err g ma p st =
     doctor_mode g (pa_token p) (fileMode (ma_statFails ma) (snd (machine_loaded ma p)) (pa_token p))
       (doctor_token err g (machine_store ma p) (fst (machine_loaded ma p))
         (doctor_config err g (machine_config ma)
           (\<lparr>dr_ok = True, dr_config = [], dr_port = 0, dr_tokenStore = [], dr_tokenPresent = False, dr_tokenFileMode = [],
             dr_tokenFileWarning = [], dr_platform = platformString (ma_os ma)\<rparr>, st)))"

definition runDoctor :: "(cfg_error \<Rightarrow> string) \<Rightarrow> global_flags \<Rightarrow> machine \<Rightarrow> streams \<Rightarrow> verb_result \<times> cfs" where
  "runDoctor err g ma st =
     (case machine_paths ma of
        None \<Rightarrow> ((Some no_home, st), ma_fs ma)
      | Some p \<Rightarrow>
          let (r, st1) = doctor_checks err g ma p st in
          (if gf_json g then emitJSON (render (doctorReport r)) st1 else (None, diag g (''doctor: '' @ okWord (dr_ok r)) st1),
           snd (machine_loaded ma p)))"

section \<open>Lemmas\<close>

lemma doctor_config_fields:
  "fst (doctor_config err g cfg (r, st)) =
     (case cfg of Inl e \<Rightarrow> r\<lparr>dr_ok := False, dr_config := ''error: '' @ err e\<rparr> | Inr c \<Rightarrow> r\<lparr>dr_config := ''ok'', dr_port := cf_port c\<rparr>)"
  "st_out (snd (doctor_config err g cfg x)) = st_out (snd x)"
  by (cases x; simp add: doctor_config_def diag_def split: sum.split)+

lemma doctor_token_fields:
  "fst (doctor_token err g ts loaded (r, st)) =
     (case ts of Inl e \<Rightarrow> r\<lparr>dr_tokenStore := ''unavailable: '' @ err e\<rparr>
      | Inr s \<Rightarrow> r\<lparr>dr_tokenStore := TokenStore_Kind s, dr_tokenPresent := (\<exists>t. loaded = Inr (Some t))\<rparr>)"
  "st_out (snd (doctor_token err g ts loaded x)) = st_out (snd x)"
  by (cases x; simp add: doctor_token_def diag_def split: sum.split option.split)+

lemma doctor_mode_fields:
  "fst (doctor_mode g path mode (r, st)) =
     (if path = [] then r
      else case mode of None \<Rightarrow> r
        | Some m \<Rightarrow> if exposed m
            then r\<lparr>dr_tokenFileMode := mode_string m, dr_tokenFileWarning := ''token file is group/other-readable; expected 0600''\<rparr>
            else r\<lparr>dr_tokenFileMode := mode_string m\<rparr>)"
  "st_out (snd (doctor_mode g path mode x)) = st_out (snd x)"
  by (cases x; simp add: doctor_mode_def diag_def split: option.split)+

lemma doctor_report_fields:
  defines "rep \<equiv> \<lambda>err g ma p st. fst (doctor_checks err g ma p st)"
  shows "dr_ok (rep err g ma p st) \<longleftrightarrow> (\<exists>cfg. machine_config ma = Inr cfg)"
    "dr_tokenPresent (rep err g ma p st) \<longleftrightarrow> (\<exists>t. fst (machine_loaded ma p) = Inr (Some t))"
    "dr_tokenFileWarning (rep err g ma p st) \<noteq> [] \<longleftrightarrow>
       pa_token p \<noteq> [] \<and> (\<exists>m. fileMode (ma_statFails ma) (snd (machine_loaded ma p)) (pa_token p) = Some m \<and> exposed m)"
    "st_out (snd (doctor_checks err g ma p st)) = st_out st"
proof -
  obtain r1 st1 where c: "doctor_config err g (machine_config ma)
      (\<lparr>dr_ok = True, dr_config = [], dr_port = 0, dr_tokenStore = [], dr_tokenPresent = False, dr_tokenFileMode = [],
        dr_tokenFileWarning = [], dr_platform = platformString (ma_os ma)\<rparr>, st) = (r1, st1)" by fastforce
  obtain r2 st2 where t: "doctor_token err g (machine_store ma p) (fst (machine_loaded ma p)) (r1, st1) = (r2, st2)" by fastforce
  have r1: "dr_ok r1 \<longleftrightarrow> (\<exists>cfg. machine_config ma = Inr cfg)" "\<not> dr_tokenPresent r1" "dr_tokenFileWarning r1 = []"
    using arg_cong[OF c, of fst] unfolding doctor_config_fields by (auto split: sum.splits)
  have r2: "dr_ok r2 = dr_ok r1" "dr_tokenFileWarning r2 = []"
    "dr_tokenPresent r2 \<longleftrightarrow> (\<exists>t. fst (machine_loaded ma p) = Inr (Some t))"
    using arg_cong[OF t, of fst] r1 unfolding doctor_token_fields
    by (auto simp: machine_loaded_def split: sum.splits)
  have eq: "doctor_checks err g ma p st =
      doctor_mode g (pa_token p) (fileMode (ma_statFails ma) (snd (machine_loaded ma p)) (pa_token p)) (r2, st2)"
    by (simp add: doctor_checks_def c t)
  show "dr_ok (rep err g ma p st) \<longleftrightarrow> (\<exists>cfg. machine_config ma = Inr cfg)"
    "dr_tokenPresent (rep err g ma p st) \<longleftrightarrow> (\<exists>t. fst (machine_loaded ma p) = Inr (Some t))"
    "dr_tokenFileWarning (rep err g ma p st) \<noteq> [] \<longleftrightarrow>
       pa_token p \<noteq> [] \<and> (\<exists>m. fileMode (ma_statFails ma) (snd (machine_loaded ma p)) (pa_token p) = Some m \<and> exposed m)"
    using r1 r2 by (auto simp: rep_def eq doctor_mode_fields split: option.splits)
  show "st_out (snd (doctor_checks err g ma p st)) = st_out st"
    using arg_cong[OF c, of "st_out \<circ> snd"] arg_cong[OF t, of "st_out \<circ> snd"]
    by (simp add: eq doctor_mode_fields doctor_token_fields doctor_config_fields)
qed

lemma machine_token_loaded:
  "machine_token ma p = (case fst (machine_loaded ma p) of Inr (Some t) \<Rightarrow> t | _ \<Rightarrow> [])"
  by (simp add: machine_token_def machine_loaded_def machine_store_def split: sum.split)

lemma loaded_not_Nil: "fst (machine_loaded ma p) \<noteq> Inr (Some [])"
  by (simp add: machine_loaded_def TokenStore_Load_def file_token_Load_def ring_token_Load_def Let_def
      split: sum.splits token_store.splits option.splits exec_result.splits)

lemma machine_store_file:
  "machine_store ma p = Inr (FileTokenStore path) \<Longrightarrow> pa_token p \<noteq> [] \<Longrightarrow> path = pa_token p"
  by (simp add: machine_store_def OpenTokenStore_def newFileTokenStore_def newSecretServiceStore_def split: if_splits option.splits)

lemma loaded_file_mode:
  assumes "machine_store ma p = Inr (FileTokenStore (pa_token p))" "pa_token p \<noteq> []" "\<not> ma_statFails ma"
    "ma_fs ma (pa_token p) = Some (c, m)"
  shows "snd (machine_loaded ma p) (pa_token p) = Some (c, mode0600)"
  using assms by (simp add: machine_loaded_def TokenStore_Load_def file_token_Load_def Let_def)

lemma ring_loaded: "machine_store ma p = Inr ts \<Longrightarrow> \<nexists>path. ts = FileTokenStore path \<Longrightarrow> snd (machine_loaded ma p) = ma_fs ma"
  by (cases ts) (simp_all add: machine_loaded_def TokenStore_Load_def)

lemma not_exposed_0600: "\<not> exposed mode0600"
  by (simp add: exposed_def)

lemma doctor_json_ok: "json_ok (doctorReport r)"
  using decimal_digits[of _ "dr_port r"]
  by (auto simp: doctorReport_def json_bool_def omitempty_def list_all_iff number_byte_def num_byte_def)

section \<open>Properties\<close>


definition witness_exposed :: machine where
  "witness_exposed = witness_machine\<lparr>ma_fs := (\<lambda>_. Some (''ABC'', 420))\<rparr>"


end
