(* ===== verification/Skill.thy ===== *)
theory Skill
  imports Meta
begin

text \<open>
  The command \<open>install-skill\<close> (\<open>installskill.go\<close>): which directories it writes to and when it leaves a file
  alone. The embedded texts, the environment and the failures of the file system are parameters; a file is its
  bytes.
\<close>

section \<open>The targets\<close>

record skill_target =
  sk_name :: string
  sk_dir :: string
  sk_envHint :: string

definition envOr :: "(string \<Rightarrow> string) \<Rightarrow> string \<Rightarrow> string \<Rightarrow> string" where
  "envOr getenv var def0 = (if getenv var \<noteq> [] then getenv var else def0)"

definition skill_target_of :: "(string \<Rightarrow> string) \<Rightarrow> string \<Rightarrow> string \<Rightarrow> string \<times> string \<times> string \<Rightarrow> skill_target" where
  "skill_target_of getenv home dir = (\<lambda>(nm, var, base).
     \<lparr>sk_name = nm,
      sk_dir = (if dir \<noteq> [] then path_join dir ''clipbeam''
        else path_join (path_join (envOr getenv var (path_join home base)) ''skills'') ''clipbeam''),
      sk_envHint = var\<rparr>)"

definition resolveSkillTargets ::
  "(string \<Rightarrow> string) \<Rightarrow> string \<Rightarrow> string \<Rightarrow> string \<Rightarrow> (cli_error, skill_target list) result" where
  "resolveSkillTargets getenv home target dir =
     (if home = [] then Inl (configError ''cannot resolve home directory'')
      else
        let claude = skill_target_of getenv home dir (''claude'', ''CLAUDE_CONFIG_DIR'', ''.claude'');
            codex = skill_target_of getenv home dir (''codex'', ''CODEX_HOME'', ''.codex'') in
        if target = ''all'' \<or> target = [] then Inr [claude, codex]
        else if target = ''claude'' then Inr [claude]
        else if target = ''codex'' then Inr [codex]
        else Inl (usageError (''install-skill: --target must be claude | codex | all (got '' @ quote # target @ quote # '')'')))"

section \<open>The files\<close>

text \<open>What \<open>os.WriteFile\<close> does: it can fail to open the file, or truncate it and stop in the middle.\<close>

datatype write_fault = NoWriteFault | OpenFault | PartialWrite nat

record skill_env =
  sv_skill :: string
  sv_agents :: string
  sv_mkdirFails :: "string \<Rightarrow> bool"
  sv_writeFault :: "string \<Rightarrow> write_fault"

type_synonym skill_fs = "string \<Rightarrow> string option"

definition write_file :: "write_fault \<Rightarrow> string \<Rightarrow> string \<Rightarrow> skill_fs \<Rightarrow> bool \<times> skill_fs" where
  "write_file fault dest content fs =
     (case fault of
        NoWriteFault \<Rightarrow> (True, fs(dest \<mapsto> content))
      | OpenFault \<Rightarrow> (False, fs)
      | PartialWrite n \<Rightarrow> (False, fs(dest \<mapsto> take n content)))"

text \<open>The loop over the two files: the error, the paths written, the streams and the files.\<close>

fun skill_loop ::
  "global_flags \<Rightarrow> skill_env \<Rightarrow> bool \<Rightarrow> string \<Rightarrow> (string \<times> string) list \<Rightarrow> string list \<Rightarrow> streams \<times> skill_fs
   \<Rightarrow> (string, string list) result \<times> streams \<times> skill_fs" where
  "skill_loop g env force dir [] written (st, fs) = (Inr written, st, fs)"
| "skill_loop g env force dir ((nm, content) # fls) written (st, fs) =
     (let dest = path_join dir nm in
      if \<not> force \<and> fs dest \<noteq> None then
        skill_loop g env force dir fls written
          (diag g (''install-skill: '' @ dest @ '' already exists (use --force to overwrite)'') st, fs)
      else case write_file (sv_writeFault env dest) dest content fs of
        (False, fs1) \<Rightarrow> (Inl (''write '' @ dest), st, fs1)
      | (True, fs1) \<Rightarrow> skill_loop g env force dir fls (written @ [dest]) (st, fs1))"

definition skill_files :: "skill_env \<Rightarrow> (string \<times> string) list" where
  "skill_files env = [(''SKILL.md'', sv_skill env), (''AGENTS.md'', sv_agents env)]"

definition writeSkillFiles ::
  "global_flags \<Rightarrow> skill_env \<Rightarrow> bool \<Rightarrow> skill_target \<Rightarrow> streams \<times> skill_fs \<Rightarrow> (string, string list) result \<times> streams \<times> skill_fs" where
  "writeSkillFiles g env force t sf =
     (if sv_mkdirFails env (sk_dir t) then (Inl (''create '' @ sk_dir t), sf)
      else skill_loop g env force (sk_dir t) (skill_files env) [] sf)"

fun install_targets ::
  "global_flags \<Rightarrow> skill_env \<Rightarrow> bool \<Rightarrow> skill_target list \<Rightarrow> string list \<Rightarrow> streams \<times> skill_fs
   \<Rightarrow> (string, string list) result \<times> streams \<times> skill_fs" where
  "install_targets g env force [] written sf = (Inr written, sf)"
| "install_targets g env force (t # ts) written sf =
     (case writeSkillFiles g env force t sf of
        (Inl e, sf1) \<Rightarrow> (Inl e, sf1)
      | (Inr ps, sf1) \<Rightarrow> install_targets g env force ts (written @ ps) sf1)"

definition installSkillResult :: "string list \<Rightarrow> json" where
  "installSkillResult written =
     JObj [(''schema'', JStr schemaVersion), (''ok'', JTrue), (''written'', JArr (map JStr written))]"

definition runInstallSkill ::
  "global_flags \<Rightarrow> (string \<Rightarrow> string) \<Rightarrow> string \<Rightarrow> skill_env \<Rightarrow> string \<Rightarrow> string \<Rightarrow> bool \<Rightarrow> bool \<Rightarrow> streams \<times> skill_fs
   \<Rightarrow> verb_result \<times> skill_fs" where
  "runInstallSkill g getenv home env target dir force listTargets sf =
     (let (st, fs) = sf in
      case resolveSkillTargets getenv home target dir of
        Inl e \<Rightarrow> ((Some e, st), fs)
      | Inr ts \<Rightarrow>
          if listTargets then ((None, fold (\<lambda>t. dataln (sk_name t @ CHR 0x09 # sk_dir t)) ts st), fs)
          else (case install_targets g env force ts [] (st, fs) of
            (Inl e, st1, fs1) \<Rightarrow> ((coded ExitGeneric (Some (plain_error e)), st1), fs1)
          | (Inr written, st1, fs1) \<Rightarrow>
              (if gf_json g then emitJSON (render (installSkillResult written)) st1
               else (None,
                 let st2 = fold dataln written st1 in
                 if written = [] then diag g ''install-skill: nothing written (all targets already present; use --force to overwrite)'' st2
                 else st2), fs1)))"

section \<open>What an installation does to the files\<close>

lemma split_on_append_any: "split_on b (s @ b # t) = split_on b s @ split_on b t"
  by (induction s) (auto split: list.splits)

lemma path_join_ends: "leaf_elem x \<Longrightarrow> \<exists>u. path_join a x = u @ x"
proof (cases "a = []")
  case True
  assume x: "leaf_elem x"
  then have "split_on slash x = [x]" "\<not> has_prefix x ''/''" by (cases x; auto simp: leaf_elem_def split_on_notin has_prefix_def)+
  then show ?thesis using x True by (auto simp: path_join_def path_clean_def clean_step_def leaf_elem_def)
next
  case False
  assume x: "leaf_elem x"
  define acc where "acc = fold (clean_step (has_prefix (a @ slash # x) ''/'')) (split_on slash a) []"
  have "split_on slash x = [x]" using x by (simp add: leaf_elem_def split_on_notin)
  then have "fold (clean_step (has_prefix (a @ slash # x) ''/'')) (split_on slash (a @ slash # x)) [] = x # acc"
    using x by (simp add: split_on_append_any acc_def) (simp add: clean_step_def leaf_elem_def)
  moreover have "\<exists>u. join_with slash (rev acc @ [x]) = u @ x"
    using join_with_snoc[of "rev acc" slash x] by (cases "acc = []") auto
  ultimately show ?thesis using False by (auto simp: path_join_def path_clean_def Let_def intro: exI[of _ "slash # _"])
qed

text \<open>\<open>C\<close> is the text that belongs under a path.\<close>

definition leaves :: "bool \<Rightarrow> string list \<Rightarrow> skill_fs \<Rightarrow> skill_fs \<Rightarrow> bool" where
  "leaves force ds fs fs' \<longleftrightarrow>
     (\<forall>d. d \<notin> set ds \<longrightarrow> fs' d = fs d) \<and> (\<not> force \<longrightarrow> (\<forall>d. fs d \<noteq> None \<longrightarrow> fs' d = fs d))"

definition installs :: "(string \<Rightarrow> string) \<Rightarrow> bool \<Rightarrow> string list \<Rightarrow> skill_fs \<Rightarrow> skill_fs \<Rightarrow> string list \<Rightarrow> bool" where
  "installs C force ds fs fs' ws \<longleftrightarrow>
     (\<forall>d\<in>set ds. fs' d \<noteq> None) \<and> (\<forall>d\<in>set ws. fs' d = Some (C d)) \<and>
     (if force then ws = ds else set ws = {d \<in> set ds. fs d = None} \<and> distinct ws)"

lemma leaves_refl [simp]: "leaves force ds fs fs"
  by (simp add: leaves_def)

lemma leaves_append: "leaves force ds fs fs1 \<Longrightarrow> leaves force es fs1 fs2 \<Longrightarrow> leaves force (ds @ es) fs fs2"
  unfolding leaves_def by (metis Un_iff set_append)

lemma leaves_more: "leaves force ds fs fs' \<Longrightarrow> leaves force (ds @ es) fs fs'"
  by (simp add: leaves_def)

lemma installs_append:
  assumes "leaves force ds fs fs1" "installs C force ds fs fs1 ws" "leaves force es fs1 fs2" "installs C force es fs1 fs2 vs"
  shows "installs C force (ds @ es) fs fs2 (ws @ vs)"
proof (cases force)
  case True
  then show ?thesis using assms unfolding leaves_def installs_def by (metis Un_iff set_append)
next
  case False
  have l: "\<forall>d. d \<notin> set ds \<longrightarrow> fs1 d = fs d" "\<forall>d. fs d \<noteq> None \<longrightarrow> fs1 d = fs d" "\<forall>d. fs1 d \<noteq> None \<longrightarrow> fs2 d = fs1 d"
    and i: "\<forall>d\<in>set ds. fs1 d \<noteq> None" "\<forall>d\<in>set ws. fs1 d = Some (C d)" "\<forall>d\<in>set es. fs2 d \<noteq> None" "\<forall>d\<in>set vs. fs2 d = Some (C d)"
      "set ws = {d \<in> set ds. fs d = None}" "set vs = {d \<in> set es. fs1 d = None}" "distinct ws" "distinct vs"
    using assms False unfolding leaves_def installs_def by auto
  have "\<forall>d\<in>set (ds @ es). fs2 d \<noteq> None" using l(3) i(1,3) by auto
  moreover have "\<forall>d\<in>set (ws @ vs). fs2 d = Some (C d)" using l(3) i(2,4) by auto
  moreover have "set (ws @ vs) = {d \<in> set (ds @ es). fs d = None}"
  proof -
    have "x \<in> set ws \<or> x \<in> set vs \<longleftrightarrow> (x \<in> set ds \<or> x \<in> set es) \<and> fs x = None" for x
      using l(1)[rule_format, of x] l(2)[rule_format, of x] i(1,5,6) by (cases "fs x") auto
    then show ?thesis by auto
  qed
  moreover have "set ws \<inter> set vs = {}" using i(1,5,6) by auto
  ultimately show ?thesis using False i(7,8) by (simp add: installs_def)
qed

lemma skill_loop_result:
  assumes "skill_loop g env force dir fls written (st, fs) = (r, st', fs')" "\<forall>(nm, c)\<in>set fls. C (path_join dir nm) = c"
  shows "leaves force (map (path_join dir \<circ> fst) fls) fs fs' \<and> st_out st' = st_out st \<and>
    (\<forall>ws. r = Inr ws \<longrightarrow> (\<exists>new. ws = written @ new \<and> installs C force (map (path_join dir \<circ> fst) fls) fs fs' new))"
  using assms
proof (induction g env force dir fls written "(st, fs)" arbitrary: st fs r st' fs' rule: skill_loop.induct)
  case (1 g env force dir written st fs)
  then show ?case by (auto simp: installs_def)
next
  case (2 g env force dir nm content fls written st fs)
  let ?d = "path_join dir nm"
  have C: "C ?d = content" "\<forall>(nm, c)\<in>set fls. C (path_join dir nm) = c" using "2.prems"(2) by auto
  show ?case
  proof (cases "\<not> force \<and> fs ?d \<noteq> None")
    case True
    have "installs C force [?d] fs fs []" using True by (auto simp: installs_def)
    moreover have "leaves force [?d] fs fs" by simp
    ultimately show ?thesis
      using "2.hyps"(1)[OF refl True _ C(2)] "2.prems"(1) True leaves_append[of force "[?d]" fs fs]
        installs_append[of force "[?d]" fs fs C "[]"] by (fastforce simp: diag_def)
  next
    case False
    have step: "skill_loop g env force dir ((nm, content) # fls) written (st, fs) =
        (case write_file (sv_writeFault env ?d) ?d content fs of
          (False, fs1) \<Rightarrow> (Inl (''write '' @ ?d), st, fs1)
        | (True, fs1) \<Rightarrow> skill_loop g env force dir fls (written @ [?d]) (st, fs1))"
      by (simp only: skill_loop.simps Let_def if_not_P[OF False])
    obtain ok fs1 where w: "write_file (sv_writeFault env ?d) ?d content fs = (ok, fs1)" by fastforce
    have l: "leaves force [?d] fs fs1"
      using w False by (auto simp: write_file_def leaves_def split: write_fault.splits)
    show ?thesis
    proof (cases ok)
      case True
      have i: "installs C force [?d] fs fs1 [?d]"
        using w False True C(1) by (auto simp: write_file_def installs_def split: write_fault.splits)
      have run: "skill_loop g env force dir fls (written @ [?d]) (st, fs1) = (r, st', fs')"
        using "2.prems"(1) True unfolding step w by simp
      have t: "ok = True" using True by simp
      show ?thesis
        using "2.hyps"(2)[OF refl False w[symmetric] t run C(2)] leaves_append[OF l] installs_append[OF l i] by fastforce
    next
      case notok: False
      then show ?thesis using "2.prems"(1) leaves_more[OF l] unfolding step w by auto
    qed
  qed
qed

definition target_dests :: "skill_target \<Rightarrow> string list" where
  "target_dests t = [path_join (sk_dir t) ''SKILL.md'', path_join (sk_dir t) ''AGENTS.md'']"

text \<open>The two names end differently, so a path has one text.\<close>

definition skill_content :: "skill_env \<Rightarrow> string \<Rightarrow> string" where
  "skill_content env d = (if \<exists>u. d = u @ ''SKILL.md'' then sv_skill env else sv_agents env)"

lemma skill_content_files: "\<forall>(nm, c)\<in>set (skill_files env). skill_content env (path_join dir nm) = c"
proof -
  obtain u v where u: "path_join dir ''SKILL.md'' = u @ ''SKILL.md''" and v: "path_join dir ''AGENTS.md'' = v @ ''AGENTS.md''"
    using path_join_ends[of "''SKILL.md''" dir] path_join_ends[of "''AGENTS.md''" dir] by (auto simp: leaf_elem_def)
  have "v @ ''AGENTS.md'' \<noteq> w @ ''SKILL.md''" for w
    using arg_cong[of "v @ ''AGENTS.md''" "w @ ''SKILL.md''" rev] by auto
  then show ?thesis by (auto simp: skill_files_def skill_content_def u v)
qed

lemma writeSkillFiles_result:
  assumes "writeSkillFiles g env force t (st, fs) = (r, st', fs')"
  shows "leaves force (target_dests t) fs fs' \<and> st_out st' = st_out st \<and>
    (\<forall>ws. r = Inr ws \<longrightarrow> installs (skill_content env) force (target_dests t) fs fs' ws)"
proof (cases "sv_mkdirFails env (sk_dir t)")
  case True
  then show ?thesis using assms by (auto simp: writeSkillFiles_def)
next
  case False
  have "map (path_join (sk_dir t) \<circ> fst) (skill_files env) = target_dests t" by (simp add: skill_files_def target_dests_def)
  then show ?thesis
    using skill_loop_result[of g env force "sk_dir t" "skill_files env" "[]" st fs r st' fs', OF _ skill_content_files] assms False
    by (simp add: writeSkillFiles_def)
qed

lemma install_targets_result:
  "install_targets g env force ts written (st, fs) = (r, st', fs') \<Longrightarrow>
     leaves force (concat (map target_dests ts)) fs fs' \<and> st_out st' = st_out st \<and>
     (\<forall>ws. r = Inr ws \<longrightarrow> (\<exists>new. ws = written @ new \<and> installs (skill_content env) force (concat (map target_dests ts)) fs fs' new))"
proof (induction ts arbitrary: written st fs)
  case Nil
  then show ?case by (auto simp: installs_def)
next
  case (Cons t ts)
  obtain r1 st1 fs1 where w: "writeSkillFiles g env force t (st, fs) = (r1, st1, fs1)" by (metis prod_cases3)
  note t1 = writeSkillFiles_result[OF w]
  show ?case
  proof (cases r1)
    case (Inl e)
    then show ?thesis using Cons.prems w t1 by (auto intro: leaves_more)
  next
    case (Inr ps)
    then have "install_targets g env force ts (written @ ps) (st1, fs1) = (r, st', fs')" using Cons.prems w by simp
    from Cons.IH[OF this] show ?thesis
      using t1 Inr leaves_append installs_append[of force "target_dests t" fs fs1] by fastforce
  qed
qed

lemma skill_loop_nothing:
  "\<forall>(nm, c)\<in>set fls. fs (path_join dir nm) \<noteq> None \<Longrightarrow> \<exists>st'. skill_loop g env False dir fls written (st, fs) = (Inr written, st', fs)"
  by (induction fls arbitrary: st) (auto simp: Let_def)

lemma install_targets_nothing:
  assumes "\<forall>d. \<not> sv_mkdirFails env d" "\<forall>d\<in>set (concat (map target_dests ts)). fs d \<noteq> None"
  shows "\<exists>st'. install_targets g env False ts written (st, fs) = (Inr written, st', fs)"
  using assms(2)
proof (induction ts arbitrary: st)
  case (Cons t ts)
  then have "\<forall>(nm, c)\<in>set (skill_files env). fs (path_join (sk_dir t) nm) \<noteq> None"
    by (simp add: skill_files_def target_dests_def)
  then obtain st1 where "skill_loop g env False (sk_dir t) (skill_files env) [] (st, fs) = (Inr [], st1, fs)"
    using skill_loop_nothing by blast
  then have "writeSkillFiles g env False t (st, fs) = (Inr [], st1, fs)" using assms(1) by (simp add: writeSkillFiles_def)
  then show ?case using Cons by simp
qed simp

lemma fold_dataln: "st_out (fold dataln ws st) = st_out st @ map (\<lambda>w. OutData (w @ [newline])) ws"
  by (induction ws arbitrary: st) (simp_all add: dataln_def)

section \<open>Properties\<close>

text \<open>C34. What \<open>install-skill\<close> may do to the files, however the file system fails. It touches only SKILL.md and
  AGENTS.md of the resolved targets, and with --list-targets nothing; without --force no file that is there
  changes, so a file left truncated by a failed write stays as it is; a run that ends well has both files in
  every target, each file it wrote holds the embedded text, it wrote those that were missing (all of them with
  --force), and it printed exactly the paths it wrote; and after it another run without --force writes
  nothing and prints nothing.\<close>

theorem install_skill_safe:
  assumes "resolveSkillTargets getenv home target dir = Inr ts"
    and "runInstallSkill g getenv home env target dir force listTargets (st, fs) = ((r, st'), fs')"
    and "ds = concat (map (\<lambda>t. [path_join (sk_dir t) ''SKILL.md'', path_join (sk_dir t) ''AGENTS.md'']) ts)"
  shows "(\<forall>d. d \<notin> set ds \<longrightarrow> fs' d = fs d) \<and> (\<not> force \<longrightarrow> (\<forall>d. fs d \<noteq> None \<longrightarrow> fs' d = fs d)) \<and> (listTargets \<longrightarrow> fs' = fs)
    \<and> (r = None \<and> \<not> listTargets \<longrightarrow>
        (\<forall>d\<in>set ds. fs' d \<noteq> None) \<and>
        (\<exists>ws. (if force then ws = ds else set ws = {d \<in> set ds. fs d = None} \<and> distinct ws)
          \<and> (\<forall>d\<in>set ws. fs' d = Some (if \<exists>u. d = u @ ''SKILL.md'' then sv_skill env else sv_agents env))
          \<and> (\<not> gf_json g \<longrightarrow> st_out st' = st_out st @ map (\<lambda>w. OutData (w @ [newline])) ws))
        \<and> (\<forall>env2 st2. (\<forall>d. \<not> sv_mkdirFails env2 d) \<longrightarrow> \<not> gf_json g \<longrightarrow>
            (\<exists>st3. runInstallSkill g getenv home env2 target dir False False (st2, fs') = ((None, st3), fs') \<and> st_out st3 = st_out st2)))"
proof (cases listTargets)
  case True
  then show ?thesis using assms(1,2) by (simp add: runInstallSkill_def)
next
  case False
  have ds: "ds = concat (map target_dests ts)"
    unfolding assms(3) by (intro arg_cong[where f = concat] map_cong refl) (simp add: target_dests_def)
  obtain x st1 fs1 where i: "install_targets g env force ts [] (st, fs) = (x, st1, fs1)" by (metis prod_cases3)
  note res = install_targets_result[OF i, folded ds]
  have fs1: "fs' = fs1" using assms(1,2) False i by (auto simp: runInstallSkill_def emitJSON_def split: sum.splits if_splits)
  have l: "leaves force ds fs fs'" using res fs1 by simp
  show ?thesis
  proof (cases "r = None")
    case True
    then obtain ws where x: "x = Inr ws" and st': "\<not> gf_json g \<Longrightarrow> st_out st' = st_out st1 @ map (\<lambda>w. OutData (w @ [newline])) ws"
      using assms(1,2) False i
      by (cases x) (auto simp: runInstallSkill_def emitJSON_def coded_def Let_def fold_dataln diag_def split: if_splits)
    then have ws: "installs (skill_content env) force ds fs fs' ws" using res fs1 by simp
    have again: "\<exists>st3. runInstallSkill g getenv home env2 target dir False False (st2, fs') = ((None, st3), fs') \<and> st_out st3 = st_out st2"
      if ok: "\<forall>d. \<not> sv_mkdirFails env2 d" and "\<not> gf_json g" for env2 st2
    proof -
      obtain st4 where st4: "install_targets g env2 False ts [] (st2, fs') = (Inr [], st4, fs')"
        using install_targets_nothing[OF ok] ws by (metis ds installs_def)
      have "st_out st4 = st_out st2" using install_targets_result[OF st4] by simp
      then show ?thesis using assms(1) st4 that by (simp add: runInstallSkill_def diag_def)
    qed
    have out: "\<not> gf_json g \<longrightarrow> st_out st' = st_out st @ map (\<lambda>w. OutData (w @ [newline])) ws" using st' res by simp
    have kept: "\<forall>d. d \<notin> set ds \<longrightarrow> fs' d = fs d" "\<not> force \<longrightarrow> (\<forall>d. fs d \<noteq> None \<longrightarrow> fs' d = fs d)"
      using l unfolding leaves_def by blast+
    have done1: "\<forall>d\<in>set ds. fs' d \<noteq> None" "if force then ws = ds else set ws = {d \<in> set ds. fs d = None} \<and> distinct ws"
      "\<forall>d\<in>set ws. fs' d = Some (if \<exists>u. d = u @ ''SKILL.md'' then sv_skill env else sv_agents env)"
      using ws unfolding installs_def skill_content_def by blast+
    show ?thesis
      using False again by (intro conjI impI kept done1 allI exI[of _ ws] out[rule_format]) (simp_all only: kept simp_thms)
  next
    case notok: False
    then show ?thesis using l False unfolding leaves_def by blast
  qed
qed

definition witness_skill_env :: skill_env where
  "witness_skill_env = \<lparr>sv_skill = ''S'', sv_agents = ''A'', sv_mkdirFails = (\<lambda>d. False), sv_writeFault = (\<lambda>d. NoWriteFault)\<rparr>"

theorem install_skill_safe_witness:
  "\<exists>t r st' fs'. resolveSkillTargets (\<lambda>v. []) ''/h'' ''claude'' [] = Inr [t] \<and>
     runInstallSkill witness_flags (\<lambda>v. []) ''/h'' witness_skill_env ''claude'' [] True False (\<lparr>st_out = [], st_err = []\<rparr>, (\<lambda>p. Some ''old'')) =
       ((r, st'), fs') \<and> fs' (path_join (sk_dir t) ''SKILL.md'') = Some ''S'' \<and> fs' (path_join (sk_dir t) ''AGENTS.md'') \<noteq> None"
proof -
  let ?st = "\<lparr>st_out = [], st_err = []\<rparr>" and ?fs = "\<lambda>p. Some ''old''"
  obtain t where t: "resolveSkillTargets (\<lambda>v. []) ''/h'' ''claude'' [] = Inr [t]" by (simp add: resolveSkillTargets_def)
  obtain r st' fs' where run: "runInstallSkill witness_flags (\<lambda>v. []) ''/h'' witness_skill_env ''claude'' [] True False (?st, ?fs) = ((r, st'), fs')"
    by (metis surj_pair)
  moreover have "r = None"
    using run t by (simp add: runInstallSkill_def writeSkillFiles_def skill_files_def witness_skill_env_def write_file_def emitJSON_def witness_flags_def Let_def)
  ultimately have "\<forall>d\<in>set (concat (map (\<lambda>t. [path_join (sk_dir t) ''SKILL.md'', path_join (sk_dir t) ''AGENTS.md'']) [t])).
      fs' d = Some (if \<exists>u. d = u @ ''SKILL.md'' then sv_skill witness_skill_env else sv_agents witness_skill_env)"
    using install_skill_safe[OF t run refl] unfolding if_True by blast
  then have safe: "\<forall>d\<in>{path_join (sk_dir t) ''SKILL.md'', path_join (sk_dir t) ''AGENTS.md''}.
      fs' d = Some (if \<exists>u. d = u @ ''SKILL.md'' then ''S'' else ''A'')" by (simp add: witness_skill_env_def)
  moreover have "\<exists>u. path_join (sk_dir t) ''SKILL.md'' = u @ ''SKILL.md''" by (rule path_join_ends) (simp add: leaf_elem_def)
  ultimately show ?thesis using t run by (intro exI[of _ t] exI[of _ r] exI[of _ st'] exI[of _ fs']) simp
qed

end
