(* ===== verification/Surface.thy ===== *)
theory Surface
  imports Skill Setup
begin

text \<open>
  The surface of the program: the commands with their arguments and flags (\<open>verbs.go\<close>, \<open>newRootCmd\<close>), the
  description of itself that \<open>schema\<close> prints (\<open>schema.go\<close>), and whether the two agree. How the command library
  counts arguments is a parameter with its documented behaviour.
\<close>

section \<open>The commands\<close>

datatype arg_policy = NoArgs | MaximumNArgs nat | RangeArgs nat nat | ExactArgs nat

datatype flag_kind = BoolFlag bool | StringFlag string | IntFlag int

text \<open>A command, and the positional arguments its \<open>RunE\<close> hands to the verb; \<open>None\<close> is an index out of range.\<close>

record cobra_command =
  cm_use :: string
  cm_short :: string
  cm_args :: arg_policy
  cm_hidden :: bool
  cm_flags :: "(string \<times> flag_kind) list"
  cm_run :: "string list \<Rightarrow> string list option"

definition index_arg :: "string list \<Rightarrow> nat \<Rightarrow> string option" where
  "index_arg args i = (if i < length args then Some (args ! i) else None)"

definition newSendCmd :: cobra_command where
  "newSendCmd =
     \<lparr>cm_use = ''send <file> [target]'', cm_short = ''Beam a file to the box; prints the remote absolute path on stdout'',
      cm_args = RangeArgs 1 2, cm_hidden = False, cm_flags = [(''agent'', BoolFlag False)],
      cm_run = (\<lambda>args. map_option (\<lambda>a. [a, targetArg args 1]) (index_arg args 0))\<rparr>"

definition newShotCmd :: cobra_command where
  "newShotCmd =
     \<lparr>cm_use = ''shot [target]'', cm_short = ''Capture a screenshot, beam it to the box, print the remote path'',
      cm_args = MaximumNArgs 1, cm_hidden = False, cm_flags = [(''agent'', BoolFlag False)],
      cm_run = (\<lambda>args. Some [targetArg args 0])\<rparr>"

definition newMsgCmd :: cobra_command where
  "newMsgCmd =
     \<lparr>cm_use = ''msg <text> [target]'', cm_short = ''Beam a text message on the agent channel'',
      cm_args = RangeArgs 1 2, cm_hidden = False, cm_flags = [(''reply-to'', StringFlag [])],
      cm_run = (\<lambda>args. map_option (\<lambda>a. [a, targetArg args 1]) (index_arg args 0))\<rparr>"

definition newPushCmd :: cobra_command where
  "newPushCmd =
     \<lparr>cm_use = ''push [target]'', cm_short = ''Beam the local clipboard contents to the box'',
      cm_args = MaximumNArgs 1, cm_hidden = False, cm_flags = [],
      cm_run = (\<lambda>args. Some [targetArg args 0])\<rparr>"

definition newLastCmd :: cobra_command where
  "newLastCmd =
     \<lparr>cm_use = ''last'', cm_short = ''Print the most-recently-received absolute path (no trailing newline)'',
      cm_args = NoArgs, cm_hidden = False, cm_flags = [],
      cm_run = (\<lambda>args. Some [])\<rparr>"

definition newWaitCmd :: cobra_command where
  "newWaitCmd =
     \<lparr>cm_use = ''wait'', cm_short = ''Block up to 120s for the next received path; print it (no trailing newline)'',
      cm_args = NoArgs, cm_hidden = False, cm_flags = [],
      cm_run = (\<lambda>args. Some [])\<rparr>"

definition newRecvCmd :: cobra_command where
  "newRecvCmd =
     \<lparr>cm_use = ''recv'', cm_short = ''Dequeue one agent-channel item (default 120s long-poll)'',
      cm_args = NoArgs, cm_hidden = False, cm_flags = [(''timeout'', IntFlag 120)],
      cm_run = (\<lambda>args. Some [])\<rparr>"

definition newWatchCmd :: cobra_command where
  "newWatchCmd =
     \<lparr>cm_use = ''watch'', cm_short = ''Stream received items (NDJSON under --json) until SIGINT'',
      cm_args = NoArgs, cm_hidden = False, cm_flags = [(''channel'', StringFlag ''both'')],
      cm_run = (\<lambda>args. Some [])\<rparr>"

definition newHealthCmd :: cobra_command where
  "newHealthCmd =
     \<lparr>cm_use = ''health [target]'', cm_short = ''Check a peer's /health (liveness via ok==true; values are node-specific)'',
      cm_args = MaximumNArgs 1, cm_hidden = False, cm_flags = [],
      cm_run = (\<lambda>args. Some [targetArg args 0])\<rparr>"

definition newSchemaCmd :: cobra_command where
  "newSchemaCmd =
     \<lparr>cm_use = ''schema'', cm_short = ''Print the machine-readable self-description (verbs, flags, exit codes)'',
      cm_args = NoArgs, cm_hidden = False, cm_flags = [],
      cm_run = (\<lambda>args. Some [])\<rparr>"

definition newVersionCmd :: cobra_command where
  "newVersionCmd =
     \<lparr>cm_use = ''version'', cm_short = ''Print the clipbeam version (use --json for the structured schema)'',
      cm_args = NoArgs, cm_hidden = False, cm_flags = [],
      cm_run = (\<lambda>args. Some [])\<rparr>"

definition newInstallSkillCmd :: cobra_command where
  "newInstallSkillCmd =
     \<lparr>cm_use = ''install-skill'', cm_short = ''Install the clipbeam agent skill (SKILL.md/AGENTS.md) for Claude/Codex'',
      cm_args = NoArgs, cm_hidden = False, cm_flags = [(''target'', StringFlag ''all''), (''dir'', StringFlag []), (''force'', BoolFlag False), (''list-targets'', BoolFlag False)],
      cm_run = (\<lambda>args. Some [])\<rparr>"

definition newServeCmd :: cobra_command where
  "newServeCmd =
     \<lparr>cm_use = ''serve'', cm_short = ''Run the receiver daemon (unix socket by default; --listen tcp|tailscale)'',
      cm_args = NoArgs, cm_hidden = False, cm_flags = [(''listen'', StringFlag ''socket''), (''set-clipboard'', BoolFlag False)],
      cm_run = (\<lambda>args. Some [])\<rparr>"

definition newIngestCmd :: cobra_command where
  "newIngestCmd =
     \<lparr>cm_use = ''ingest'', cm_short = ''Read a CB01 frame from stdin, save it, print the saved abs path(s)'',
      cm_args = NoArgs, cm_hidden = True, cm_flags = [],
      cm_run = (\<lambda>args. Some [])\<rparr>"

definition newSetupCmd :: cobra_command where
  "newSetupCmd =
     \<lparr>cm_use = ''setup <user@host>'', cm_short = ''Bootstrap the box over SSH: stream the binary, pair, record the abs path'',
      cm_args = ExactArgs 1, cm_hidden = False, cm_flags = [(''serve'', StringFlag ''exec''), (''accept-new-hostkey'', BoolFlag False), (''force'', BoolFlag False), (''from-release'', BoolFlag False)],
      cm_run = (\<lambda>args. map_option (\<lambda>a. [a]) (index_arg args 0))\<rparr>"

definition newDoctorCmd :: cobra_command where
  "newDoctorCmd =
     \<lparr>cm_use = ''doctor'', cm_short = ''Diagnose config, token storage, permissions, and transport readiness'',
      cm_args = NoArgs, cm_hidden = False, cm_flags = [],
      cm_run = (\<lambda>args. Some [])\<rparr>"

definition newServiceCmd :: cobra_command where
  "newServiceCmd =
     \<lparr>cm_use = ''service <install|uninstall>'', cm_short = ''Manage the optional systemd --user / launchd service unit (off by default)'',
      cm_args = ExactArgs 1, cm_hidden = False, cm_flags = [],
      cm_run = (\<lambda>args. map_option (\<lambda>a. [a]) (index_arg args 0))\<rparr>"

definition root_commands :: "cobra_command list" where
  "root_commands =
     [newSendCmd, newShotCmd, newMsgCmd, newPushCmd, newLastCmd, newWaitCmd, newRecvCmd, newWatchCmd, newHealthCmd,
      newSchemaCmd, newVersionCmd, newInstallSkillCmd, newServeCmd, newIngestCmd, newSetupCmd, newDoctorCmd, newServiceCmd]"

text \<open>The check of \<open>recv\<close> before its verb runs.\<close>

definition recv_timeout_check :: "int \<Rightarrow> cli_error option" where
  "recv_timeout_check n =
     (if n < 0 then Some (usageError (''recv: --timeout must be >= 0 (got '' @ marshal_int n @ '')'')) else None)"

section \<open>The self-description\<close>

record exit_code_doc =
  ec_code :: int
  ec_meaning :: string
  ec_provenance :: string

text \<open>A nil list of flags is \<open>None\<close>; it is written as null.\<close>

record command_doc =
  cd_name :: string
  cd_summary :: string
  cd_args :: string
  cd_flags :: "string list option"
  cd_stdout :: string
  cd_exitCodes :: "int list"
  cd_jsonSchema :: string

record channels_doc =
  ch_note :: string
  ch_cid :: string

record schema_doc =
  sd_schema :: string
  sd_ok :: bool
  sd_binary :: string
  sd_version :: string
  sd_wireProtocol :: string
  sd_exitCodes :: "exit_code_doc list"
  sd_env :: "(string \<times> string) list"
  sd_commands :: "command_doc list"
  sd_channels :: channels_doc

definition exitCodeTable :: "exit_code_doc list" where
  "exitCodeTable =
     [\<lparr>ec_code = ExitOK, ec_meaning = ''success (incl. a normal long-poll timeout on wait/recv/watch)'',
        ec_provenance = ''-''\<rparr>,
      \<lparr>ec_code = ExitGeneric, ec_meaning = ''generic / unexpected failure'',
        ec_provenance = ''local''\<rparr>,
      \<lparr>ec_code = ExitUsage, ec_meaning = ''usage / bad arguments'',
        ec_provenance = ''local''\<rparr>,
      \<lparr>ec_code = ExitNothing, ec_meaning = ''nothing available (reserved for a future --no-wait read)'',
        ec_provenance = ''local''\<rparr>,
      \<lparr>ec_code = ExitUnauthorized, ec_meaning = ''unauthorized'',
        ec_provenance = ''HTTP 401''\<rparr>,
      \<lparr>ec_code = ExitForbidden, ec_meaning = ''forbidden (source-class / peer)'',
        ec_provenance = ''HTTP 403''\<rparr>,
      \<lparr>ec_code = ExitUnreachable, ec_meaning = ''peer offline / transport unreachable / host-key unknown or changed'',
        ec_provenance = ''HTTP 502 (client-derived) OR SSH-dial fail OR host-key unknown/mismatch''\<rparr>,
      \<lparr>ec_code = ExitTooLarge, ec_meaning = ''payload too large'',
        ec_provenance = ''HTTP 413 OR local pre-flight''\<rparr>,
      \<lparr>ec_code = ExitConfig, ec_meaning = ''config / identity error (no peer, no token, bad config, CA-unsupported)'',
        ec_provenance = ''local''\<rparr>,
      \<lparr>ec_code = ExitRemoteIO, ec_meaning = ''remote/peer I/O error (e.g. disk full)'',
        ec_provenance = ''HTTP 500 (real errno relayed; client-derived)''\<rparr>]"

definition env_docs :: "(string \<times> string) list" where
  "env_docs =
     [(''CLIPBEAM_JSON'',
        ''when set truthy, every command emits --json (watch emits NDJSON)''),
      (''NO_COLOR'',
        ''any non-empty value disables ANSI color''),
      (''CLIPBEAM_TOKEN'',
        ''shared token override for CI (never put a real token in argv on a shared box)''),
      (''XDG_RUNTIME_DIR'',
        ''if absolute, the daemon socket is $XDG_RUNTIME_DIR/clipbeam/clipbeam.sock'')]"

definition channels_docs :: channels_doc where
  "channels_docs =
     \<lparr>ch_note = ''Two channels: 'agent' (in-memory FIFO inbox + agent-inbox files, drained by recv; never touches the human clipboard) and 'clipboard' (saved to disk + last_path, latest-wins). msg ALWAYS uses agent; send/shot default to clipboard and --agent flips; push uses clipboard. Branch on the PAYLOAD (item:null / path:null), not the exit code: a long-poll timeout is exit 0.'',
      ch_cid = ''Opt-in, agent-channel-only correlation: msg --reply-to <uuid> prepends a leading [clipbeam:cid=<uuid>] token, parsed back into the 'cid' field by recv --json / watch --json. OFF by default; a Swift peer that never emits it round-trips as cid:null.''\<rparr>"

definition doc_send :: command_doc where
  "doc_send =
     \<lparr>cd_name = ''send'', cd_summary = ''Beam a file to the box; prints the remote absolute path on stdout'',
      cd_args = ''<file> [target]'', cd_flags = Some [''--agent''],
      cd_stdout = ''default: {\"ok\":true,\"sentItems\":N} then the remote abs path (no trailing newline); --json: sendResult'',
      cd_exitCodes = [0, 1, 2, 5, 6, 7, 8, 9],
      cd_jsonSchema = ''{\"schema\":\"clipbeam.v1\",\"ok\":true,\"sentItems\":N,\"remotePath\":\"<abs>|null\"}''\<rparr>"

definition doc_shot :: command_doc where
  "doc_shot =
     \<lparr>cd_name = ''shot'', cd_summary = ''Capture a screenshot, beam it to the box, print the remote path'',
      cd_args = ''[target]'', cd_flags = Some [''--agent''],
      cd_stdout = ''same as send'',
      cd_exitCodes = [0, 1, 2, 5, 6, 7, 8, 9],
      cd_jsonSchema = ''{\"schema\":\"clipbeam.v1\",\"ok\":true,\"sentItems\":N,\"remotePath\":\"<abs>|null\"}''\<rparr>"

definition doc_msg :: command_doc where
  "doc_msg =
     \<lparr>cd_name = ''msg'', cd_summary = ''Beam a text message on the agent channel (ALWAYS agent)'',
      cd_args = ''<text> [target]'', cd_flags = Some [''--reply-to <uuid>''],
      cd_stdout = ''same as send'',
      cd_exitCodes = [0, 1, 2, 5, 6, 8, 9],
      cd_jsonSchema = ''{\"schema\":\"clipbeam.v1\",\"ok\":true,\"sentItems\":N,\"remotePath\":\"<abs>|null\"}''\<rparr>"

definition doc_push :: command_doc where
  "doc_push =
     \<lparr>cd_name = ''push'', cd_summary = ''Beam the local clipboard contents to the box (clipboard channel)'',
      cd_args = ''[target]'', cd_flags = None,
      cd_stdout = ''same as send'',
      cd_exitCodes = [0, 1, 2, 5, 6, 7, 8, 9],
      cd_jsonSchema = ''{\"schema\":\"clipbeam.v1\",\"ok\":true,\"sentItems\":N,\"remotePath\":\"<abs>|null\"}''\<rparr>"

definition doc_last :: command_doc where
  "doc_last =
     \<lparr>cd_name = ''last'', cd_summary = ''Print the most-recently-received absolute path (no trailing newline)'',
      cd_args = [], cd_flags = None,
      cd_stdout = ''the bare absolute path with NO trailing newline; nothing-available prints nothing (exit 0)'',
      cd_exitCodes = [0, 1, 6],
      cd_jsonSchema = ''{\"schema\":\"clipbeam.v1\",\"ok\":true,\"path\":\"<abs>|null\"}''\<rparr>"

definition doc_wait :: command_doc where
  "doc_wait =
     \<lparr>cd_name = ''wait'', cd_summary = ''Block up to 120s for the next received path; print it (no trailing newline)'',
      cd_args = [], cd_flags = None,
      cd_stdout = ''the bare absolute path with NO trailing newline; timeout prints nothing (exit 0)'',
      cd_exitCodes = [0, 1, 6],
      cd_jsonSchema = ''{\"schema\":\"clipbeam.v1\",\"ok\":true,\"path\":\"<abs>|null\"}''\<rparr>"

definition doc_recv :: command_doc where
  "doc_recv =
     \<lparr>cd_name = ''recv'', cd_summary = ''Dequeue one agent-channel item (default 120s long-poll)'',
      cd_args = [], cd_flags = Some [''--timeout N''],
      cd_stdout = ''default: labeled block (type:/sender:/path:/text: last, colon-SPACE, no trailing newline); timeout prints nothing (exit 0)'',
      cd_exitCodes = [0, 1, 6],
      cd_jsonSchema = ''{\"schema\":\"clipbeam.v1\",\"ok\":true,\"type\":\"image|file|text\",\"sender\":\"<host>\",\"path\":<abs|null>,\"text\":<utf8|null>,\"channel\":\"agent\",\"cid\":<uuid|null>}; on timeout {\"schema\":\"clipbeam.v1\",\"ok\":true,\"item\":null}''\<rparr>"

definition doc_watch :: command_doc where
  "doc_watch =
     \<lparr>cd_name = ''watch'', cd_summary = ''Stream received items as NDJSON until SIGINT (re-arms recv + wait)'',
      cd_args = [], cd_flags = Some [''--channel agent|clipboard|both''],
      cd_stdout = ''NDJSON, one object per line, flushed per item; clipboard channel is latest-wins (coalescing); SIGINT exits 0'',
      cd_exitCodes = [0, 1, 2, 6],
      cd_jsonSchema = ''agent: {\"schema\":\"clipbeam.v1\",\"event\":\"item\",\"channel\":\"agent\",\"type\":\"'' @ [CHR 0xE2, CHR 0x80, CHR 0xA6] @ ''\",\"sender\":\"'' @ [CHR 0xE2, CHR 0x80, CHR 0xA6] @ ''\",\"path\":<abs|null>,\"text\":<utf8|null>,\"cid\":<uuid|null>,\"ts\":\"<RFC3339 UTC>\"}; clipboard: {\"schema\":\"clipbeam.v1\",\"event\":\"item\",\"channel\":\"clipboard\",\"path\":\"<abs>\",\"ts\":\"<RFC3339 UTC>\"}''\<rparr>"

definition doc_health :: command_doc where
  "doc_health =
     \<lparr>cd_name = ''health'', cd_summary = ''Check a peer's /health (liveness via ok==true; values are node-specific)'',
      cd_args = ''[target]'', cd_flags = None,
      cd_stdout = ''the /health JSON {ok,app,version,host,platform}; test ok==true, never the app/platform strings'',
      cd_exitCodes = [0, 1, 6, 8],
      cd_jsonSchema = ''{\"ok\":true,\"app\":\"clipbeam\",\"version\":\"<semver>\",\"host\":\"<hostname>\",\"platform\":\"<goos> <kernel>\"}''\<rparr>"

definition doc_version :: command_doc where
  "doc_version =
     \<lparr>cd_name = ''version'', cd_summary = ''Print the clipbeam version (use --json for the structured schema)'',
      cd_args = [], cd_flags = None,
      cd_stdout = ''default: the bare semver (with newline); --json: the structured version object'',
      cd_exitCodes = [0],
      cd_jsonSchema = ''{\"schema\":\"clipbeam.v1\",\"ok\":true,\"version\":\"<semver>\",\"commit\":\"<vcs-or-dev>\",\"wireProtocol\":\"envelope-v1\"}''\<rparr>"

definition doc_schema :: command_doc where
  "doc_schema =
     \<lparr>cd_name = ''schema'', cd_summary = ''Print the machine-readable self-description (verbs, flags, exit codes)'',
      cd_args = [], cd_flags = None,
      cd_stdout = ''this document (also via `help --json`)'',
      cd_exitCodes = [0],
      cd_jsonSchema = ''the full self-description document''\<rparr>"

definition doc_install_skill :: command_doc where
  "doc_install_skill =
     \<lparr>cd_name = ''install-skill'', cd_summary = ''Install the clipbeam agent skill (SKILL.md/AGENTS.md) for Claude/Codex'',
      cd_args = [], cd_flags = Some [''--target claude|codex|all'', ''--dir <path>'', ''--force'', ''--list-targets''],
      cd_stdout = ''each written path, one per line'',
      cd_exitCodes = [0, 1, 2, 8],
      cd_jsonSchema = ''{\"schema\":\"clipbeam.v1\",\"ok\":true,\"written\":[\"<path>\"]}''\<rparr>"

definition doc_serve :: command_doc where
  "doc_serve =
     \<lparr>cd_name = ''serve'', cd_summary = ''Run the receiver daemon (unix socket by default; --listen tcp|tailscale)'',
      cd_args = [], cd_flags = Some [''--listen socket|tcp|tailscale'', ''--set-clipboard''],
      cd_stdout = ''diagnostics to stderr; serves until SIGINT/SIGTERM'',
      cd_exitCodes = [0, 1, 8],
      cd_jsonSchema = ''n/a (long-running)''\<rparr>"

definition doc_ingest :: command_doc where
  "doc_ingest =
     \<lparr>cd_name = ''ingest'', cd_summary = ''Read a CB01 frame from stdin, save it, print the saved abs path(s)'',
      cd_args = [], cd_flags = None,
      cd_stdout = ''the saved absolute path(s), one per line, no trailing newline on the last'',
      cd_exitCodes = [0, 1, 2, 7, 9],
      cd_jsonSchema = ''n/a (bare path lines)''\<rparr>"

definition doc_setup :: command_doc where
  "doc_setup =
     \<lparr>cd_name = ''setup'', cd_summary = ''Bootstrap the box over SSH: stream the binary, pair, record the abs path'',
      cd_args = ''<user@host>'', cd_flags = Some [''--serve exec|socket|tcp|tailscale'', ''--accept-new-hostkey'', ''--force'', ''--from-release''],
      cd_stdout = ''the recorded remote binary path on success'',
      cd_exitCodes = [0, 1, 2, 6, 8],
      cd_jsonSchema = ''{\"schema\":\"clipbeam.v1\",\"ok\":true,\"remoteBinPath\":\"<abs>\",\"alias\":\"<name>\"}''\<rparr>"

definition doc_doctor :: command_doc where
  "doc_doctor =
     \<lparr>cd_name = ''doctor'', cd_summary = ''Diagnose config, token storage, permissions, and transport readiness'',
      cd_args = [], cd_flags = None,
      cd_stdout = ''diagnostics to stderr; --json: the structured findings (warns on a group/other-readable token file)'',
      cd_exitCodes = [0, 8],
      cd_jsonSchema = ''{\"schema\":\"clipbeam.v1\",\"ok\":true,\"config\":\"'' @ [CHR 0xE2, CHR 0x80, CHR 0xA6] @ ''\",\"tokenStore\":\"'' @ [CHR 0xE2, CHR 0x80, CHR 0xA6] @ ''\",\"tokenPresent\":true,\"platform\":\"'' @ [CHR 0xE2, CHR 0x80, CHR 0xA6] @ ''\"}''\<rparr>"

definition doc_service :: command_doc where
  "doc_service =
     \<lparr>cd_name = ''service'', cd_summary = ''Manage the optional systemd --user / launchd service unit (off by default)'',
      cd_args = ''<install|uninstall>'', cd_flags = None,
      cd_stdout = ''the written/removed unit path'',
      cd_exitCodes = [0, 1, 2, 8],
      cd_jsonSchema = ''{\"schema\":\"clipbeam.v1\",\"ok\":true,\"unit\":\"<path>\"}''\<rparr>"

definition commandTable :: "command_doc list" where
  "commandTable =
     [doc_send, doc_shot, doc_msg, doc_push, doc_last, doc_wait, doc_recv, doc_watch, doc_health, doc_version, doc_schema, doc_install_skill, doc_serve, doc_ingest, doc_setup, doc_doctor, doc_service]"

definition buildSchema :: "string \<Rightarrow> schema_doc" where
  "buildSchema version =
     \<lparr>sd_schema = schemaVersion, sd_ok = True, sd_binary = ''clipbeam'', sd_version = version, sd_wireProtocol = wireProtocol,
      sd_exitCodes = exitCodeTable, sd_env = env_docs, sd_commands = commandTable, sd_channels = channels_docs\<rparr>"

definition json_int :: "int \<Rightarrow> json" where
  "json_int n = JNum (marshal_int n)"

definition exit_code_json :: "exit_code_doc \<Rightarrow> json" where
  "exit_code_json e =
     JObj [(''code'', json_int (ec_code e)), (''meaning'', JStr (ec_meaning e)), (''provenance'', JStr (ec_provenance e))]"

definition command_json :: "command_doc \<Rightarrow> json" where
  "command_json c =
     JObj [(''name'', JStr (cd_name c)), (''summary'', JStr (cd_summary c)), (''args'', JStr (cd_args c)),
       (''flags'', case cd_flags c of None \<Rightarrow> JNull | Some fs \<Rightarrow> JArr (map JStr fs)), (''stdout'', JStr (cd_stdout c)),
       (''exitCodes'', JArr (map json_int (cd_exitCodes c))), (''jsonSchema'', JStr (cd_jsonSchema c))]"

definition schema_json :: "schema_doc \<Rightarrow> json" where
  "schema_json d =
     JObj [(''schema'', JStr (sd_schema d)), (''ok'', json_bool (sd_ok d)), (''binary'', JStr (sd_binary d)),
       (''version'', JStr (sd_version d)), (''wireProtocol'', JStr (sd_wireProtocol d)),
       (''exitCodes'', JArr (map exit_code_json (sd_exitCodes d))),
       (''env'', JArr (map (\<lambda>(n, d). JObj [(''name'', JStr n), (''desc'', JStr d)]) (sd_env d))),
       (''commands'', JArr (map command_json (sd_commands d))),
       (''channels'', JObj [(''note'', JStr (ch_note (sd_channels d))), (''cid'', JStr (ch_cid (sd_channels d)))])]"

definition runSchema :: "string \<Rightarrow> streams \<Rightarrow> verb_result" where
  "runSchema cmdVersion st = emitJSON (render (schema_json (buildSchema cmdVersion))) st"

section \<open>Whole commands\<close>

text \<open>\<open>last\<close> from its first line on: the client, then what the call of the client gives.\<close>

definition last_command ::
  "machine \<Rightarrow> (string \<Rightarrow> bool) \<Rightarrow> (string \<Rightarrow> string option) \<Rightarrow> global_flags \<Rightarrow> (control_client \<Rightarrow> get_result) \<Rightarrow> string option \<Rightarrow>
   streams \<Rightarrow> verb_result" where
  "last_command ma stat_ok error_field g call disk st =
     (case loadControl ma stat_ok of
        Inl e \<Rightarrow> (Some e, st)
      | Inr c \<Rightarrow> runLast error_field g (call c) disk st)"

text \<open>The exit code of a command: \<open>Execute\<close> on what it returns.\<close>

definition Execute :: "global_flags \<Rightarrow> verb_result \<Rightarrow> int" where
  "Execute g r = (case fst r of None \<Rightarrow> ExitOK | Some e \<Rightarrow> fst (exitCodeFor g (Some e) (snd r)))"

section \<open>What the description promises\<close>

text \<open>The documented behaviour of the argument checks of the library.\<close>

fun arg_range :: "arg_policy \<Rightarrow> nat \<times> nat" where
  "arg_range NoArgs = (0, 0)"
| "arg_range (MaximumNArgs n) = (0, n)"
| "arg_range (RangeArgs m n) = (m, n)"
| "arg_range (ExactArgs n) = (n, n)"

definition cobra_args :: "(arg_policy \<Rightarrow> nat \<Rightarrow> bool) \<Rightarrow> bool" where
  "cobra_args accepts \<longleftrightarrow> (\<forall>p n. accepts p n \<longleftrightarrow> fst (arg_range p) \<le> n \<and> n \<le> snd (arg_range p))"

definition doc_words :: "string \<Rightarrow> string list" where
  "doc_words s = filter (\<lambda>w. w \<noteq> []) (split_on (CHR '' '') s)"

definition mandatory :: "command_doc \<Rightarrow> nat" where
  "mandatory d = length (filter (\<lambda>w. hd w = CHR ''<'') (doc_words (cd_args d)))"

definition all_args :: "command_doc \<Rightarrow> nat" where
  "all_args d = length (doc_words (cd_args d))"

definition flag_names :: "command_doc \<Rightarrow> string list" where
  "flag_names d = map (\<lambda>f. takeWhile (\<lambda>c. c \<noteq> CHR '' '') (drop 2 f)) (case cd_flags d of None \<Rightarrow> [] | Some fs \<Rightarrow> fs)"

definition documents :: "command_doc \<Rightarrow> cobra_command \<Rightarrow> bool" where
  "documents d cm \<longleftrightarrow>
     cm_use cm = cd_name d @ (if cd_args d = [] then [] else CHR '' '' # cd_args d) \<and>
     flag_names d = map fst (cm_flags cm) \<and> arg_range (cm_args cm) = (mandatory d, all_args d) \<and>
     (cd_summary d = cm_short cm \<longleftrightarrow> cd_name d \<notin> {''msg'', ''push'', ''watch''})"

section \<open>Lemmas\<close>

text \<open>The order of the table, as positions of the commands.\<close>

definition doc_order :: "cobra_command list" where
  "doc_order = map ((!) root_commands) [0, 1, 2, 3, 4, 5, 6, 7, 8, 10, 9, 11, 12, 13, 14, 15, 16]"

lemmas commands = newSendCmd_def newShotCmd_def newMsgCmd_def newPushCmd_def newLastCmd_def newWaitCmd_def newRecvCmd_def
  newWatchCmd_def newHealthCmd_def newSchemaCmd_def newVersionCmd_def newInstallSkillCmd_def newServeCmd_def newIngestCmd_def
  newSetupCmd_def newDoctorCmd_def newServiceCmd_def

lemma docs_match: "list_all2 documents commandTable doc_order"
  by code_simp

lemma doc_names: "distinct (map cd_name commandTable)"
  by code_simp

lemma doc_exit_codes: "list_all (\<lambda>d. list_all (\<lambda>c. c \<in> set (map ec_code exitCodeTable)) (cd_exitCodes d)) commandTable"
  by code_simp

lemma exit_table_codes: "map ec_code exitCodeTable = [0, 1, 2, 3, 4, 5, 6, 7, 8, 9]"
  by code_simp

lemma set_doc_order: "set doc_order = set root_commands"
  by (auto simp: doc_order_def root_commands_def)

lemma run_passes_all:
  assumes "cm \<in> set root_commands" "fst (arg_range (cm_args cm)) \<le> length args" "length args \<le> snd (arg_range (cm_args cm))"
  shows "cm_run cm args = Some (args @ replicate (snd (arg_range (cm_args cm)) - length args) [])"
  using assms
  by (cases args; cases "tl args")
    (auto simp: root_commands_def commands index_arg_def targetArg_def numeral_2_eq_2)

lemma list_all2_left: "list_all2 P xs ys \<Longrightarrow> x \<in> set xs \<Longrightarrow> \<exists>y\<in>set ys. P x y"
  by (induction rule: list_all2_induct) auto

lemma list_all2_right: "list_all2 P xs ys \<Longrightarrow> y \<in> set ys \<Longrightarrow> \<exists>x\<in>set xs. P x y"
  by (induction rule: list_all2_induct) auto

lemma exit_codes_documented:
  "cd_exitCodes doc_version = [0]" "cd_exitCodes doc_schema = [0]" "cd_exitCodes doc_doctor = [0, 8]"
  "cd_exitCodes doc_install_skill = [0, 1, 2, 8]" "cd_exitCodes doc_service = [0, 1, 2, 8]" "cd_exitCodes doc_last = [0, 1, 6]"
  "cd_exitCodes doc_recv = [0, 1, 6]" "cd_exitCodes doc_watch = [0, 1, 2, 6]" "cd_exitCodes doc_serve = [0, 1, 8]"
  by (simp_all only: doc_version_def doc_schema_def doc_doctor_def doc_install_skill_def doc_service_def doc_last_def doc_recv_def
      doc_watch_def doc_serve_def command_doc.simps)

lemma schema_json_ok: "json_ok (schema_json d)"
proof -
  have "json_ok (json_int n)" for n
    using decimal_digits by (auto simp: json_int_def marshal_int_def list_all_iff number_byte_def num_byte_def)
  then show ?thesis
    by (auto simp: schema_json_def exit_code_json_def command_json_def json_bool_def list_all_iff split: option.split)
qed

lemma Execute_coded: "Execute g (Some (codedf c m), st) = c" "Execute g (None, st) = 0"
  "Execute g (Some (usageError m), st) = 2" "Execute g (Some (configError m), st) = 8"
  by (simp_all add: Execute_def exitCodeFor_def codedf_def usageError_def configError_def exit_codes Let_def)

lemma Execute_install:
  "Execute g (fst (runInstallSkill g getenv home env target dir force ls sf)) \<in> {0, 1, 2, 8}"
proof (cases "resolveSkillTargets getenv home target dir")
  case (Inl e)
  then show ?thesis
    by (cases sf) (auto simp: runInstallSkill_def resolveSkillTargets_def Execute_coded Let_def split: if_splits)
next
  case (Inr ts)
  obtain st fs x st1 fs1 where "sf = (st, fs)" "install_targets g env force ts [] (st, fs) = (x, st1, fs1)" by (metis prod_cases3 surj_pair)
  then show ?thesis
    by (cases x) (simp_all add: runInstallSkill_def Inr Execute_def exitCodeFor_def coded_def emitJSON_def exit_codes Let_def)
qed

section \<open>Properties\<close>

text \<open>C36. The description of the program is that of its commands. For every command there is exactly one entry, and for
  every entry a command, with the same usage line and the same flags in the same order; the library lets through
  exactly the numbers of arguments the entry shows (those in angle brackets are mandatory), for each of these
  numbers the verb gets all the arguments and no index is out of range; the exit codes an entry lists are
  in the table, which is that of 0 to 9; and what \<open>schema\<close> prints is one JSON value on one line.\<close>

theorem schema_describes_commands:
  assumes "cobra_args accepts"
  shows "distinct (map cd_name commandTable)
    \<and> (\<forall>d\<in>set commandTable. \<exists>cm\<in>set root_commands. documents d cm)
    \<and> (\<forall>cm\<in>set root_commands. \<exists>d\<in>set commandTable. documents d cm
        \<and> (\<forall>n. accepts (cm_args cm) n \<longleftrightarrow> mandatory d \<le> n \<and> n \<le> all_args d)
        \<and> (\<forall>args. accepts (cm_args cm) (length args) \<longrightarrow>
            cm_run cm args = Some (args @ replicate (all_args d - length args) [])))
    \<and> (\<forall>d\<in>set commandTable. \<forall>c\<in>set (cd_exitCodes d). c \<in> set (map ec_code exitCodeTable))
    \<and> map ec_code exitCodeTable = [0, 1, 2, 3, 4, 5, 6, 7, 8, 9]
    \<and> (\<exists>l. runSchema v st = (None, st\<lparr>st_out := st_out st @ [OutData (l @ [newline])]\<rparr>) \<and> newline \<notin> set l
        \<and> (\<forall>e c t. delimiter c \<longrightarrow> skipJSONValue e (l @ c # t) = Inr (c # t)))"
proof (intro conjI ballI)
  have acc: "accepts p n \<longleftrightarrow> fst (arg_range p) \<le> n \<and> n \<le> snd (arg_range p)" for p n
    using assms by (simp add: cobra_args_def)
  show "distinct (map cd_name commandTable)" by (rule doc_names)
  show "map ec_code exitCodeTable = [0, 1, 2, 3, 4, 5, 6, 7, 8, 9]" by (rule exit_table_codes)
  show "c \<in> set (map ec_code exitCodeTable)" if "d \<in> set commandTable" "c \<in> set (cd_exitCodes d)" for d c
    using doc_exit_codes that by (simp add: list_all_iff)
  show "\<exists>cm\<in>set root_commands. documents d cm" if "d \<in> set commandTable" for d
    using list_all2_left[OF docs_match that] set_doc_order by simp
  show "\<exists>d\<in>set commandTable. documents d cm
      \<and> (\<forall>n. accepts (cm_args cm) n \<longleftrightarrow> mandatory d \<le> n \<and> n \<le> all_args d)
      \<and> (\<forall>args. accepts (cm_args cm) (length args) \<longrightarrow> cm_run cm args = Some (args @ replicate (all_args d - length args) []))"
    if cm: "cm \<in> set root_commands" for cm
  proof -
    obtain d where d: "d \<in> set commandTable" "documents d cm"
      using list_all2_right[OF docs_match] cm set_doc_order by blast
    then have "arg_range (cm_args cm) = (mandatory d, all_args d)" by (simp only: documents_def)
    then show ?thesis using d run_passes_all[OF cm] acc by (intro bexI[OF _ d(1)]) simp
  qed
  have "runSchema v st = (None, st\<lparr>st_out := st_out st @ [OutData (render (schema_json (buildSchema v)) @ [newline])]\<rparr>)"
    by (simp only: runSchema_def emitJSON_def dataln_def)
  then show "\<exists>l. runSchema v st = (None, st\<lparr>st_out := st_out st @ [OutData (l @ [newline])]\<rparr>) \<and> newline \<notin> set l
      \<and> (\<forall>e c t. delimiter c \<longrightarrow> skipJSONValue e (l @ c # t) = Inr (c # t))"
    using render_no_newline[OF schema_json_ok] render_reads[OF schema_json_ok] by blast
qed


section \<open>Witnesses\<close>

theorem schema_describes_commands_witness:
  "\<exists>d. documents d newSendCmd \<and> cm_run newSendCmd [''f''] = Some ([''f''] @ replicate (all_args d - length [''f'']) [])"
proof -
  have "cobra_args (\<lambda>p n. fst (arg_range p) \<le> n \<and> n \<le> snd (arg_range p))" by (simp add: cobra_args_def)
  note describes = schema_describes_commands[OF this, of "''dev''" "\<lparr>st_out = [], st_err = []\<rparr>"]
  have send: "newSendCmd \<in> set root_commands" by (simp add: root_commands_def)
  obtain d where d: "documents d newSendCmd"
    "\<forall>args. fst (arg_range (cm_args newSendCmd)) \<le> length args \<and> length args \<le> snd (arg_range (cm_args newSendCmd)) \<longrightarrow>
       cm_run newSendCmd args = Some (args @ replicate (all_args d - length args) [])"
    using bspec[OF conjunct1[OF conjunct2[OF conjunct2[OF describes]]] send] by blast
  have "fst (arg_range (cm_args newSendCmd)) \<le> length [''f''] \<and> length [''f''] \<le> snd (arg_range (cm_args newSendCmd))"
    by (simp add: newSendCmd_def)
  then show ?thesis using d by blast
qed

definition witness_broken :: machine where
  "witness_broken = witness_machine\<lparr>ma_readConfig := (\<lambda>p. ReadFails)\<rparr>"


end
