(* ===== verification/SkillText.thy ===== *)
theory SkillText
  imports Surface
begin

text \<open>
  The texts that \<open>install-skill\<close> drops (\<open>skillgen.go\<close>): the skill and its companion, written out from the
  self-description of the surface theory, section by section.
\<close>

section \<open>Rows\<close>

fun escapePipes :: "string \<Rightarrow> string" where
  "escapePipes [] = []"
| "escapePipes (c # s) = (if c = CHR ''|'' then CHR 0x5C # c # escapePipes s else c # escapePipes s)"

definition command_row :: "command_doc \<Rightarrow> string" where
  "command_row c =
     ''| `'' @ cd_name c @ ''` | '' @ (if cd_args c = [] then ''-'' else cd_args c) @ '' | '' @ escapePipes (cd_summary c) @ '' |'' @ [newline]"

definition exit_row :: "exit_code_doc \<Rightarrow> string" where
  "exit_row e =
     ''| '' @ marshal_int (ec_code e) @ '' | '' @ escapePipes (ec_meaning e) @ '' | '' @ escapePipes (ec_provenance e) @ '' |'' @ [newline]"

definition env_row :: "string \<times> string \<Rightarrow> string" where
  "env_row e = ''- `'' @ fst e @ ''` '' @ em_dash @ '' '' @ snd e @ [newline]"

section \<open>Sections\<close>

definition md_front :: string where
  "md_front =
     ''---'' @ [newline] @
     ''name: clipbeam'' @ [newline] @
     ''description: Beam a file, screenshot, or text message from your laptop into a headless Linux box you are SSH'd into (landing it on the box's disk and printing its absolute path), and receive items beamed to you. Use when an agent needs to hand a file/screenshot/message to the agent on a remote box, put something on the box's clipboard, or pick up what was sent. CLI: clipbeam send | shot | msg | push | recv | last | wait | watch | health.'' @ [newline] @
     ''---'' @ [newline] @ [newline] @
     ''# clipbeam '' @ em_dash @ '' beam files, screenshots, and messages into a remote box'' @ [newline] @ [newline] @
     ''`clipbeam` beams files, screenshots, clipboard content, and agent messages over **SSH** (default) or **Tailscale** into a headless box you are already SSH'd into. Each payload lands on the box's disk and the CLI prints its **absolute path** so a remote coding agent can Read it. No cloud, no account; the wire is ClipBeam's frozen Envelope v1.'' @ [newline] @ [newline] @
     ''Run the SEND verbs on your laptop (they drive the remote box over SSH). Run the RECEIVE verbs on the box itself (they read what was beamed to it via the local `clipbeam serve` daemon).'' @ [newline] @ [newline]"

definition md_channels :: "schema_doc \<Rightarrow> string" where
  "md_channels doc =
     ''## Two channels (important)'' @ [newline] @
     ch_note (sd_channels doc) @ [newline] @ [newline] @
     ''- **agent channel** '' @ em_dash @ '' lands ONLY in the box's agent-inbox (files, mode 600) or an in-memory FIFO (text). It does NOT touch the human's clipboard. Drained with `clipbeam recv`. This is the channel for agent'' @ [CHR 0xE2, CHR 0x86, CHR 0x94] @ ''agent comms.'' @ [newline] @
     ''- **clipboard channel** (default for `send`/`shot`/`push`) '' @ em_dash @ '' saved to the box's save dir and recorded as `last_path`; `clipbeam last`/`wait` surface it.'' @ [newline] @ [newline]"

definition md_commands :: "schema_doc \<Rightarrow> string" where
  "md_commands doc =
     ''## Commands'' @ [newline] @ [newline] @
     ''| Command | Args | Effect |'' @ [newline] @
     ''|---------|------|--------|'' @ [newline] @
     concat (map command_row (sd_commands doc)) @
     [newline]"

definition md_recv :: string where
  "md_recv =
     ''## `clipbeam recv` output format (default mode)'' @ [newline] @
     ''```'' @ [newline] @
     ''type: image|file|text'' @ [newline] @
     ''sender: <hostname>'' @ [newline] @
     ''path: <absolute path>     # present for image/file '' @ em_dash @ '' READ THE FILE AT THIS PATH'' @ [newline] @
     ''text: <the message>       # present for text '' @ em_dash @ '' LAST; may span multiple lines'' @ [newline] @
     ''```'' @ [newline] @
     ''Labels use a literal colon-SPACE separator; split on the FIRST colon and drop the single leading space. `text:` is always last and consumes the rest verbatim (embedded newlines preserved). For a file/image item, read the file at `path:`; for text, use the `text:` value. There is NO trailing newline.'' @ [newline] @ [newline]"

definition md_guarantees :: "schema_doc \<Rightarrow> string" where
  "md_guarantees doc =
     ''## Agent-first guarantees'' @ [newline] @
     ''- Every command takes `--json` for a stable, versioned object (`\"schema\":\"'' @ sd_schema doc @ ''\"`). `CLIPBEAM_JSON=1` flips all commands to JSON (and `watch` to NDJSON).'' @ [newline] @
     ''- **stdout = data, stderr = diagnostics.** `last`/`wait` print the bare absolute path with NO trailing newline; `recv` prints the labeled block. A coding agent reads a bare absolute path in the prompt (NOT `@path`).'' @ [newline] @
     ''- Branch on the PAYLOAD, not the exit code: a long-poll timeout on `wait`/`recv`/`watch` is exit 0 with `path:null` / `item:null`.'' @ [newline] @
     ''- `clipbeam schema` (or `help --json`) prints this entire surface as one machine-readable document at runtime.'' @ [newline] @ [newline] @
     ''### cid convention'' @ [newline] @
     ch_cid (sd_channels doc) @ [newline] @ [newline]"

definition md_exit_codes :: "schema_doc \<Rightarrow> string" where
  "md_exit_codes doc =
     ''## Exit codes'' @ [newline] @ [newline] @
     ''| Code | Meaning | Provenance |'' @ [newline] @
     ''|------|---------|------------|'' @ [newline] @
     concat (map exit_row (sd_exitCodes doc)) @
     [newline]"

definition md_recipe :: string where
  "md_recipe =
     ''## Recipe'' @ [newline] @
     ''```sh'' @ [newline] @
     ''# On your laptop '' @ em_dash @ '' beam to the box (clipboard channel by default):'' @ [newline] @
     ''clipbeam send /tmp/build.log user@box      # '' @ [CHR 0xE2, CHR 0x86, CHR 0x92] @ '' prints the remote abs path on the box'' @ [newline] @
     ''clipbeam msg \"build is green\" user@box      # '' @ [CHR 0xE2, CHR 0x86, CHR 0x92] @ '' agent channel (always)'' @ [newline] @
     ''clipbeam send diff.patch --agent user@box   # '' @ [CHR 0xE2, CHR 0x86, CHR 0x92] @ '' agent inbox on the box'' @ [newline] @ [newline] @
     ''# On the box (a remote agent) '' @ em_dash @ '' pick up what was sent:'' @ [newline] @
     ''clipbeam recv          # '' @ [CHR 0xE2, CHR 0x86, CHR 0x92] @ '' labeled block; dequeues ONE agent item (FIFO), call again to drain'' @ [newline] @
     ''clipbeam last          # '' @ [CHR 0xE2, CHR 0x86, CHR 0x92] @ '' the bare absolute path of the last clipboard-channel file'' @ [newline] @
     ''clipbeam wait          # '' @ [CHR 0xE2, CHR 0x86, CHR 0x92] @ '' block up to 120s for the next clipboard path'' @ [newline] @
     ''clipbeam watch --json  # '' @ [CHR 0xE2, CHR 0x86, CHR 0x92] @ '' NDJSON stream of every item until Ctrl-C'' @ [newline] @
     ''```'' @ [newline] @ [newline]"

definition md_transport :: "schema_doc \<Rightarrow> string" where
  "md_transport doc =
     ''## Setup & transport'' @ [newline] @
     ''- `clipbeam setup user@host` bootstraps the box over SSH: streams the matching static binary, records its absolute path, generates + pairs a 120-bit token (token required even over SSH). The default remote serve mode is daemonless-exec (no running process, no open port). `--serve socket` runs a 0600 unix-socket daemon for `recv`/`wait`/`watch`.'' @ [newline] @
     ''- Transport reuses your SSH auth (ssh-agent + `~/.ssh/config`); host keys use strict knownhosts (TOFU only under `setup`/`--accept-new-hostkey`, never on a data verb). Tailscale is the always-on alternative.'' @ [newline] @
     ''- A failed send surfaces the real reason (e.g. `peer HTTP 500: '' @ [CHR 0xE2, CHR 0x80, CHR 0xA6] @ '' No space left on device`), not an opaque code.'' @ [newline] @ [newline] @
     ''## Environment variables'' @ [newline] @
     concat (map env_row (sd_env doc)) @
     [newline]"

section \<open>The documents\<close>

definition generateAgentsMarkdown :: "schema_doc \<Rightarrow> string" where
  "generateAgentsMarkdown doc =
     ''# clipbeam (agent quickstart)'' @ [newline] @ [newline] @
     ''`clipbeam` beams files/screenshots/messages into a remote box over SSH/Tailscale and prints the saved absolute path. Wire: '' @ sd_wireProtocol doc @ ''. CLI JSON envelope: '' @ sd_schema doc @ ''.'' @ [newline] @ [newline] @
     ''Canonical, always-current surface: run `clipbeam schema` (or `clipbeam help --json`) '' @ em_dash @ '' it emits every verb, flag, stdout shape, and exit code as one JSON document.'' @ [newline] @ [newline] @
     ''Key rules:'' @ [newline] @
     ''- stdout=data, stderr=diagnostics; `last`/`wait` emit a bare absolute path with NO trailing newline.'' @ [newline] @
     ''- Branch on the payload (`path:null`/`item:null`), not the exit code; a long-poll timeout is exit 0.'' @ [newline] @
     ''- Two channels: agent (FIFO, drained by `recv`) and clipboard (disk + `last_path`). `msg` is always agent; `send`/`shot` default to clipboard, `--agent` flips.'' @ [newline]"

definition generateSkillMarkdown :: "schema_doc \<Rightarrow> string" where
  "generateSkillMarkdown doc =
     md_front @ md_channels doc @ md_commands doc @ md_recv @ md_guarantees doc @ md_exit_codes doc @ md_recipe @ md_transport doc"

section \<open>The tables\<close>

text \<open>The bars of a line that end a cell: those without a backslash before them.\<close>

fun bars :: "bool \<Rightarrow> string \<Rightarrow> nat" where
  "bars esc [] = 0"
| "bars esc (c # s) = (if c = CHR ''|'' \<and> \<not> esc then 1 else 0) + bars (c = CHR 0x5C) s"

definition ends_escape :: "bool \<Rightarrow> string \<Rightarrow> bool" where
  "ends_escape esc s = (if s = [] then esc else last s = CHR 0x5C)"

lemma bars_append: "bars esc (s @ t) = bars esc s + bars (ends_escape esc s) t"
  by (induction s arbitrary: esc) (auto simp: ends_escape_def)

lemma bars_escaped: "bars esc (escapePipes s) = 0"
  by (induction s arbitrary: esc) auto

lemma last_escapePipes: "(escapePipes s = [] \<longleftrightarrow> s = []) \<and> (s \<noteq> [] \<longrightarrow> last (escapePipes s) = last s)"
  by (induction s) auto

lemma ends_escape_escaped: "ends_escape esc (escapePipes s) = ends_escape esc s"
  using last_escapePipes[of s] by (simp add: ends_escape_def)

lemma ends_escape_append: "ends_escape esc (s @ t) = ends_escape (ends_escape esc s) t"
  by (simp add: ends_escape_def)

text \<open>A row of the exit codes has its three cells whatever the texts are, unless one ends in a backslash. A row of
  the commands has three cells and one more for every bare bar of the arguments, which are not escaped: the row of
  \<open>service\<close> is the one that breaks.\<close>

lemma digit_not_bar: "is_digit c \<Longrightarrow> c \<noteq> CHR ''|'' \<and> c \<noteq> CHR 0x5C"
  by (auto simp: is_digit_def)

lemma bars_none: "\<forall>c\<in>set s. c \<noteq> CHR ''|'' \<and> c \<noteq> CHR 0x5C \<Longrightarrow> bars esc s = 0 \<and> (s \<noteq> [] \<longrightarrow> \<not> ends_escape esc s)"
  by (induction s arbitrary: esc) (auto simp: ends_escape_def)

lemma marshal_int_bars: "bars esc (marshal_int n) = 0" "\<not> ends_escape esc (marshal_int n)"
proof -
  have "\<forall>c\<in>set (marshal_int n). c \<noteq> CHR ''|'' \<and> c \<noteq> CHR 0x5C" "marshal_int n \<noteq> []"
    using decimal_digits digit_not_bar by (auto simp: marshal_int_def)
  then show "bars esc (marshal_int n) = 0" "\<not> ends_escape esc (marshal_int n)" using bars_none by blast+
qed

lemma exit_row_bars:
  "\<not> ends_escape False (ec_meaning e) \<Longrightarrow> \<not> ends_escape False (ec_provenance e) \<Longrightarrow> bars False (exit_row e) = 4"
  by (simp add: exit_row_def bars_append bars_escaped ends_escape_append ends_escape_escaped marshal_int_bars ends_escape_def)

lemma command_row_bars: "map (\<lambda>d. bars False (command_row d)) commandTable = replicate 16 4 @ [5]"
  by code_simp

lemma broken_row_is_service: "map cd_name commandTable ! 16 = ''service''"
  by code_simp

text \<open>The texts do not depend on the version.\<close>

lemma skill_text_version: "generateSkillMarkdown (buildSchema v) = generateSkillMarkdown (buildSchema w)"
  "generateAgentsMarkdown (buildSchema v) = generateAgentsMarkdown (buildSchema w)"
  by (simp_all only: generateSkillMarkdown_def generateAgentsMarkdown_def buildSchema_def schema_doc.simps md_channels_def
      md_commands_def md_guarantees_def md_exit_codes_def md_transport_def)

end
