(* ===== verification/Spec2Isabelle.thy ===== *)
theory Spec2Isabelle
  imports Auth SetupLocal Daemon SkillText
begin

text \<open>
  A verification development for clipbeam, a command-line tool that beams clipboard items, files and text
  messages between machines. A sender frames items and pushes them over SSH to \<open>clipbeam ingest\<close> on the
  other side, or posts them as a JSON envelope over HTTP to a daemon (\<open>clipbeam serve\<close>). Both end in the
  one save path (\<open>internal/ingest\<close>), which stores files, the last path and the recents, or queues an agent
  item; \<open>last\<close>, \<open>wait\<close> and \<open>recv\<close> read them back from the daemon or, when there is none, from disk.

  Conventions. A byte string is a \<open>string\<close> (a list of bytes). Machine integers are written with their
  wrap-around where it matters (\<open>wrap64\<close>, words of 8 and 32 bits); sizes of data in memory are natural
  numbers. A Go function that returns a value and an error is a function into a sum; a loop that may not
  end yields an option, \<open>None\<close> for not ending. Clocks, randomness, the environment, the failures of system
  calls and the texts of relayed errors are parameters. Files are an association list from paths
  to contents; a file of the store that holds JSON is kept as its value.

  Parts and theories, in the order they build on each other:

  \<^item> \<open>Prelude\<close>, \<open>GoStd\<close>: results, bytes, decimal numbers, 64-bit integers; what the code uses of Go's strings,
    UTF-8, paths and number parsing. \<open>Steps\<close>, \<open>Codec\<close>: the locales for step systems with an invariant
    and for prefix codecs (with the variable-length integer).
  \<^item> \<open>Auth\<close> (\<open>internal/auth\<close>): token comparison and generation.
  \<^item> \<open>Base64\<close>, \<open>Wire\<close> (\<open>internal/wire\<close>): the streaming base64 decoder, the envelope shapes, the byte ceilings.
  \<^item> \<open>Sanitize\<close> (\<open>internal/sanitize\<close>): file names; the locale \<open>sanitizer\<close> is what the store needs of it.
  \<^item> \<open>Cb01\<close> (\<open>internal/sshx/cb01*.go\<close>): the frame of the SSH push, encoder, decoder and spills.
  \<^item> \<open>Waiters\<close> (\<open>internal/store/waiters.go\<close>, \<open>internal/httpd/singleflight.go\<close>): the agent FIFO, the waiters for a
    path and the single-flight slot, as step relations over their operations with any number of callers.
  \<^item> \<open>Fs\<close>, \<open>Journal\<close>, \<open>Store\<close> (\<open>internal/store\<close>): atomic writes, the agent journal and its refinement of an
    ordered map, the receive store.
  \<^item> \<open>Ingest\<close> (\<open>internal/ingest\<close>): the save path, verified against the locale \<open>clip_store\<close>, which the store of
    \<open>Store\<close> is shown to fulfil.
  \<^item> \<open>JsonStream\<close> (\<open>internal/httpd/jsonstream.go\<close>), \<open>JsonRead\<close> and \<open>ClipParse\<close> (\<open>internal/httpd/clip.go\<close>): the
    string reader, the small readers and the skipping of values, the streaming envelope parser.
  \<^item> \<open>Exit\<close> (\<open>cmd/clipbeam/cli/exit.go\<close>, \<open>errors.go\<close>, \<open>root.go\<close>, \<open>output.go\<close>): exit codes and streams.
  \<^item> \<open>Clip\<close>: \<open>decodeAndIngest\<close> of the HTTP route and \<open>runIngest\<close> (\<open>verbs_ingest.go\<close>), and their agreement.
  \<^item> \<open>Netip\<close>, \<open>Classify\<close> (\<open>internal/classify\<close>), \<open>Gate\<close> (\<open>internal/httpd/gate.go\<close>): addresses, source classes, gates.
  \<^item> \<open>Httpd\<close> (\<open>internal/httpd/routes.go\<close>, \<open>response.go\<close>): the handlers as functions from request and state to
    response and state.
  \<^item> \<open>RecvBody\<close> (\<open>recvparse.go\<close>), \<open>ReadVerbs\<close> (\<open>verbs_read.go\<close>, \<open>control.go\<close>, \<open>status.go\<close>): the labeled body and
    the reading commands.
  \<^item> \<open>Server\<close> (\<open>routes.go\<close>): the daemon as one function from a path and a request to the handler, and runs of it.
    \<open>Daemon\<close>: the same over the concrete store, request by request, refining an abstract queue.
  \<^item> \<open>Shell\<close>, \<open>Target\<close>, \<open>Dial\<close> (\<open>internal/sshx\<close>, the alias store of \<open>internal/config\<close>): quoting for the remote shell,
    target resolution and recorded targets, the SSH client with its host-key policy and keys.
  \<^item> \<open>Config\<close> (\<open>internal/config\<close>): paths, configuration, aliases, private files and the three token stores.
  \<^item> \<open>Tailscale\<close> (\<open>internal/tailscale\<close>), \<open>Send\<close> (\<open>verbs_send*.go\<close>): discovery of peers, the two pushes and the
    sending commands, composed with the receiving side of \<open>Clip\<close> and \<open>Httpd\<close>.
  \<^item> \<open>Release\<close>, \<open>Setup\<close>, \<open>SetupLocal\<close> (\<open>verbs_setup*.go\<close>): the bootstrap of a remote box, what it sends there and
    what it does to the local machine.
  \<^item> \<open>Serve\<close> (\<open>verbs_serve.go\<close>, \<open>httpd.go\<close>, \<open>socket_unix.go\<close>): the start of the daemon, its listeners, and the client
    the local commands build, over a record of the machine.
  \<^item> \<open>Watch\<close> (\<open>verbs_watch.go\<close>), \<open>Meta\<close> (\<open>verbs_meta.go\<close>), \<open>Skill\<close> (\<open>installskill.go\<close>): the stream of received items,
    \<open>version\<close>, \<open>health\<close>, \<open>doctor\<close> and \<open>install-skill\<close>.
  \<^item> \<open>Surface\<close> (\<open>verbs.go\<close>, \<open>schema.go\<close>), \<open>SkillText\<close> (\<open>skillgen.go\<close>): the commands with their arguments and flags, the
    description the program gives of itself, and the texts written from it.

  Properties. Each stands at the end of the theory of its component, numbered in the order of importance
  of the manifest. They say that names cannot leave the save directory and saves are atomic and fresh; that
  the FIFO and the journal hand out every item once and in order, under every interleaving; that the
  parsers return what the encoders wrote and end on every input; that the cap holds and an answer
  lists the files that were added; who is let in by the gates, that without the token the daemon neither
  changes nor reveals anything, and that the texts posted to it come out again in order, as they were sent; that a push over either transport is the same save on the other side, and the
  two ways of reading agree; which host keys are trusted and which commands reach a remote shell, word for
  word; what \<open>setup\<close> does there and here, and that its token is the one the other side loads; that the daemon
  and the local commands meet; that \<open>watch\<close> prints one JSON line per item and goes on for ever; that the
  description of the commands is theirs; and, where the code does not do what it says, exactly what it does.

  Bounds and fuel. \<open>skip_value\<close> has fuel twice the unread input and one more, proved to be enough for every
  input. The drain of the journal takes the number of rounds as fuel, since it can list for ever when
  renames fail, which is proved; the search for a free name is a \<open>partial_function\<close>, proved to end on
  every finite directory. \<open>watch\<close> is a function of the list of its rounds, and its endless runs are the
  functions from the number of a round. All other loops are total functions with their measures.

  Not modelled: sockets, their options, TLS and HTTP framing of net/http, the SSH protocol, the parsing of
  known-hosts lines, of JSON by encoding/json and of archives, the parsing of a command line by the library,
  the programs that hold a key ring, file modes outside the configuration and the socket, and directory
  syncs. These are parameters, or their results are. Scratch files of a request are kept apart from the
  store's files, although both live in the save directory; their names start with a dot, which no saved name
  does. JSON texts that the code only hands to encoding/json are modelled by their values, except where
  the hand-written parser or the reader of a stream sees them. Messages of errors are shortened to their
  constant part where a system error follows. The change of a mode by \<open>chmod\<close> on the load of a token succeeds.
\<close>

end
